(* ===== verification/Prelude.thy ===== *)
theory Prelude
  imports Main "HOL-Library.Word"
begin

text \<open>
  Shared vocabulary of the development: the machine types of the C++ code, its failures as
  values, the loops that stop at the first failure, and the lemmas on lists that several
  components use.

  \<^item> \<open>byte\<close>, \<open>bytes\<close>: \<open>unsigned char\<close> and \<open>std::vector<unsigned char>\<close> (also
    \<open>std::string\<close> where the code uses a string as a byte container);
  \<^item> \<open>u32\<close>, \<open>u64\<close>, \<open>i32\<close>: the fixed width integers, with wrap-around arithmetic
    (\<open>i32\<close> is read with \<^const>\<open>sint\<close>);
  \<^item> \<open>cxx_error\<close>: one constructor per kind of exception that the code throws or that a
    standard container or the JSON library throws, plus \<open>Assert_failed\<close> for a failed \<open>assert\<close> and
    \<open>Undefined\<close> for an access outside a buffer, a null dereference or another step with
    undefined behaviour;
  \<^item> \<open>'a result\<close>: the value of a function that may fail that way.
\<close>

type_synonym byte = "8 word"
type_synonym bytes = "8 word list"
type_synonym u32 = "32 word"
type_synonym u64 = "64 word"
type_synonym i32 = "32 word"

datatype cxx_error =
    Out_of_range
  | Invalid_argument string
  | Logic_error string
  | Runtime_error string
  | Json_out_of_range
  | Json_type_error
  | Assert_failed
  | Undefined string

type_synonym 'a result = "cxx_error + 'a"

text \<open>\<open>catch (const std::exception &)\<close> stops a thrown exception, not undefined behaviour.\<close>

fun is_exception :: "cxx_error \<Rightarrow> bool" where
  "is_exception (Undefined _) = False"
| "is_exception Assert_failed = False"
| "is_exception _ = True"

named_theorems byte_simps "lengths and decoding of serialised values"

subsection \<open>Loops that stop at the first failure\<close>

text \<open>A \<open>for\<close> loop over a container that updates a state and may throw.\<close>

fun fold_res :: "('a \<Rightarrow> 's \<Rightarrow> 's result) \<Rightarrow> 'a list \<Rightarrow> 's \<Rightarrow> 's result" where
  "fold_res f [] s = Inr s"
| "fold_res f (x # xs) s = (case f x s of Inl e \<Rightarrow> Inl e | Inr s' \<Rightarrow> fold_res f xs s')"

text \<open>A loop that computes one value per element and may throw.\<close>

fun map_res :: "('a \<Rightarrow> 'b result) \<Rightarrow> 'a list \<Rightarrow> 'b list result" where
  "map_res f [] = Inr []"
| "map_res f (x # xs) =
     (case f x of Inl e \<Rightarrow> Inl e
      | Inr y \<Rightarrow> (case map_res f xs of Inl e \<Rightarrow> Inl e | Inr ys \<Rightarrow> Inr (y # ys)))"

lemma map_sum_Inr_iff: "map_sum f g r = Inr y \<longleftrightarrow> (\<exists>x. r = Inr x \<and> y = g x)"
  by (cases r) auto

lemma fold_res_Cons_Inr:
  "fold_res f (x # xs) s = Inr s' \<longleftrightarrow> (\<exists>t. f x s = Inr t \<and> fold_res f xs t = Inr s')"
  by (auto split: sum.splits)

lemma fold_res_append:
  "fold_res f (xs @ ys) s =
     (case fold_res f xs s of Inl e \<Rightarrow> Inl e | Inr s' \<Rightarrow> fold_res f ys s')"
  by (induction xs arbitrary: s) (auto split: sum.splits)

lemma fold_res_invariant:
  assumes "fold_res f xs s = Inr s'" and "P s"
    and "\<And>x s s'. x \<in> set xs \<Longrightarrow> P s \<Longrightarrow> f x s = Inr s' \<Longrightarrow> P s'"
  shows "P s'"
  using assms
proof (induction xs arbitrary: s)
  case (Cons x xs)
  from Cons.prems(1) obtain t where "f x s = Inr t" "fold_res f xs t = Inr s'"
    by (auto split: sum.splits)
  with Cons.IH[of t] Cons.prems show ?case by auto
qed simp

lemma fold_res_total:
  assumes "\<And>x s. x \<in> set xs \<Longrightarrow> f x s = Inr (g x s)"
  shows "fold_res f xs s = Inr (fold g xs s)"
  using assms by (induction xs arbitrary: s) auto

lemma map_res_total: "(\<And>x. x \<in> set xs \<Longrightarrow> f x = Inr (g x)) \<Longrightarrow> map_res f xs = Inr (map g xs)"
  by (induction xs) auto

lemma map_res_Inr_iff:
  "map_res f xs = Inr ys \<longleftrightarrow> list_all2 (\<lambda>x y. f x = Inr y) xs ys"
proof (induction xs arbitrary: ys)
  case Nil
  then show ?case by auto
next
  case (Cons x xs)
  show ?case
    by (cases ys) (auto simp: Cons.IH [symmetric] split: sum.splits)
qed

lemma map_res_length: "map_res f xs = Inr ys \<Longrightarrow> length ys = length xs"
  by (simp add: map_res_Inr_iff list_all2_lengthD)

subsection \<open>Buffers\<close>

text \<open>
  \<open>copy_into src off dst\<close> is \<open>std::copy(src.begin(), src.end(), dst.begin() + off)\<close>: it
  overwrites in place and never grows the destination; a copy past its end is undefined.
\<close>

definition copy_into :: "'a list \<Rightarrow> nat \<Rightarrow> 'a list \<Rightarrow> 'a list result" where
  "copy_into src off dst =
     (if off + length src \<le> length dst
      then Inr (take off dst @ src @ drop (off + length src) dst)
      else Inl (Undefined ''copy past the end of the destination''))"

lemma copy_into_length: "copy_into src off dst = Inr r \<Longrightarrow> length r = length dst"
  by (auto simp: copy_into_def split: if_splits)

lemma copy_into_split:
  "length a = off \<Longrightarrow> length m = length src \<Longrightarrow> copy_into src off (a @ m @ b) = Inr (a @ src @ b)"
  by (simp add: copy_into_def)

text \<open>A size below the range of \<open>uint64_t\<close> survives the conversion.\<close>

lemma size_u64: "n < 2 ^ 64 \<Longrightarrow> unat (word_of_nat n :: u64) = n"
  by (simp add: unsigned_of_nat take_bit_nat_eq_self)

subsection \<open>Fixed-width encodings\<close>

text \<open>
  What the serialisers rely on: a fixed number of bytes per value, and a reader that gets the
  value back from the front of any buffer that starts with them and that overruns a shorter one.
\<close>

locale fixed_codec =
  fixes enc :: "'a \<Rightarrow> bytes" and dec :: "bytes \<Rightarrow> 'a result" and width :: nat
  assumes enc_length: "length (enc x) = width"
    and dec_enc: "dec (enc x @ rest) = Inr x"
    and dec_short: "length b < width \<Longrightarrow> \<exists>m. dec b = Inl (Undefined m)"
begin

lemma enc_inject: "enc x = enc y \<longleftrightarrow> x = y"
  by (metis dec_enc sum.inject(2))

text \<open>A value in front of a variable part, or behind one, can be told from it.\<close>

lemma enc_prefix_inject: "enc x @ xs = enc y @ ys \<longleftrightarrow> x = y \<and> xs = ys"
  using append_eq_append_conv [of "enc x" "enc y" xs ys] by (simp add: enc_length enc_inject)

lemma enc_suffix_inject: "xs @ enc x = ys @ enc y \<longleftrightarrow> xs = ys \<and> x = y"
  using append_eq_append_conv [of xs ys "enc x" "enc y"] by (auto simp: enc_length enc_inject)

lemma dec_enc_exact: "dec (enc x) = Inr x"
  using dec_enc [of x "[]"] by simp

lemma dec_suffix: "length xs + width = length (xs @ enc x) \<and> dec (drop (length xs) (xs @ enc x)) = Inr x"
  by (simp add: enc_length dec_enc_exact)

lemma dec_defined: "dec b = Inr x \<Longrightarrow> width \<le> length b"
  using dec_short [of b] by (cases "length b < width") auto

end

end
