(* ===== verification/Util.thy ===== *)
theory Util
  imports Prelude
begin

unbundle bit_operations_syntax

text \<open>
  \<^verbatim>\<open>src/src/util/util.cpp\<close>: the big-endian integer codecs, the map key of an output
  reference and the printed form of a peer address.

  A \<open>_to_vector\<close> function returns a fresh vector; a \<open>_to_uchar\<close> function writes through
  a pointer, here an offset in a buffer, and is undefined past its end; a \<open>chars_to_\<close>
  function reads through a pointer and is undefined when the buffer is too short.
\<close>

subsection \<open>32-bit signed integers\<close>

definition int32_to_vector_big_endian :: "i32 \<Rightarrow> bytes" where
  "int32_to_vector_big_endian num =
     [ucast (signed_drop_bit 24 num AND 0xff), ucast (signed_drop_bit 16 num AND 0xff),
      ucast (signed_drop_bit 8 num AND 0xff), ucast (num AND 0xff)]"

definition int32_to_uchar_big_endian :: "i32 \<Rightarrow> nat \<Rightarrow> bytes \<Rightarrow> bytes result" where
  "int32_to_uchar_big_endian num off res =
     (if off + 4 \<le> length res
      then Inr (res[off + 3 := ucast (num AND 0xff),
                    off + 2 := ucast (signed_drop_bit 8 num AND 0xff),
                    off + 1 := ucast (signed_drop_bit 16 num AND 0xff),
                    off := ucast (signed_drop_bit 24 num AND 0xff)])
      else Inl (Undefined ''write past the end of the buffer''))"

fun chars_to_int32_big_endian :: "bytes \<Rightarrow> i32 result" where
  "chars_to_int32_big_endian (b0 # b1 # b2 # b3 # _) =
     Inr (push_bit 24 (ucast b0) OR push_bit 16 (ucast b1) OR push_bit 8 (ucast b2) OR ucast b3)"
| "chars_to_int32_big_endian _ = Inl (Undefined ''read past the end of the buffer'')"

subsection \<open>32-bit unsigned integers\<close>

definition uint32_to_vector_big_endian :: "u32 \<Rightarrow> bytes" where
  "uint32_to_vector_big_endian num =
     [ucast (drop_bit 24 num AND 0xff), ucast (drop_bit 16 num AND 0xff),
      ucast (drop_bit 8 num AND 0xff), ucast (num AND 0xff)]"

definition uint32_to_uchar_big_endian :: "u32 \<Rightarrow> nat \<Rightarrow> bytes \<Rightarrow> bytes result" where
  "uint32_to_uchar_big_endian num off res =
     (if off + 4 \<le> length res
      then Inr (res[off + 3 := ucast (num AND 0xff),
                    off + 2 := ucast (drop_bit 8 num AND 0xff),
                    off + 1 := ucast (drop_bit 16 num AND 0xff),
                    off := ucast (drop_bit 24 num AND 0xff)])
      else Inl (Undefined ''write past the end of the buffer''))"

fun chars_to_uint32_big_endian :: "bytes \<Rightarrow> u32 result" where
  "chars_to_uint32_big_endian (b0 # b1 # b2 # b3 # _) =
     Inr (push_bit 24 (ucast b0) OR push_bit 16 (ucast b1) OR push_bit 8 (ucast b2) OR ucast b3)"
| "chars_to_uint32_big_endian _ = Inl (Undefined ''read past the end of the buffer'')"

subsection \<open>64-bit unsigned integers\<close>

definition uint64_to_vector_big_endian :: "u64 \<Rightarrow> bytes" where
  "uint64_to_vector_big_endian num =
     [ucast (drop_bit 56 num AND 0xff), ucast (drop_bit 48 num AND 0xff),
      ucast (drop_bit 40 num AND 0xff), ucast (drop_bit 32 num AND 0xff),
      ucast (drop_bit 24 num AND 0xff), ucast (drop_bit 16 num AND 0xff),
      ucast (drop_bit 8 num AND 0xff), ucast (num AND 0xff)]"

definition uint64_to_uchar_big_endian :: "u64 \<Rightarrow> nat \<Rightarrow> bytes \<Rightarrow> bytes result" where
  "uint64_to_uchar_big_endian num off res =
     (if off + 8 \<le> length res
      then Inr (res[off + 7 := ucast (num AND 0xff),
                    off + 6 := ucast (drop_bit 8 num AND 0xff),
                    off + 5 := ucast (drop_bit 16 num AND 0xff),
                    off + 4 := ucast (drop_bit 24 num AND 0xff),
                    off + 3 := ucast (drop_bit 32 num AND 0xff),
                    off + 2 := ucast (drop_bit 40 num AND 0xff),
                    off + 1 := ucast (drop_bit 48 num AND 0xff),
                    off := ucast (drop_bit 56 num AND 0xff)])
      else Inl (Undefined ''write past the end of the buffer''))"

fun chars_to_uint64_big_endian :: "bytes \<Rightarrow> u64 result" where
  "chars_to_uint64_big_endian (b0 # b1 # b2 # b3 # b4 # b5 # b6 # b7 # _) =
     Inr (push_bit 56 (ucast b0) OR push_bit 48 (ucast b1) OR push_bit 40 (ucast b2) OR
          push_bit 32 (ucast b3) OR push_bit 24 (ucast b4) OR push_bit 16 (ucast b5) OR
          push_bit 8 (ucast b6) OR ucast b7)"
| "chars_to_uint64_big_endian _ = Inl (Undefined ''read past the end of the buffer'')"

subsection \<open>Keys and addresses\<close>

text \<open>
  \<open>util::txid_vout_pair_to_key\<close> and \<open>MemChainstate::pair_to_key\<close> have the same body; the
  second is modelled where the chain state is.
\<close>

definition txid_vout_pair_to_key :: "bytes \<Rightarrow> u64 \<Rightarrow> bytes" where
  "txid_vout_pair_to_key txid vout = txid @ uint64_to_vector_big_endian vout"

text \<open>The decimal digits that an \<open>ostream\<close> prints for an \<open>int\<close>.\<close>

fun digits_of :: "nat \<Rightarrow> string" where
  "digits_of n = (if n < 10 then [char_of (48 + n)] else digits_of (n div 10) @ [char_of (48 + n mod 10)])"

declare digits_of.simps [simp del]

definition show_int :: "i32 \<Rightarrow> string" where
  "show_int n = (if sint n < 0 then CHR ''-'' # digits_of (nat (- sint n)) else digits_of (nat (sint n)))"

definition addr_and_port_to_str :: "string \<Rightarrow> i32 \<Rightarrow> string" where
  "addr_and_port_to_str addr port = addr @ '':'' @ show_int port"

subsection \<open>Bytes of a word and back\<close>

lemma low_byte32: "(ucast ((w :: 32 word) AND 0xff) :: byte) = ucast w"
proof -
  have "(0xff :: 32 word) = mask 8" by (simp add: mask_eq_exp_minus_1)
  then have "(ucast (w AND 0xff) :: byte) = ucast (w AND mask 8)" by (simp only:)
  also have "\<dots> = ucast w" by (rule bit_word_eqI) (simp add: bit_simps)
  finally show ?thesis .
qed

lemma low_byte64: "(ucast ((w :: 64 word) AND 0xff) :: byte) = ucast w"
proof -
  have "(0xff :: 64 word) = mask 8" by (simp add: mask_eq_exp_minus_1)
  then have "(ucast (w AND 0xff) :: byte) = ucast (w AND mask 8)" by (simp only:)
  also have "\<dots> = ucast w" by (rule bit_word_eqI) (simp add: bit_simps)
  finally show ?thesis .
qed

lemma bit_shifted_byte:
  "bit (push_bit k (ucast (ucast (drop_bit k (n :: 'a::len word)) :: byte) :: 'a word)) i
     \<longleftrightarrow> k \<le> i \<and> i < k + 8 \<and> bit n i"
  by (auto simp: bit_simps dest: bit_imp_le_length)

lemma bit_shifted_sbyte:
  "k + 8 \<le> LENGTH('a) \<Longrightarrow> bit (push_bit k (ucast (ucast (signed_drop_bit k (n :: 'a::len word)) :: byte) :: 'a word)) i
     \<longleftrightarrow> k \<le> i \<and> i < k + 8 \<and> bit n i"
  by (auto simp: bit_simps dest: bit_imp_le_length)

lemma bit_low_byte:
  "bit (ucast (ucast (n :: 'a::len word) :: byte) :: 'a word) i \<longleftrightarrow> i < 8 \<and> bit n i"
  by (auto simp: bit_simps dest: bit_imp_le_length)

lemma join32: "push_bit 24 (ucast (ucast (drop_bit 24 n) :: byte)) OR push_bit 16 (ucast (ucast (drop_bit 16 n) :: byte)) OR push_bit 8 (ucast (ucast (drop_bit 8 n) :: byte)) OR ucast (ucast n :: byte) = (n :: 32 word)" (is "?l = n")
proof (rule bit_word_eqI)
  fix i assume "i < LENGTH(32)"
  then have "i < 32" by simp
  then show "bit ?l i = bit n i"
    unfolding bit_or_iff bit_shifted_byte bit_low_byte by linarith
qed

lemma join32s: "push_bit 24 (ucast (ucast (signed_drop_bit 24 n) :: byte)) OR push_bit 16 (ucast (ucast (signed_drop_bit 16 n) :: byte)) OR push_bit 8 (ucast (ucast (signed_drop_bit 8 n) :: byte)) OR ucast (ucast n :: byte) = (n :: 32 word)" (is "?l = n")
proof (rule bit_word_eqI)
  fix i assume "i < LENGTH(32)"
  then have "i < 32" by simp
  then show "bit ?l i = bit n i"
    by (simp add: bit_or_iff bit_shifted_sbyte bit_low_byte) linarith
qed

lemma join64: "push_bit 56 (ucast (ucast (drop_bit 56 n) :: byte)) OR push_bit 48 (ucast (ucast (drop_bit 48 n) :: byte)) OR push_bit 40 (ucast (ucast (drop_bit 40 n) :: byte)) OR push_bit 32 (ucast (ucast (drop_bit 32 n) :: byte)) OR 
push_bit 24 (ucast (ucast (drop_bit 24 n) :: byte)) OR push_bit 16 (ucast (ucast (drop_bit 16 n) :: byte)) OR push_bit 8 (ucast (ucast (drop_bit 8 n) :: byte)) OR ucast (ucast n :: byte) = (n :: 64 word)" (is "?l = n")
proof (rule bit_word_eqI)
  fix i assume "i < LENGTH(64)"
  then have "i < 64" by simp
  then show "bit ?l i = bit n i"
    unfolding bit_or_iff bit_shifted_byte bit_low_byte by linarith
qed

subsection \<open>The codecs keep the contract of a fixed-width encoding\<close>

lemmas vector_defs =
  int32_to_vector_big_endian_def uint32_to_vector_big_endian_def uint64_to_vector_big_endian_def

interpretation int32: fixed_codec int32_to_vector_big_endian chars_to_int32_big_endian 4
proof
  show "length (int32_to_vector_big_endian x) = 4" for x
    by (simp add: vector_defs)
  show "chars_to_int32_big_endian (int32_to_vector_big_endian x @ rest) = Inr x" for x rest
    by (simp add: vector_defs low_byte32 join32s)
  show "\<exists>m. chars_to_int32_big_endian b = Inl (Undefined m)" if "length b < 4" for b
    using that by (induction b rule: chars_to_int32_big_endian.induct) auto
qed

interpretation uint32: fixed_codec uint32_to_vector_big_endian chars_to_uint32_big_endian 4
proof
  show "length (uint32_to_vector_big_endian x) = 4" for x
    by (simp add: vector_defs)
  show "chars_to_uint32_big_endian (uint32_to_vector_big_endian x @ rest) = Inr x" for x rest
    by (simp add: vector_defs low_byte32 join32)
  show "\<exists>m. chars_to_uint32_big_endian b = Inl (Undefined m)" if "length b < 4" for b
    using that by (induction b rule: chars_to_uint32_big_endian.induct) auto
qed

interpretation uint64: fixed_codec uint64_to_vector_big_endian chars_to_uint64_big_endian 8
proof
  show "length (uint64_to_vector_big_endian x) = 8" for x
    by (simp add: vector_defs)
  show "chars_to_uint64_big_endian (uint64_to_vector_big_endian x @ rest) = Inr x" for x rest
    by (simp add: vector_defs low_byte64 join64)
  show "\<exists>m. chars_to_uint64_big_endian b = Inl (Undefined m)" if "length b < 8" for b
    using that by (induction b rule: chars_to_uint64_big_endian.induct) auto
qed

lemmas codec_lengths [byte_simps, simp] = int32.enc_length uint32.enc_length uint64.enc_length

lemma split_off:
  assumes "off + n \<le> length xs"
  obtains p m q where "xs = p @ m @ q" "length p = off" "length m = n"
proof
  show "xs = take off xs @ take n (drop off xs) @ drop n (drop off xs)"
    by (metis append_take_drop_id)
qed (use assms in auto)

lemma update4:
  assumes "off + 4 \<le> length xs"
  shows "xs[off + 3 := d, off + 2 := c, off + 1 := b, off := a]
    = take off xs @ [a, b, c, d] @ drop (off + 4) xs"
proof -
  from assms obtain p m q where xs: "xs = p @ m @ q" "length p = off" "length m = 4"
    by (rule split_off)
  then show ?thesis by (auto simp: list_update_append numeral_eq_Suc length_Suc_conv)
qed

lemma update8:
  assumes "off + 8 \<le> length xs"
  shows "xs[off + 7 := h, off + 6 := g, off + 5 := f, off + 4 := e,
     off + 3 := d, off + 2 := c, off + 1 := b, off := a]
    = take off xs @ [a, b, c, d, e, f, g, h] @ drop (off + 8) xs"
proof -
  from assms obtain p m q where xs: "xs = p @ m @ q" "length p = off" "length m = 8"
    by (rule split_off)
  then show ?thesis by (auto simp: list_update_append numeral_eq_Suc length_Suc_conv)
qed

text \<open>Writing through a pointer puts the bytes of the vector form in place.\<close>

lemma int32_to_uchar_copies:
  assumes "off + 4 \<le> length buf"
  shows "int32_to_uchar_big_endian n off buf = copy_into (int32_to_vector_big_endian n) off buf"
  unfolding int32_to_uchar_big_endian_def update4 [OF assms]
  using assms by (simp add: copy_into_def int32_to_vector_big_endian_def numeral_eq_Suc)

lemma uint32_to_uchar_copies:
  assumes "off + 4 \<le> length buf"
  shows "uint32_to_uchar_big_endian n off buf = copy_into (uint32_to_vector_big_endian n) off buf"
  unfolding uint32_to_uchar_big_endian_def update4 [OF assms]
  using assms by (simp add: copy_into_def uint32_to_vector_big_endian_def numeral_eq_Suc)

lemma uint64_to_uchar_copies:
  assumes "off + 8 \<le> length buf"
  shows "uint64_to_uchar_big_endian n off buf = copy_into (uint64_to_vector_big_endian n) off buf"
  unfolding uint64_to_uchar_big_endian_def update8 [OF assms]
  using assms by (simp add: copy_into_def uint64_to_vector_big_endian_def numeral_eq_Suc)

lemma key_inject:
  "txid_vout_pair_to_key t v = txid_vout_pair_to_key t' v' \<longleftrightarrow> t = t' \<and> v = v'"
  by (simp add: txid_vout_pair_to_key_def uint64.enc_suffix_inject)

end
