(* ===== verification/Msg.thy ===== *)
theory Msg
  imports Util
begin

text \<open>
  \<^verbatim>\<open>src/incl/msg/message.hpp\<close>, \<^verbatim>\<open>src/src/msg/message.cpp\<close>: the frame header in front of
  every peer-to-peer message, four bytes of length and four bytes of message type.

  \<open>MessageType\<close> is an enum class over \<open>int\<close>, so a cast from a received integer may give a
  value that no enumerator names: \<open>Other_type\<close>.
\<close>

datatype message_type =
    Hello | GetAddr | Addr | Invalid | InvBlock | GetBlock | InfoBlock | InvTransaction
  | GetTransaction | InfoTransaction | InvComputation | GetComputation | InfoComputation
  | SyncBlock | SyncTransactions | ListTransactions | SyncComputations | ListComputations
  | Other_type i32

definition enumerators :: "message_type list" where
  "enumerators = [Hello, GetAddr, Addr, Invalid, InvBlock, GetBlock, InfoBlock, InvTransaction,
     GetTransaction, InfoTransaction, InvComputation, GetComputation, InfoComputation,
     SyncBlock, SyncTransactions, ListTransactions, SyncComputations, ListComputations]"

text \<open>\<open>static_cast<MessageType>(n)\<close> and \<open>static_cast<int>(mt)\<close>.\<close>

definition message_type_of_int :: "i32 \<Rightarrow> message_type" where
  "message_type_of_int n =
     (if unat n < length enumerators then enumerators ! unat n else Other_type n)"

fun int_of_message_type :: "message_type \<Rightarrow> i32" where
  "int_of_message_type Hello = 0"
| "int_of_message_type GetAddr = 1"
| "int_of_message_type Addr = 2"
| "int_of_message_type Invalid = 3"
| "int_of_message_type InvBlock = 4"
| "int_of_message_type GetBlock = 5"
| "int_of_message_type InfoBlock = 6"
| "int_of_message_type InvTransaction = 7"
| "int_of_message_type GetTransaction = 8"
| "int_of_message_type InfoTransaction = 9"
| "int_of_message_type InvComputation = 10"
| "int_of_message_type GetComputation = 11"
| "int_of_message_type InfoComputation = 12"
| "int_of_message_type SyncBlock = 13"
| "int_of_message_type SyncTransactions = 14"
| "int_of_message_type ListTransactions = 15"
| "int_of_message_type SyncComputations = 16"
| "int_of_message_type ListComputations = 17"
| "int_of_message_type (Other_type n) = n"

definition write_header :: "i32 \<Rightarrow> i32 \<Rightarrow> bytes \<Rightarrow> bytes result" where
  "write_header len msg_type vec =
     (if length vec < 8 then Inl (Invalid_argument ''Vec size for header not enough.'')
      else (case int32_to_uchar_big_endian len 0 vec of
              Inl e \<Rightarrow> Inl e
            | Inr vec' \<Rightarrow> int32_to_uchar_big_endian msg_type 4 vec'))"

definition parse_header :: "bytes \<Rightarrow> (i32 \<times> message_type) result" where
  "parse_header header =
     (case chars_to_int32_big_endian header of
        Inl e \<Rightarrow> Inl e
      | Inr len \<Rightarrow>
          (case chars_to_int32_big_endian (drop 4 header) of
             Inl e \<Rightarrow> Inl e
           | Inr mt \<Rightarrow> Inr (len, message_type_of_int mt)))"

subsection \<open>Lemmas\<close>

text \<open>The enumerators are numbered in declaration order, from 0.\<close>

lemma enumerators_numbers:
  "map int_of_message_type enumerators = map word_of_nat [0..<length enumerators]"
  by code_simp

lemma enumerators_numbered:
  "i < length enumerators \<Longrightarrow> int_of_message_type (enumerators ! i) = word_of_nat i"
  using arg_cong [OF enumerators_numbers, of "\<lambda>l. l ! i"] by simp

lemma message_type_of_int_inverse: "int_of_message_type (message_type_of_int n) = n"
  by (cases "unat n < length enumerators") (simp_all add: message_type_of_int_def enumerators_numbered)

lemma int_of_message_type_inverse:
  "mt \<in> set enumerators \<Longrightarrow> message_type_of_int (int_of_message_type mt) = mt"
  by (auto simp: enumerators_def message_type_of_int_def)

lemma write_header_layout:
  assumes "8 \<le> length vec"
  shows "write_header len mt vec =
    Inr (int32_to_vector_big_endian len @ int32_to_vector_big_endian mt @ drop 8 vec)"
proof -
  let ?v = "int32_to_vector_big_endian len @ drop 4 vec"
  have 1: "int32_to_uchar_big_endian len 0 vec = Inr ?v"
    using assms by (subst int32_to_uchar_copies) (simp_all add: copy_into_def)
  have "int32_to_uchar_big_endian mt 4 ?v
      = Inr (int32_to_vector_big_endian len @ int32_to_vector_big_endian mt @ drop 8 vec)"
    using assms by (subst int32_to_uchar_copies) (simp_all add: copy_into_def)
  with 1 assms show ?thesis by (simp add: write_header_def)
qed

text \<open>A header written in front of a frame is read back by the receiver, whatever the length
  and type fields hold, and the payload behind the eight header bytes is left alone.\<close>

theorem header_roundtrip:
  assumes "8 \<le> length vec"
  shows "\<exists>vec'. write_header len (int_of_message_type mt) vec = Inr vec'
    \<and> parse_header vec' = Inr (len, message_type_of_int (int_of_message_type mt))
    \<and> length vec' = length vec \<and> drop 8 vec' = drop 8 vec"
  using assms by (simp add: write_header_layout parse_header_def int32.dec_enc)

theorem header_roundtrip_witness:
  "\<exists>vec'. write_header 5 (int_of_message_type InfoBlock) (replicate 9 0) = Inr vec'
    \<and> parse_header vec' = Inr (5, message_type_of_int (int_of_message_type InfoBlock))
    \<and> length vec' = length (replicate 9 (0 :: byte)) \<and> drop 8 vec' = drop 8 (replicate 9 0)"
  by (rule header_roundtrip) simp

end
