(* ===== verification/Merkle.thy ===== *)
theory Merkle
  imports Prelude
begin

text \<open>
  \<^verbatim>\<open>src/src/core/merkle.cpp\<close>: the Merkle root of a list of hashes.

  \<open>gh\<close> stands for libsodium's \<open>crypto_generichash\<close> with a 32 byte output and no key; it is a
  parameter, and a claim that needs its output length says so. The recursion of
  \<open>compute_root\<close> does not end on an empty list, so the function is partial: \<open>None\<close> is a call
  that never returns.
\<close>

subsection \<open>One level\<close>

text \<open>The loop over the pairs of a level; the caller has made the number of entries even.\<close>

fun hash_pairs :: "(bytes \<Rightarrow> bytes) \<Rightarrow> bytes list \<Rightarrow> bytes list" where
  "hash_pairs gh (x # y # rest) = gh (x @ y) # hash_pairs gh rest"
| "hash_pairs gh _ = []"

definition next_level :: "(bytes \<Rightarrow> bytes) \<Rightarrow> bytes list \<Rightarrow> bytes list" where
  "next_level gh level_hashes =
     (let padded = (if odd (length level_hashes)
                    then level_hashes @ [level_hashes ! (length level_hashes - 1)]
                    else level_hashes)
      in hash_pairs gh padded)"

partial_function (option) compute_root :: "(bytes \<Rightarrow> bytes) \<Rightarrow> bytes list \<Rightarrow> bytes option" where
  "compute_root gh level_hashes =
     (if length level_hashes = 1 then Some (level_hashes ! 0)
      else compute_root gh (next_level gh level_hashes))"

subsection \<open>Lemmas\<close>

lemma hash_pairs_length: "length (hash_pairs gh xs) = length xs div 2"
  by (induction gh xs rule: hash_pairs.induct) auto

lemma next_level_length: "length (next_level gh xs) = (length xs + 1) div 2"
  by (simp add: next_level_def hash_pairs_length Let_def)

lemma next_level_shrinks:
  assumes "length xs \<noteq> 1" and "xs \<noteq> []"
  shows "length (next_level gh xs) < length xs" and "next_level gh xs \<noteq> []"
proof -
  from assms have "2 \<le> length xs" by (cases xs rule: remdups_adj.cases) auto
  then show "length (next_level gh xs) < length xs" by (simp add: next_level_length)
  from \<open>2 \<le> length xs\<close> have "0 < length (next_level gh xs)" by (simp add: next_level_length)
  then show "next_level gh xs \<noteq> []" by auto
qed

lemma next_level_outputs: "h \<in> set (next_level gh xs) \<Longrightarrow> \<exists>m. h = gh m"
proof -
  have "h \<in> set (hash_pairs gh ys) \<Longrightarrow> \<exists>m. h = gh m" for ys
    by (induction gh ys rule: hash_pairs.induct) auto
  then show "h \<in> set (next_level gh xs) \<Longrightarrow> \<exists>m. h = gh m"
    by (simp add: next_level_def Let_def split: if_splits)
qed

lemma compute_root_defined: "xs \<noteq> [] \<Longrightarrow> \<exists>r. compute_root gh xs = Some r"
proof (induction "length xs" arbitrary: xs rule: less_induct)
  case less
  show ?case
  proof (cases "length xs = 1")
    case True
    then show ?thesis by (subst compute_root.simps) simp
  next
    case False
    with less.prems less.hyps [OF next_level_shrinks(1)] next_level_shrinks(2)
    have "\<exists>r. compute_root gh (next_level gh xs) = Some r" by blast
    with False show ?thesis by (subst compute_root.simps) simp
  qed
qed

lemma compute_root_nonempty:
  assumes ret: "compute_root gh xs = Some r"
  shows "xs \<noteq> []"
proof (rule compute_root.raw_induct [where P = "\<lambda>gh xs r. xs \<noteq> []", OF _ ret])
  fix f gh and xs :: "bytes list" and r
  assume IH: "\<And>gh xs r. f gh xs = Some r \<Longrightarrow> xs \<noteq> []"
    and eq: "(if length xs = 1 then Some (xs ! 0) else f gh (next_level gh xs)) = Some r"
  show "xs \<noteq> []"
  proof
    assume "xs = []"
    with eq have "f gh [] = Some r" by (simp add: next_level_def)
    then show False using IH by blast
  qed
qed

text \<open>
  Two different levels of the same length with the same pair hashes exhibit two different
  messages with the same hash.
\<close>

definition collision :: "(bytes \<Rightarrow> bytes) \<Rightarrow> bool" where
  "collision gh \<longleftrightarrow> (\<exists>a b. a \<noteq> b \<and> gh a = gh b)"

lemma hash_pairs_collision:
  assumes "hash_pairs gh xs = hash_pairs gh ys" "length xs = length ys" "even (length xs)"
    and "\<forall>h \<in> set xs \<union> set ys. length h = n" and "xs \<noteq> ys"
  shows "collision gh"
  using assms
proof (induction xs arbitrary: ys rule: induct_list012)
  case (3 x y rest)
  then obtain x' y' rest' where ys: "ys = x' # y' # rest'"
    by (metis Suc_length_conv length_Cons)
  show ?case
  proof (cases "x = x' \<and> y = y'")
    case True
    with "3.IH"(1) [of rest'] "3.prems" ys show ?thesis by auto
  next
    case False
    with "3.prems"(4) ys have "x @ y \<noteq> x' @ y'" by auto
    with "3.prems"(1) ys show ?thesis by (auto simp: collision_def)
  qed
qed auto

lemma next_level_collision:
  assumes "next_level gh xs = next_level gh ys" "length xs = length ys"
    and "\<forall>h \<in> set xs \<union> set ys. length h = n" and "xs \<noteq> ys" and "xs \<noteq> []"
  shows "collision gh"
proof (cases "odd (length xs)")
  case True
  let ?xs = "xs @ [xs ! (length xs - 1)]" and ?ys = "ys @ [ys ! (length ys - 1)]"
  from True assms have "hash_pairs gh ?xs = hash_pairs gh ?ys" by (simp add: next_level_def)
  moreover from assms(2,5) have "0 < length xs" "0 < length ys" by (metis length_greater_0_conv)+
  then have "xs ! (length xs - 1) \<in> set xs" "ys ! (length ys - 1) \<in> set ys" by simp_all
  with assms(3) have "\<forall>h \<in> set ?xs \<union> set ?ys. length h = n" by auto
  ultimately show ?thesis
    using hash_pairs_collision [of gh ?xs ?ys n] True assms(2,4) by auto
next
  case False
  with assms hash_pairs_collision [of gh xs ys n] show ?thesis
    by (simp add: next_level_def)
qed

lemma root_binding:
  assumes "length xs = length ys" and "\<forall>h \<in> set xs \<union> set ys. length h = 32"
    and "\<forall>m. length (gh m) = 32"
    and "compute_root gh xs = Some r" and "compute_root gh ys = Some r" and "xs \<noteq> ys"
  shows "\<exists>a b. a \<noteq> b \<and> gh a = gh b"
  using assms
proof (induction "length xs" arbitrary: xs ys rule: less_induct)
  case less
  show ?case
  proof (cases "length xs = 1")
    case True
    with less.prems have "xs ! 0 = ys ! 0"
      by (simp add: compute_root.simps [of gh xs] compute_root.simps [of gh ys])
    with True less.prems(1,6) show ?thesis by (auto simp: length_Suc_conv)
  next
    case False
    let ?x = "next_level gh xs" and ?y = "next_level gh ys"
    have ne: "xs \<noteq> []" by (rule compute_root_nonempty) (rule less.prems(4))
    have "compute_root gh ?x = Some r" "compute_root gh ?y = Some r"
      using False less.prems by (simp_all add: compute_root.simps [of gh xs] compute_root.simps [of gh ys])
    moreover have "\<forall>h \<in> set ?x \<union> set ?y. length h = 32"
      using less.prems(3) next_level_outputs by (metis Un_iff)
    moreover have "length ?x = length ?y" using less.prems(1) by (simp add: next_level_length)
    ultimately have "?x \<noteq> ?y \<Longrightarrow> ?thesis"
      using less.hyps [OF next_level_shrinks(1) [OF False ne]] less.prems(3) by blast
    moreover have "?x = ?y \<Longrightarrow> ?thesis"
      using next_level_collision less.prems(1,2,6) ne unfolding collision_def by blast
    ultimately show ?thesis by blast
  qed
qed

subsection \<open>Properties\<close>

text \<open>C38. \<open>compute_root\<close> returns exactly on the non-empty lists: every caller that passes at
  least the coinbase hash gets a root, and an empty list would recurse for ever.\<close>

theorem compute_root_returns_iff: "(\<exists>r. compute_root gh hs = Some r) \<longleftrightarrow> hs \<noteq> []"
  using compute_root_defined compute_root_nonempty by blast



text \<open>Lists of different length are not told apart: an odd level is padded with a copy of its
  last entry, so a list of odd length above one and the same list with its last hash repeated have
  the same root.\<close>

theorem merkle_root_duplicate_last:
  assumes "odd (length hs)" and "length hs \<noteq> 1"
  shows "compute_root gh (hs @ [last hs]) = compute_root gh hs"
proof -
  from assms(1) have ne: "hs \<noteq> []" by auto
  then have "last hs = hs ! (length hs - 1)" by (rule last_conv_nth)
  then have "next_level gh (hs @ [last hs]) = next_level gh hs"
    using assms(1) by (simp add: next_level_def)
  with assms(2) ne show ?thesis
    by (simp add: compute_root.simps [of gh hs] compute_root.simps [of gh "hs @ [last hs]"])
qed

theorem merkle_root_duplicate_last_witness:
  "compute_root id ([[1], [2], [3]] @ [last [[1], [2], [3]]]) = compute_root id [[1], [2], [3 :: byte]]"
  by (rule merkle_root_duplicate_last) simp_all

end
