(* ===== verification/TxInput.thy ===== *)
theory TxInput
  imports Util
begin

text \<open>
  \<^verbatim>\<open>src/src/core/transaction_input.cpp\<close>, \<^verbatim>\<open>src/src/core/transaction_output.cpp\<close> and the two
  messages of \<^verbatim>\<open>src/proto/message.proto\<close> that carry them.

  The sizes of libsodium's Ed25519 keys and signatures and of its generic hash are constants of
  its interface.  A pointer argument is the list of bytes readable behind it; a read past that
  list is undefined.
\<close>

definition crypto_sign_BYTES :: nat where "crypto_sign_BYTES = 64"
definition crypto_sign_PUBLICKEYBYTES :: nat where "crypto_sign_PUBLICKEYBYTES = 32"
definition crypto_generichash_BYTES :: nat where "crypto_generichash_BYTES = 32"

lemmas sodium_sizes = crypto_sign_BYTES_def crypto_sign_PUBLICKEYBYTES_def crypto_generichash_BYTES_def

subsection \<open>TransactionInput\<close>

record tx_input =
  in_TXID :: bytes
  in_vout :: u64
  in_sig :: bytes
  in_signed :: bool
  in_amount :: u64
  in_sig_size :: u32

text \<open>The two constructors.\<close>

definition TransactionInput :: "bytes \<Rightarrow> u64 \<Rightarrow> tx_input" where
  "TransactionInput TXID vout =
     \<lparr>in_TXID = TXID, in_vout = vout, in_sig = [], in_signed = False, in_amount = 0,
      in_sig_size = word_of_nat crypto_sign_BYTES\<rparr>"

definition TransactionInput_with_amount :: "bytes \<Rightarrow> u64 \<Rightarrow> u64 \<Rightarrow> tx_input" where
  "TransactionInput_with_amount TXID vout provided_amount =
     \<lparr>in_TXID = TXID, in_vout = vout, in_sig = [], in_signed = False, in_amount = provided_amount,
      in_sig_size = word_of_nat crypto_sign_BYTES\<rparr>"

definition set_signature :: "bytes \<Rightarrow> bool \<Rightarrow> tx_input \<Rightarrow> tx_input result" where
  "set_signature sig is_temp inp =
     (let n = unat (in_sig_size inp)
      in if length sig < n then Inl (Undefined ''signature buffer too short'')
         else Inr (let inp' = inp\<lparr>in_sig := take n sig\<rparr>
                   in if is_temp then inp' else inp'\<lparr>in_signed := True\<rparr>))"

definition set_temp_sig_size :: "u32 \<Rightarrow> tx_input \<Rightarrow> tx_input" where
  "set_temp_sig_size temp_size inp = inp\<lparr>in_sig_size := temp_size\<rparr>"

definition revert_sig_size :: "tx_input \<Rightarrow> tx_input" where
  "revert_sig_size inp = inp\<lparr>in_sig_size := word_of_nat crypto_sign_BYTES\<rparr>"

definition clear_signature :: "tx_input \<Rightarrow> tx_input" where
  "clear_signature inp = inp\<lparr>in_sig := [], in_signed := False\<rparr>"

definition set_amount :: "u64 \<Rightarrow> tx_input \<Rightarrow> tx_input" where
  "set_amount am inp = inp\<lparr>in_amount := am\<rparr>"

text \<open>
  \<open>serialize\<close> fills an absent signature with zeros in the object itself, so it returns the
  changed input next to the bytes.  The buffer size is computed in 32 bits.
\<close>

definition input_serialize :: "tx_input \<Rightarrow> (bytes \<times> tx_input) result" where
  "input_serialize inp =
     (let res0 = replicate (unat (32 + 8 + 4 + in_sig_size inp)) 0
      in case copy_into (in_TXID inp) 0 res0 of Inl e \<Rightarrow> Inl e
      | Inr res1 \<Rightarrow>
      (case uint64_to_uchar_big_endian (in_vout inp) 32 res1 of Inl e \<Rightarrow> Inl e
      | Inr res2 \<Rightarrow>
      (case uint32_to_uchar_big_endian (in_sig_size inp) 40 res2 of Inl e \<Rightarrow> Inl e
      | Inr res3 \<Rightarrow>
      (let inp' = (if length (in_sig inp) = 0
                   then inp\<lparr>in_sig := replicate (unat (in_sig_size inp)) 0\<rparr> else inp)
       in case copy_into (in_sig inp') 44 res3 of Inl e \<Rightarrow> Inl e
       | Inr res4 \<Rightarrow> Inr (res4, inp')))))"

record proto_tx_input =
  pi_TXID :: bytes
  pi_vout :: u64
  pi_sig :: bytes

definition input_to_proto :: "tx_input \<Rightarrow> proto_tx_input" where
  "input_to_proto inp = \<lparr>pi_TXID = in_TXID inp, pi_vout = in_vout inp, pi_sig = in_sig inp\<rparr>"

text \<open>The pointer \<open>c_str()\<close> gives the bytes of the string and one terminating zero.\<close>

definition input_from_proto :: "proto_tx_input \<Rightarrow> bool \<Rightarrow> tx_input result" where
  "input_from_proto p is_for_coinbase =
     (let res = TransactionInput (pi_TXID p) (pi_vout p)
      in if pi_sig p \<noteq> []
         then set_signature (pi_sig p @ [0]) False
                (if is_for_coinbase then set_temp_sig_size 4 res else res)
         else Inr res)"

subsection \<open>TransactionOutput\<close>

record tx_output =
  out_amount :: u64
  out_public_key :: bytes
  out_hash_cache :: "bytes option"

definition TransactionOutput :: "u64 \<Rightarrow> bytes \<Rightarrow> tx_output result" where
  "TransactionOutput amount pubkey =
     (if length pubkey < crypto_sign_PUBLICKEYBYTES
      then Inl (Undefined ''public key buffer too short'')
      else Inr \<lparr>out_amount = amount, out_public_key = take crypto_sign_PUBLICKEYBYTES pubkey,
                out_hash_cache = None\<rparr>)"

definition output_serialize :: "tx_output \<Rightarrow> bytes result" where
  "output_serialize outp =
     (let res0 = replicate (8 + length (out_public_key outp)) 0
      in case uint64_to_uchar_big_endian (out_amount outp) 0 res0 of Inl e \<Rightarrow> Inl e
      | Inr res1 \<Rightarrow> copy_into (out_public_key outp) 8 res1)"

definition output_hash :: "(bytes \<Rightarrow> bytes) \<Rightarrow> bool \<Rightarrow> tx_output \<Rightarrow> (bytes \<times> tx_output) result" where
  "output_hash gh force outp =
     (case (if force then None else out_hash_cache outp) of
        Some h \<Rightarrow> Inr (h, outp)
      | None \<Rightarrow> (case output_serialize outp of Inl e \<Rightarrow> Inl e
                 | Inr ser \<Rightarrow> Inr (gh ser, outp\<lparr>out_hash_cache := Some (gh ser)\<rparr>)))"

record proto_tx_output =
  po_amount :: u64
  po_public_key :: bytes

definition output_to_proto :: "tx_output \<Rightarrow> proto_tx_output" where
  "output_to_proto outp = \<lparr>po_amount = out_amount outp, po_public_key = out_public_key outp\<rparr>"

definition output_from_proto :: "proto_tx_output \<Rightarrow> tx_output result" where
  "output_from_proto p = TransactionOutput (po_amount p) (po_public_key p @ [0])"

subsection \<open>Layout of a serialised input\<close>

text \<open>The signature field as \<open>serialize\<close> emits it.\<close>

definition sig_field :: "tx_input \<Rightarrow> bytes" where
  "sig_field inp = (if in_sig inp = [] then replicate (unat (in_sig_size inp)) 0 else in_sig inp)"

text \<open>
  An input whose serialisation is well-formed: a 32 byte transaction id and a signature that is
  either absent or as long as its declared size.
\<close>

definition wf_input :: "tx_input \<Rightarrow> bool" where
  "wf_input inp \<longleftrightarrow> length (in_TXID inp) = 32 \<and> unat (in_sig_size inp) \<le> 64 \<and>
     (in_sig inp = [] \<or> length (in_sig inp) = unat (in_sig_size inp))"

definition input_layout :: "tx_input \<Rightarrow> bytes" where
  "input_layout inp = in_TXID inp @ uint64_to_vector_big_endian (in_vout inp) @
     uint32_to_vector_big_endian (in_sig_size inp) @ sig_field inp"

lemma sig_field_length: "wf_input inp \<Longrightarrow> length (sig_field inp) = unat (in_sig_size inp)"
  by (auto simp: wf_input_def sig_field_def)

lemma buffer_size: "unat (n :: u32) \<le> 64 \<Longrightarrow> unat (32 + 8 + 4 + n) = 44 + unat n"
  by (simp add: unat_word_ariths)

lemma input_serialize_layout:
  assumes "wf_input inp"
  shows "input_serialize inp = Inr (input_layout inp, inp\<lparr>in_sig := sig_field inp\<rparr>)"
proof -
  let ?n = "unat (in_sig_size inp)" and ?v = "uint64_to_vector_big_endian (in_vout inp)"
    and ?s = "uint32_to_vector_big_endian (in_sig_size inp)" and ?z = "\<lambda>k. replicate k (0 :: byte)"
  from assms have len: "length (in_TXID inp) = 32" "?n \<le> 64" by (simp_all add: wf_input_def)
  have 1: "copy_into (in_TXID inp) 0 (?z (44 + ?n)) = Inr (in_TXID inp @ ?z (12 + ?n))"
    using len by (simp add: copy_into_def)
  have 2: "uint64_to_uchar_big_endian (in_vout inp) 32 (in_TXID inp @ ?z (12 + ?n))
      = Inr (in_TXID inp @ ?v @ ?z (4 + ?n))"
    using len by (subst uint64_to_uchar_copies) (simp_all add: copy_into_def)
  have 3: "uint32_to_uchar_big_endian (in_sig_size inp) 40 (in_TXID inp @ ?v @ ?z (4 + ?n))
      = Inr (in_TXID inp @ ?v @ ?s @ ?z ?n)"
    using len by (subst uint32_to_uchar_copies) (simp_all add: copy_into_def)
  have 4: "copy_into (sig_field inp) 44 (in_TXID inp @ ?v @ ?s @ ?z ?n) = Inr (input_layout inp)"
    using len sig_field_length [OF assms] by (simp add: copy_into_def input_layout_def)
  show ?thesis
    using 1 2 3 4 buffer_size [OF len(2)]
    by (auto simp: input_serialize_def Let_def sig_field_def)
qed

text \<open>The layout of one input can be told from whatever follows it.\<close>

lemma input_layout_inject:
  assumes "wf_input a" and "wf_input b" and "input_layout a @ xs = input_layout b @ ys"
  shows "in_TXID a = in_TXID b \<and> in_vout a = in_vout b \<and> in_sig_size a = in_sig_size b
    \<and> sig_field a = sig_field b \<and> xs = ys"
proof -
  from assms have "in_TXID a = in_TXID b" "in_vout a = in_vout b"
    and eq: "in_sig_size a = in_sig_size b" "sig_field a @ xs = sig_field b @ ys"
    by (auto simp: wf_input_def input_layout_def append_eq_append_conv
        uint64.enc_prefix_inject uint32.enc_prefix_inject)
  moreover from eq sig_field_length [OF assms(1)] sig_field_length [OF assms(2)]
  have "sig_field a = sig_field b" "xs = ys" by (simp_all add: append_eq_append_conv)
  ultimately show ?thesis by blast
qed

subsection \<open>Layout of a serialised output\<close>

definition wf_output :: "tx_output \<Rightarrow> bool" where
  "wf_output outp \<longleftrightarrow> length (out_public_key outp) = 32"

definition output_layout :: "tx_output \<Rightarrow> bytes" where
  "output_layout outp = uint64_to_vector_big_endian (out_amount outp) @ out_public_key outp"

lemma output_serialize_layout: "output_serialize outp = Inr (output_layout outp)"
  by (simp add: output_serialize_def uint64_to_uchar_copies copy_into_def output_layout_def)

lemma output_layout_inject:
  assumes "wf_output a" and "wf_output b" and "output_layout a @ xs = output_layout b @ ys"
  shows "out_amount a = out_amount b \<and> out_public_key a = out_public_key b \<and> xs = ys"
  using assms
  by (auto simp: wf_output_def output_layout_def uint64.enc_prefix_inject append_eq_append_conv)

text \<open>Amount and key never change after construction, so a cached hash is the hash of the bytes.\<close>

definition hash_coherent :: "(bytes \<Rightarrow> bytes) \<Rightarrow> tx_output \<Rightarrow> bool" where
  "hash_coherent gh outp \<longleftrightarrow>
     (case out_hash_cache outp of None \<Rightarrow> True | Some h \<Rightarrow> h = gh (output_layout outp))"

lemma output_hash_value:
  assumes "hash_coherent gh outp"
  shows "\<exists>outp'. output_hash gh force outp = Inr (gh (output_layout outp), outp')
    \<and> hash_coherent gh outp' \<and> output_layout outp' = output_layout outp"
  using assms
  by (cases "out_hash_cache outp"; cases force)
     (auto simp: output_hash_def output_serialize_layout hash_coherent_def output_layout_def)

lemma TransactionOutput_wf: "TransactionOutput am pk = Inr outp \<Longrightarrow> wf_output outp"
  by (auto simp: TransactionOutput_def wf_output_def sodium_sizes split: if_splits)

lemma TransactionOutput_coherent: "TransactionOutput am pk = Inr outp \<Longrightarrow> hash_coherent gh outp"
  by (auto simp: TransactionOutput_def hash_coherent_def split: if_splits)

end
