(* ===== verification/Transaction.thy ===== *)
theory Transaction
  imports TxInput
begin

text \<open>
  \<^verbatim>\<open>src/src/core/transaction.cpp\<close> and \<^verbatim>\<open>src/src/core/coinbase_transaction.cpp\<close>.

  The crypto primitives are parameters: \<open>gh\<close> the generic hash, \<open>sign_det msg sk\<close> the detached
  Ed25519 signature, \<open>verify sig msg pk\<close> its check.  The inputs of a transaction are distinct
  objects, held by value in the model; a method that changes one returns the new transaction.
  The memoised transaction id (\<open>has_txid_\<close> and \<open>TXID_\<close>) is one \<open>option\<close>.
\<close>

record tx =
  tx_inputs :: "tx_input list"
  tx_outputs :: "tx_output list"
  tx_id_cache :: "bytes option"

type_synonym hash_fun = "bytes \<Rightarrow> bytes"
type_synonym sign_fun = "bytes \<Rightarrow> bytes \<Rightarrow> bytes"
type_synonym verify_fun = "bytes \<Rightarrow> bytes \<Rightarrow> bytes \<Rightarrow> bool"

subsection \<open>Serialisation and transaction id\<close>

fun serialize_inputs :: "tx_input list \<Rightarrow> (bytes \<times> tx_input list) result" where
  "serialize_inputs [] = Inr ([], [])"
| "serialize_inputs (inp # inps) =
     (case input_serialize inp of Inl e \<Rightarrow> Inl e
      | Inr (b, inp') \<Rightarrow>
          (case serialize_inputs inps of Inl e \<Rightarrow> Inl e
           | Inr (bs, inps') \<Rightarrow> Inr (b @ bs, inp' # inps')))"

definition tx_serialize :: "tx \<Rightarrow> (bytes \<times> tx) result" where
  "tx_serialize t =
     (case serialize_inputs (tx_inputs t) of Inl e \<Rightarrow> Inl e
      | Inr (inbytes, inps) \<Rightarrow>
          (case map_res output_serialize (tx_outputs t) of Inl e \<Rightarrow> Inl e
           | Inr outbytes \<Rightarrow>
               Inr (uint64_to_vector_big_endian (word_of_nat (length (tx_inputs t))) @ inbytes @
                    uint64_to_vector_big_endian (word_of_nat (length (tx_outputs t))) @
                    concat outbytes,
                    t\<lparr>tx_inputs := inps\<rparr>)))"

definition compute_txid :: "hash_fun \<Rightarrow> tx \<Rightarrow> tx result" where
  "compute_txid gh t =
     (case tx_serialize t of Inl e \<Rightarrow> Inl e
      | Inr (ser, t') \<Rightarrow> Inr (t'\<lparr>tx_id_cache := Some (gh ser)\<rparr>))"

definition TXID :: "hash_fun \<Rightarrow> tx \<Rightarrow> (bytes \<times> tx) result" where
  "TXID gh t =
     (if \<not> list_all in_signed (tx_inputs t)
      then Inl (Invalid_argument ''Cannot compute TXID with unsigned inputs.'')
      else case tx_id_cache t of
             Some h \<Rightarrow> Inr (h, t)
           | None \<Rightarrow> (case compute_txid gh t of Inl e \<Rightarrow> Inl e
                      | Inr t' \<Rightarrow> Inr (the (tx_id_cache t'), t')))"

definition add_input :: "tx_input \<Rightarrow> tx \<Rightarrow> tx" where
  "add_input new_input t = t\<lparr>tx_inputs := tx_inputs t @ [new_input]\<rparr>"

definition add_output :: "tx_output \<Rightarrow> tx \<Rightarrow> tx" where
  "add_output new_output t = t\<lparr>tx_outputs := tx_outputs t @ [new_output]\<rparr>"

text \<open>\<open>operator==\<close> compares the ids and may compute both.\<close>

definition tx_equals :: "hash_fun \<Rightarrow> tx \<Rightarrow> tx \<Rightarrow> (bool \<times> tx \<times> tx) result" where
  "tx_equals gh t other =
     (case TXID gh t of Inl e \<Rightarrow> Inl e
      | Inr (a, t') \<Rightarrow> (case TXID gh other of Inl e \<Rightarrow> Inl e
                        | Inr (b, other') \<Rightarrow> Inr (a = b, t', other')))"

subsection \<open>Constructors\<close>

text \<open>The constructor from parts computes the id and swallows an exception of the attempt.\<close>

definition Transaction :: "hash_fun \<Rightarrow> tx_input list \<Rightarrow> tx_output list \<Rightarrow> tx result" where
  "Transaction gh inputs outputs =
     (let t = \<lparr>tx_inputs = inputs, tx_outputs = outputs, tx_id_cache = None\<rparr>
      in case TXID gh t of
           Inr (_, t') \<Rightarrow> Inr t'
         | Inl e \<Rightarrow> (if is_exception e then Inr t else Inl e))"

text \<open>The constructor of a payment with change; all sums are 64-bit.\<close>

definition Transaction_spend :: "tx_input list \<Rightarrow> bytes \<Rightarrow> bytes \<Rightarrow> u64 \<Rightarrow> u64 \<Rightarrow> tx result" where
  "Transaction_spend inputs self_pubkey rec_pubkey amount fee =
     (let total = sum_list (map in_amount inputs);
          t = \<lparr>tx_inputs = inputs, tx_outputs = [], tx_id_cache = None\<rparr>
      in if total < amount + fee then Inl (Logic_error ''Insufficient inputs provided.'')
         else case TransactionOutput amount rec_pubkey of Inl e \<Rightarrow> Inl e
         | Inr main_output \<Rightarrow>
             (let t1 = add_output main_output t
              in if amount + fee < total
                 then (case TransactionOutput (total - amount - fee) self_pubkey of Inl e \<Rightarrow> Inl e
                       | Inr change_output \<Rightarrow> Inr (add_output change_output t1))
                 else Inr t1))"

text \<open>
  The coinbase constructor: one input with an all-zero id and the largest output index, whose
  signature field holds the block height, and one output.
\<close>

definition CoinbaseTransaction :: "bytes \<Rightarrow> u64 \<Rightarrow> u32 \<Rightarrow> tx result" where
  "CoinbaseTransaction pubkey amount height =
     (let new_input = set_temp_sig_size 4
                        (TransactionInput (replicate crypto_generichash_BYTES 0) (- 1))
      in case set_signature (uint32_to_vector_big_endian height) False new_input of Inl e \<Rightarrow> Inl e
      | Inr inp \<Rightarrow>
          (case TransactionOutput amount pubkey of Inl e \<Rightarrow> Inl e
           | Inr outp \<Rightarrow> Inr (add_output outp (add_input inp
                 \<lparr>tx_inputs = [], tx_outputs = [], tx_id_cache = None\<rparr>))))"

subsection \<open>Signing and validation\<close>

text \<open>
  The body that \<open>sign\<close> and \<open>validate_transaction\<close> share: put the public key into the signature
  field of input \<open>i\<close>, serialise the whole transaction, clear the field again.
\<close>

definition signing_bytes :: "bytes \<Rightarrow> nat \<Rightarrow> tx \<Rightarrow> (bytes \<times> tx) result" where
  "signing_bytes pubkey i t =
     (case set_signature pubkey True
             (set_temp_sig_size (word_of_nat crypto_sign_PUBLICKEYBYTES) (tx_inputs t ! i)) of
        Inl e \<Rightarrow> Inl e
      | Inr inp \<Rightarrow>
          (case tx_serialize (t\<lparr>tx_inputs := (tx_inputs t)[i := inp]\<rparr>) of Inl e \<Rightarrow> Inl e
           | Inr (ser, t') \<Rightarrow>
               Inr (ser, t'\<lparr>tx_inputs :=
                     (tx_inputs t')[i := clear_signature (revert_sig_size (tx_inputs t' ! i))]\<rparr>)))"

definition sign_step :: "sign_fun \<Rightarrow> bytes \<Rightarrow> bytes \<Rightarrow> nat \<Rightarrow> tx \<times> bytes list \<Rightarrow> (tx \<times> bytes list) result" where
  "sign_step sign_det self_pubkey privkey i = (\<lambda>(t, sigs).
     (case signing_bytes self_pubkey i t of Inl e \<Rightarrow> Inl e
      | Inr (ser, t') \<Rightarrow> Inr (t', sigs @ [sign_det ser privkey])))"

definition store_signature :: "bytes list \<Rightarrow> nat \<Rightarrow> tx \<Rightarrow> tx result" where
  "store_signature sigs i t =
     (case set_signature (sigs ! i) False (tx_inputs t ! i) of Inl e \<Rightarrow> Inl e
      | Inr inp \<Rightarrow> Inr (t\<lparr>tx_inputs := (tx_inputs t)[i := inp]\<rparr>))"

definition sign :: "sign_fun \<Rightarrow> bytes \<Rightarrow> bytes \<Rightarrow> tx \<Rightarrow> tx result" where
  "sign sign_det self_pubkey privkey t =
     (if list_ex in_signed (tx_inputs t)
      then Inl (Invalid_argument ''Cannot sign already signed inputs.'')
      else let idxs = [0..<length (tx_inputs t)]
           in case fold_res (sign_step sign_det self_pubkey privkey) idxs (t, []) of Inl e \<Rightarrow> Inl e
           | Inr (t', sigs) \<Rightarrow> fold_res (store_signature sigs) idxs t')"

definition in_total :: "tx \<Rightarrow> u64" where
  "in_total t = sum_list (map in_amount (tx_inputs t))"

definition out_total :: "tx \<Rightarrow> u64" where
  "out_total t = sum_list (map out_amount (tx_outputs t))"

definition fee :: "tx \<Rightarrow> u64 result" where
  "fee t = (if in_total t < out_total t
            then Inl (Invalid_argument ''Insufficient inputs provided.'')
            else Inr (in_total t - out_total t))"

fun verify_inputs :: "verify_fun \<Rightarrow> tx \<Rightarrow> bytes list \<Rightarrow> nat list \<Rightarrow> tx \<Rightarrow> bool result" where
  "verify_inputs verify t pubkeys [] copy_tx = Inr True"
| "verify_inputs verify t pubkeys (idx # idxs) copy_tx =
     (if length pubkeys \<le> idx then Inl (Undefined ''no public key for input'')
      else case signing_bytes (pubkeys ! idx) idx copy_tx of Inl e \<Rightarrow> Inl e
      | Inr (ser, copy_tx') \<Rightarrow>
          (let s = in_sig (tx_inputs t ! idx)
           in if length s < crypto_sign_BYTES then Inl (Undefined ''signature buffer too short'')
              else if \<not> verify (take crypto_sign_BYTES s) ser (take crypto_sign_PUBLICKEYBYTES (pubkeys ! idx))
              then Inr False
              else verify_inputs verify t pubkeys idxs copy_tx'))"

definition validate_transaction :: "verify_fun \<Rightarrow> bytes list \<Rightarrow> tx \<Rightarrow> bool result" where
  "validate_transaction verify pubkeys t =
     (if \<not> list_all in_signed (tx_inputs t) then Inr False
      else if in_total t < out_total t then Inr False
      else verify_inputs verify t pubkeys [0..<length (tx_inputs t)]
             (t\<lparr>tx_inputs := map (clear_signature \<circ> revert_sig_size) (tx_inputs t)\<rparr>))"

subsection \<open>Messages\<close>

record proto_tx =
  pt_inputs :: "proto_tx_input list"
  pt_outputs :: "proto_tx_output list"

definition tx_to_proto :: "tx \<Rightarrow> proto_tx" where
  "tx_to_proto t = \<lparr>pt_inputs = map input_to_proto (tx_inputs t),
                    pt_outputs = map output_to_proto (tx_outputs t)\<rparr>"

definition tx_from_proto :: "hash_fun \<Rightarrow> proto_tx \<Rightarrow> bool \<Rightarrow> tx result" where
  "tx_from_proto gh p is_coinbase =
     (case map_res (\<lambda>i. input_from_proto i is_coinbase) (pt_inputs p) of Inl e \<Rightarrow> Inl e
      | Inr inputs \<Rightarrow>
          (case map_res output_from_proto (pt_outputs p) of Inl e \<Rightarrow> Inl e
           | Inr outputs \<Rightarrow> Transaction gh inputs outputs))"

end
