(* ===== verification/TxCorrect.thy ===== *)
theory TxCorrect
  imports Transaction
begin

text \<open>
  Correctness of the transactions of theory Transaction: the layout of a serialised
  transaction, what \<open>validate_transaction\<close> decides, that a transaction signed by \<open>sign\<close> passes
  it, and what the id commits to.
\<close>

subsection \<open>Layout of a serialised transaction\<close>

definition tx_layout :: "tx \<Rightarrow> bytes" where
  "tx_layout t = uint64_to_vector_big_endian (word_of_nat (length (tx_inputs t))) @
     concat (map input_layout (tx_inputs t)) @
     uint64_to_vector_big_endian (word_of_nat (length (tx_outputs t))) @
     concat (map output_layout (tx_outputs t))"

definition filled :: "tx_input \<Rightarrow> tx_input" where
  "filled inp = inp\<lparr>in_sig := sig_field inp\<rparr>"

lemma serialize_inputs_layout:
  "list_all wf_input inps \<Longrightarrow>
   serialize_inputs inps = Inr (concat (map input_layout inps), map filled inps)"
  by (induction inps) (auto simp: input_serialize_layout filled_def)

lemma tx_serialize_layout:
  assumes "list_all wf_input (tx_inputs t)"
  shows "tx_serialize t = Inr (tx_layout t, t\<lparr>tx_inputs := map filled (tx_inputs t)\<rparr>)"
proof -
  have "map_res output_serialize (tx_outputs t) = Inr (map output_layout (tx_outputs t))"
    by (rule map_res_total) (rule output_serialize_layout)
  with assms show ?thesis
    by (simp add: tx_serialize_def serialize_inputs_layout tx_layout_def)
qed

subsection \<open>The message that an input signs\<close>

text \<open>What a signing pass keeps of an input, and the input with its signature taken out.\<close>

definition ref :: "tx_input \<Rightarrow> bytes \<times> u64 \<times> u64" where
  "ref inp = (in_TXID inp, in_vout inp, in_amount inp)"

definition blank :: "tx_input \<Rightarrow> tx_input" where
  "blank = clear_signature \<circ> revert_sig_size"

definition zeroed :: "tx_input \<Rightarrow> bool" where
  "zeroed inp \<longleftrightarrow> length (in_TXID inp) = 32 \<and> in_sig_size inp = 64 \<and> \<not> in_signed inp \<and>
     (in_sig inp = [] \<or> in_sig inp = replicate 64 0)"

definition keyed :: "bytes \<Rightarrow> tx_input \<Rightarrow> tx_input" where
  "keyed pubkey inp = inp\<lparr>in_sig_size := 32, in_sig := take 32 pubkey\<rparr>"

text \<open>
  The message of input \<open>i\<close>: the transaction with every signature field zero, but for the public
  key in the field of input \<open>i\<close>.
\<close>

definition sig_message :: "tx \<Rightarrow> bytes \<Rightarrow> nat \<Rightarrow> bytes" where
  "sig_message t pubkey i =
     (let inps = map blank (tx_inputs t)
      in tx_layout (t\<lparr>tx_inputs := inps[i := keyed pubkey (inps ! i)]\<rparr>))"

definition same_tx :: "tx \<Rightarrow> tx \<Rightarrow> bool" where
  "same_tx t t' \<longleftrightarrow> map ref (tx_inputs t') = map ref (tx_inputs t) \<and> tx_outputs t' = tx_outputs t
     \<and> tx_id_cache t' = tx_id_cache t"

lemma same_tx_length: "same_tx t t' \<Longrightarrow> length (tx_inputs t') = length (tx_inputs t)"
  by (metis length_map same_tx_def)

lemma same_tx_trans: "same_tx a b \<Longrightarrow> same_tx b c \<Longrightarrow> same_tx a c"
  by (simp add: same_tx_def)

lemma ref_blank [simp]: "ref (blank a) = ref a"
  by (simp add: blank_def ref_def clear_signature_def revert_sig_size_def)

lemma blank_of_ref: "blank inp = (\<lambda>(t, v, a). TransactionInput_with_amount t v a) (ref inp)"
  by (cases inp) (simp add: blank_def ref_def clear_signature_def revert_sig_size_def
      TransactionInput_with_amount_def)

lemma blank_map_cong:
  assumes "map ref xs = map ref ys"
  shows "map blank xs = map blank ys"
proof -
  let ?u = "\<lambda>(t, v, a). TransactionInput_with_amount t v a"
  have "map blank zs = map ?u (map ref zs)" for zs by (simp add: blank_of_ref)
  with assms show ?thesis by metis
qed

lemma sig_message_cong:
  assumes "same_tx t t'"
  shows "sig_message t' pk i = sig_message t pk i"
proof -
  from assms have "map blank (tx_inputs t') = map blank (tx_inputs t)"
    by (intro blank_map_cong) (simp add: same_tx_def)
  with assms show ?thesis by (simp add: sig_message_def tx_layout_def same_tx_def)
qed

lemma zeroed_blank: "length (in_TXID inp) = 32 \<Longrightarrow> zeroed (blank inp)"
  by (simp add: zeroed_def blank_def clear_signature_def revert_sig_size_def sodium_sizes)

lemma zeroed_wf: "zeroed inp \<Longrightarrow> wf_input inp"
  by (auto simp: zeroed_def wf_input_def)

lemma zeroed_filled: "zeroed inp \<Longrightarrow> zeroed (filled inp)"
  by (auto simp: zeroed_def filled_def sig_field_def)

lemma zeroed_layout: "zeroed inp \<Longrightarrow> input_layout inp = input_layout (blank inp)"
  by (auto simp: zeroed_def input_layout_def sig_field_def blank_def clear_signature_def
      revert_sig_size_def sodium_sizes)

lemma keyed_layout: "input_layout (keyed pk inp) = input_layout (keyed pk (blank inp))"
  by (auto simp: input_layout_def keyed_def sig_field_def blank_def clear_signature_def
      revert_sig_size_def)

lemma keyed_wf: "length (in_TXID inp) = 32 \<Longrightarrow> 32 \<le> length pk \<Longrightarrow> wf_input (keyed pk inp)"
  by (simp add: wf_input_def keyed_def)

lemma ref_filled [simp]: "ref (filled a) = ref a"
  by (simp add: ref_def filled_def)

lemma ref_keyed [simp]: "ref (keyed pk a) = ref a"
  by (simp add: ref_def keyed_def)

lemma list_all_update: "list_all P xs \<Longrightarrow> P x \<Longrightarrow> list_all P (xs[i := x])"
  by (auto simp: list_all_iff dest: set_update_subset_insert [THEN subsetD])

text \<open>One pass of the loop body: the message of its input, and inputs as blank as before.\<close>

lemma signing_bytes_spec:
  assumes z: "list_all zeroed (tx_inputs t)" and i: "i < length (tx_inputs t)"
    and pk: "32 \<le> length pk"
  shows "\<exists>t'. signing_bytes pk i t = Inr (sig_message t pk i, t') \<and> same_tx t t'
    \<and> list_all zeroed (tx_inputs t')"
proof -
  let ?ins = "tx_inputs t" and ?k = "keyed pk (tx_inputs t ! i)"
  let ?ks = "?ins[i := ?k]"
  let ?out = "(map filled ?ks)[i := blank (map filled ?ks ! i)]"
  from z i have zi: "zeroed (?ins ! i)" by (simp add: list_all_length)
  then have id32: "length (in_TXID (?ins ! i)) = 32" by (simp add: zeroed_def)
  have key: "set_signature pk True (set_temp_sig_size 32 (?ins ! i)) = Inr ?k"
    using pk zi by (simp add: set_signature_def set_temp_sig_size_def keyed_def Let_def)
  have wf: "list_all wf_input ?ks"
    using z keyed_wf [OF id32 pk] by (auto intro!: list_all_update elim: list.pred_mono_strong simp: zeroed_wf)
  have lay: "map input_layout ?ks = map input_layout ((map blank ?ins)[i := keyed pk (map blank ?ins ! i)])"
  proof -
    have eq: "map input_layout ?ins = map input_layout (map blank ?ins)"
      using z by (simp add: list_all_iff zeroed_layout)
    have "map input_layout ?ks = (map input_layout ?ins)[i := input_layout ?k]"
      by (rule map_update)
    also have "\<dots> = (map input_layout (map blank ?ins))[i := input_layout (keyed pk (blank (?ins ! i)))]"
      by (simp only: eq keyed_layout [of pk "?ins ! i"])
    finally show ?thesis using i by (simp only: map_update nth_map)
  qed
  have msg: "tx_layout (t\<lparr>tx_inputs := ?ks\<rparr>) = sig_message t pk i"
    unfolding sig_message_def tx_layout_def Let_def using lay by simp
  have res: "signing_bytes pk i t = Inr (sig_message t pk i, t\<lparr>tx_inputs := ?out\<rparr>)"
    using wf by (simp add: signing_bytes_def sodium_sizes key tx_serialize_layout msg blank_def)
  have "map ref ?out = map ref ?ins"
    using i by (intro nth_equalityI) (auto simp: nth_list_update)
  moreover have "list_all zeroed ?out"
    unfolding list_all_length
  proof (intro allI impI)
    fix j assume j: "j < length ?out"
    show "zeroed (?out ! j)"
    proof (cases "j = i")
      case True
      then show ?thesis using i id32
        by (simp add: zeroed_blank filled_def keyed_def)
    next
      case False
      with j z show ?thesis by (simp add: list_all_length zeroed_filled)
    qed
  qed
  ultimately show ?thesis
    using res unfolding same_tx_def by (intro exI [of _ "t\<lparr>tx_inputs := ?out\<rparr>"]) simp
qed

subsection \<open>What the checking loop decides\<close>

lemma verify_inputs_spec:
  assumes "list_all zeroed (tx_inputs c)" and "same_tx t c"
    and "\<And>i. i \<in> set idxs \<Longrightarrow> i < length (tx_inputs t) \<and> i < length pubkeys
          \<and> length (in_sig (tx_inputs t ! i)) = 64 \<and> length (pubkeys ! i) = 32"
  shows "verify_inputs verify t pubkeys idxs c =
    Inr (\<forall>i \<in> set idxs. verify (in_sig (tx_inputs t ! i)) (sig_message t (pubkeys ! i) i) (pubkeys ! i))"
  using assms
proof (induction idxs arbitrary: c)
  case (Cons i idxs)
  from Cons.prems(3) [of i] have i: "i < length (tx_inputs t)" "i < length pubkeys"
    "length (in_sig (tx_inputs t ! i)) = 64" "length (pubkeys ! i) = 32" by simp_all
  from i Cons.prems(1,2) obtain c' where
    c': "signing_bytes (pubkeys ! i) i c = Inr (sig_message c (pubkeys ! i) i, c')"
      "same_tx c c'" "list_all zeroed (tx_inputs c')"
    using signing_bytes_spec [of c i "pubkeys ! i"] same_tx_length [OF Cons.prems(2)] by auto
  have "sig_message c (pubkeys ! i) i = sig_message t (pubkeys ! i) i"
    by (rule sig_message_cong) (rule Cons.prems(2))
  moreover have "verify_inputs verify t pubkeys idxs c' =
    Inr (\<forall>i \<in> set idxs. verify (in_sig (tx_inputs t ! i)) (sig_message t (pubkeys ! i) i) (pubkeys ! i))"
    using c'(2,3) Cons.prems same_tx_trans by (intro Cons.IH) auto
  ultimately show ?case using i c'(1) by (simp add: sodium_sizes Let_def)
qed simp

text \<open>Inputs as they arrive: 32 byte ids and, when signed, a 64 byte signature.\<close>

definition wire_input :: "tx_input \<Rightarrow> bool" where
  "wire_input inp \<longleftrightarrow> length (in_TXID inp) = 32 \<and> (in_signed inp \<longrightarrow> length (in_sig inp) = 64)"

lemma validate_transaction_spec:
  assumes wire: "list_all wire_input (tx_inputs t)"
    and pks: "length pubkeys = length (tx_inputs t)" "\<forall>pk \<in> set pubkeys. length pk = 32"
  shows "validate_transaction verify pubkeys t = Inr
    (list_all in_signed (tx_inputs t) \<and> out_total t \<le> in_total t \<and>
     (\<forall>i < length (tx_inputs t).
        verify (in_sig (tx_inputs t ! i)) (sig_message t (pubkeys ! i) i) (pubkeys ! i)))"
proof (cases "list_all in_signed (tx_inputs t)")
  case True
  let ?c = "t\<lparr>tx_inputs := map (clear_signature \<circ> revert_sig_size) (tx_inputs t)\<rparr>"
  have "list_all zeroed (tx_inputs ?c)"
    using wire zeroed_blank by (auto simp: list_all_iff wire_input_def blank_def)
  moreover have "same_tx t ?c"
    using ref_blank by (simp add: same_tx_def blank_def)
  moreover have "i < length (tx_inputs t) \<and> i < length pubkeys
      \<and> length (in_sig (tx_inputs t ! i)) = 64 \<and> length (pubkeys ! i) = 32"
    if "i \<in> set [0..<length (tx_inputs t)]" for i
    using that True wire pks by (auto simp: list_all_length wire_input_def)
  ultimately have "verify_inputs verify t pubkeys [0..<length (tx_inputs t)] ?c = Inr
      (\<forall>i \<in> set [0..<length (tx_inputs t)].
         verify (in_sig (tx_inputs t ! i)) (sig_message t (pubkeys ! i) i) (pubkeys ! i))"
    by (rule verify_inputs_spec)
  moreover have "set [0..<length (tx_inputs t)] = {i. i < length (tx_inputs t)}" by auto
  ultimately show ?thesis using True by (auto simp: validate_transaction_def)
qed (simp add: validate_transaction_def)

subsection \<open>What signing leaves behind\<close>

lemma sign_steps:
  assumes "list_all zeroed (tx_inputs t)" and "\<And>i. i \<in> set idxs \<Longrightarrow> i < length (tx_inputs t)"
    and "length pk = 32"
  shows "\<exists>t'. fold_res (sign_step sign_det pk sk) idxs (t, sigs)
      = Inr (t', sigs @ map (\<lambda>i. sign_det (sig_message t pk i) sk) idxs)
    \<and> same_tx t t' \<and> list_all zeroed (tx_inputs t')"
  using assms
proof (induction idxs arbitrary: t sigs)
  case (Cons i idxs)
  then obtain t1 where t1: "signing_bytes pk i t = Inr (sig_message t pk i, t1)"
      "same_tx t t1" "list_all zeroed (tx_inputs t1)"
    using signing_bytes_spec [of t i pk] by auto
  let ?sig = "sign_det (sig_message t pk i) sk"
  have "\<exists>t'. fold_res (sign_step sign_det pk sk) idxs (t1, sigs @ [?sig])
      = Inr (t', (sigs @ [?sig]) @ map (\<lambda>i. sign_det (sig_message t1 pk i) sk) idxs)
    \<and> same_tx t1 t' \<and> list_all zeroed (tx_inputs t')"
    using Cons.prems t1 same_tx_length by (intro Cons.IH) auto
  then obtain t' where t': "fold_res (sign_step sign_det pk sk) idxs (t1, sigs @ [?sig])
      = Inr (t', (sigs @ [?sig]) @ map (\<lambda>i. sign_det (sig_message t1 pk i) sk) idxs)"
      "same_tx t1 t'" "list_all zeroed (tx_inputs t')" by blast
  moreover have "sign_step sign_det pk sk i (t, sigs) = Inr (t1, sigs @ [?sig])"
    by (simp add: sign_step_def t1(1))
  ultimately show ?case
    using same_tx_trans [OF t1(2) t'(2)] by (auto simp: sig_message_cong [OF t1(2)])
qed (simp add: same_tx_def)

definition signed_with :: "bytes \<Rightarrow> tx_input \<Rightarrow> tx_input" where
  "signed_with s inp = inp\<lparr>in_sig := s, in_signed := True\<rparr>"

lemma store_signatures:
  assumes z: "list_all zeroed (tx_inputs t)" and sigs: "\<And>i. i < n \<Longrightarrow> length (sigs ! i) = 64"
    and n: "n \<le> length (tx_inputs t)"
  shows "fold_res (store_signature sigs) [0..<n] t = Inr (t\<lparr>tx_inputs :=
     map (\<lambda>i. if i < n then signed_with (sigs ! i) (tx_inputs t ! i) else tx_inputs t ! i)
       [0..<length (tx_inputs t)]\<rparr>)"
  using sigs n
proof (induction n)
  case 0
  then show ?case by (simp add: map_nth)
next
  case (Suc n)
  let ?f = "\<lambda>n i. if i < n then signed_with (sigs ! i) (tx_inputs t ! i) else tx_inputs t ! i"
  let ?t = "t\<lparr>tx_inputs := map (?f n) [0..<length (tx_inputs t)]\<rparr>"
  from z Suc.prems have "zeroed (tx_inputs t ! n)" by (simp add: list_all_length)
  then have "set_signature (sigs ! n) False (tx_inputs ?t ! n) = Inr (signed_with (sigs ! n) (tx_inputs t ! n))"
    using Suc.prems by (simp add: set_signature_def zeroed_def signed_with_def Let_def)
  moreover have "(map (?f n) [0..<length (tx_inputs t)])[n := signed_with (sigs ! n) (tx_inputs t ! n)]
      = map (?f (Suc n)) [0..<length (tx_inputs t)]"
    using Suc.prems by (intro nth_equalityI) (auto simp: nth_list_update)
  ultimately have "store_signature sigs n ?t = Inr (t\<lparr>tx_inputs := map (?f (Suc n)) [0..<length (tx_inputs t)]\<rparr>)"
    using Suc.prems by (simp add: store_signature_def)
  with Suc show ?case by (simp add: fold_res_append)
qed

lemma sign_spec:
  assumes z: "list_all zeroed (tx_inputs t)" and pk: "length pk = 32"
    and sig64: "\<And>m. length (sign_det m sk) = 64"
  shows "\<exists>ts. sign sign_det pk sk t = Inr ts \<and> same_tx t ts
    \<and> list_all wire_input (tx_inputs ts) \<and> list_all in_signed (tx_inputs ts)
    \<and> (\<forall>i < length (tx_inputs t). in_sig (tx_inputs ts ! i) = sign_det (sig_message t pk i) sk)"
proof -
  let ?n = "length (tx_inputs t)"
  let ?sigs = "map (\<lambda>i. sign_det (sig_message t pk i) sk) [0..<?n]"
  obtain t' where t': "fold_res (sign_step sign_det pk sk) [0..<?n] (t, []) = Inr (t', ?sigs)"
      "same_tx t t'" "list_all zeroed (tx_inputs t')"
    using sign_steps [OF z, of "[0..<?n]" pk sign_det sk "[]"] pk by auto
  have len: "length (tx_inputs t') = ?n" by (rule same_tx_length) (rule t'(2))
  define ts where "ts = t'\<lparr>tx_inputs := map (\<lambda>i. signed_with (?sigs ! i) (tx_inputs t' ! i)) [0..<?n]\<rparr>"
  have "fold_res (store_signature ?sigs) [0..<?n] t' = Inr ts"
    using store_signatures [OF t'(3), of ?n ?sigs] sig64 by (simp add: len ts_def cong: map_cong)
  moreover have "\<not> list_ex in_signed (tx_inputs t)"
    using z by (auto simp: list_ex_iff list_all_iff zeroed_def)
  ultimately have "sign sign_det pk sk t = Inr ts"
    using t'(1) by (simp add: sign_def)
  moreover have "map ref (tx_inputs ts) = map ref (tx_inputs t')"
    by (rule nth_equalityI) (simp_all add: ts_def len signed_with_def ref_def)
  with t'(2) have "same_tx t ts" by (simp add: same_tx_def ts_def)
  moreover have "list_all wire_input (tx_inputs ts)"
    using t'(3) by (auto simp: ts_def list_all_length len signed_with_def wire_input_def sig64 zeroed_def)
  moreover have "list_all in_signed (tx_inputs ts)"
    by (simp add: ts_def list_all_iff signed_with_def)
  ultimately show ?thesis by (auto simp: ts_def signed_with_def)
qed

lemma same_tx_totals: "same_tx t t' \<Longrightarrow> in_total t' = in_total t \<and> out_total t' = out_total t"
proof -
  assume s: "same_tx t t'"
  have "map in_amount xs = map (\<lambda>(a, b, c). c) (map ref xs)" for xs by (simp add: ref_def)
  then have "map in_amount (tx_inputs t') = map in_amount (tx_inputs t)"
    using s unfolding same_tx_def by metis
  with s show ?thesis by (simp add: same_tx_def in_total_def out_total_def)
qed

lemma sum_list_unat:
  assumes "(\<Sum>x\<leftarrow>xs. unat (f x)) < 2 ^ 64"
  shows "unat (sum_list (map f xs) :: u64) = (\<Sum>x\<leftarrow>xs. unat (f x))"
  using assms
proof (induction xs)
  case (Cons x xs)
  then have "unat (sum_list (map f xs)) = (\<Sum>x\<leftarrow>xs. unat (f x))" by simp
  with Cons.prems show ?case by (simp add: unat_word_ariths)
qed simp

subsection \<open>The id commits to the content\<close>

text \<open>What a transaction says: outputs spent with their signatures, and outputs created.\<close>

definition content :: "tx \<Rightarrow> (bytes \<times> u64 \<times> u32 \<times> bytes) list \<times> (u64 \<times> bytes) list" where
  "content t = (map (\<lambda>i. (in_TXID i, in_vout i, in_sig_size i, sig_field i)) (tx_inputs t),
                map (\<lambda>out. (out_amount out, out_public_key out)) (tx_outputs t))"

definition wf_tx :: "tx \<Rightarrow> bool" where
  "wf_tx t \<longleftrightarrow> list_all wf_input (tx_inputs t) \<and> list_all wf_output (tx_outputs t) \<and>
     length (tx_inputs t) < 2 ^ 64 \<and> length (tx_outputs t) < 2 ^ 64"

lemma input_layouts_inject:
  assumes "list_all wf_input xs" "list_all wf_input ys" "length xs = length ys"
    and "concat (map input_layout xs) @ r = concat (map input_layout ys) @ r'"
  shows "map (\<lambda>i. (in_TXID i, in_vout i, in_sig_size i, sig_field i)) xs
       = map (\<lambda>i. (in_TXID i, in_vout i, in_sig_size i, sig_field i)) ys \<and> r = r'"
  using assms
proof (induction xs arbitrary: ys)
  case (Cons x xs)
  then obtain y ys' where ys: "ys = y # ys'" by (cases ys) auto
  with Cons.prems have "in_TXID x = in_TXID y \<and> in_vout x = in_vout y \<and> in_sig_size x = in_sig_size y
    \<and> sig_field x = sig_field y
    \<and> concat (map input_layout xs) @ r = concat (map input_layout ys') @ r'"
    by (intro input_layout_inject) auto
  with Cons ys show ?case by auto
qed auto

lemma output_layouts_inject:
  assumes "list_all wf_output xs" "list_all wf_output ys" "length xs = length ys"
    and "concat (map output_layout xs) = concat (map output_layout ys)"
  shows "map (\<lambda>out. (out_amount out, out_public_key out)) xs = map (\<lambda>out. (out_amount out, out_public_key out)) ys"
  using assms
proof (induction xs arbitrary: ys)
  case (Cons x xs)
  then obtain y ys' where ys: "ys = y # ys'" by (cases ys) auto
  with Cons.prems have "out_amount x = out_amount y \<and> out_public_key x = out_public_key y
    \<and> concat (map output_layout xs) = concat (map output_layout ys')"
    by (intro output_layout_inject) auto
  with Cons ys show ?case by auto
qed auto

lemma count_inject: "a < 2 ^ 64 \<Longrightarrow> b < 2 ^ 64 \<Longrightarrow> (word_of_nat a :: u64) = word_of_nat b \<Longrightarrow> a = b"
  by (simp add: word_of_nat_eq_iff take_bit_nat_eq_self)

lemma tx_layout_inject:
  assumes "wf_tx t" and "wf_tx t'" and "tx_layout t = tx_layout t'"
  shows "content t = content t'"
proof -
  from assms(3) have "length (tx_inputs t) = length (tx_inputs t')"
    and 1: "concat (map input_layout (tx_inputs t)) @
        uint64_to_vector_big_endian (word_of_nat (length (tx_outputs t))) @ concat (map output_layout (tx_outputs t))
      = concat (map input_layout (tx_inputs t')) @
        uint64_to_vector_big_endian (word_of_nat (length (tx_outputs t'))) @ concat (map output_layout (tx_outputs t'))"
    using count_inject assms(1,2) by (auto simp: tx_layout_def uint64.enc_prefix_inject wf_tx_def)
  then have 2: "fst (content t) = fst (content t')"
    and 3: "uint64_to_vector_big_endian (word_of_nat (length (tx_outputs t))) @ concat (map output_layout (tx_outputs t))
      = uint64_to_vector_big_endian (word_of_nat (length (tx_outputs t'))) @ concat (map output_layout (tx_outputs t'))"
    using input_layouts_inject [OF _ _ _ 1] assms(1,2) by (auto simp: wf_tx_def content_def)
  from 3 have "length (tx_outputs t) = length (tx_outputs t')"
    and "concat (map output_layout (tx_outputs t)) = concat (map output_layout (tx_outputs t'))"
    using count_inject assms(1,2) by (auto simp: uint64.enc_prefix_inject wf_tx_def)
  then have "snd (content t) = snd (content t')"
    using output_layouts_inject assms(1,2) by (auto simp: wf_tx_def content_def)
  with 2 show ?thesis by (simp add: prod_eq_iff)
qed

lemma TXID_value:
  assumes "list_all wf_input (tx_inputs t)" and "list_all in_signed (tx_inputs t)" and "tx_id_cache t = None"
  shows "TXID gh t = Inr (gh (tx_layout t), t\<lparr>tx_inputs := map filled (tx_inputs t),
            tx_id_cache := Some (gh (tx_layout t))\<rparr>)"
  using assms by (simp add: TXID_def compute_txid_def tx_serialize_layout)

subsection \<open>Properties\<close>

text \<open>C33. What \<open>validate_transaction\<close> decides: every input is signed, the 64-bit sum of the
  outputs does not exceed the 64-bit sum of the inputs, and every signature is valid for the message
  of its input under the key of the output it spends.\<close>

theorem validate_transaction_decides:
  assumes "list_all wire_input (tx_inputs t)"
    and "length pubkeys = length (tx_inputs t)" and "\<forall>pk \<in> set pubkeys. length pk = 32"
  shows "validate_transaction verify pubkeys t = Inr
    (list_all in_signed (tx_inputs t) \<and> out_total t \<le> in_total t \<and>
     (\<forall>i < length (tx_inputs t).
        verify (in_sig (tx_inputs t ! i)) (sig_message t (pubkeys ! i) i) (pubkeys ! i)))"
  by (rule validate_transaction_spec) (rule assms)+

text \<open>A signed input, an output and a transaction for the witnesses.\<close>

definition sample_input :: tx_input where
  "sample_input = \<lparr>in_TXID = replicate 32 7, in_vout = 1, in_sig = replicate 64 9,
     in_signed = True, in_amount = 50, in_sig_size = 64\<rparr>"

definition sample_output :: "u64 \<Rightarrow> tx_output" where
  "sample_output am = \<lparr>out_amount = am, out_public_key = replicate 32 5, out_hash_cache = None\<rparr>"

definition sample_tx :: tx where
  "sample_tx = \<lparr>tx_inputs = [sample_input], tx_outputs = [sample_output 30, sample_output 15],
     tx_id_cache = None\<rparr>"

lemmas sample_defs = sample_tx_def sample_input_def sample_output_def

theorem validate_transaction_decides_witness:
  "validate_transaction (\<lambda>s m k. s = replicate 64 9) [replicate 32 5] sample_tx = Inr True"
  by (subst validate_transaction_decides) (simp_all add: sample_defs wire_input_def in_total_def out_total_def)

text \<open>C32. A transaction that \<open>sign\<close> signs passes \<open>validate_transaction\<close> under the signer's key
  for each input, whenever the funds suffice and the signature scheme accepts its own signatures;
  signing changes neither what is spent nor what is created.\<close>

theorem sign_then_validate:
  assumes "list_all zeroed (tx_inputs t)" and "length pk = 32"
    and "\<forall>m. length (sign_det m sk) = 64" and "\<forall>m. verify (sign_det m sk) m pk"
    and "out_total t \<le> in_total t"
  shows "\<exists>ts. sign sign_det pk sk t = Inr ts \<and> same_tx t ts
    \<and> validate_transaction verify (replicate (length (tx_inputs ts)) pk) ts = Inr True"
proof -
  obtain ts where ts: "sign sign_det pk sk t = Inr ts" "same_tx t ts"
      "list_all wire_input (tx_inputs ts)" "list_all in_signed (tx_inputs ts)"
      "\<forall>i < length (tx_inputs t). in_sig (tx_inputs ts ! i) = sign_det (sig_message t pk i) sk"
    using sign_spec [of t pk sign_det sk] assms(1-3) by blast
  have "validate_transaction verify (replicate (length (tx_inputs ts)) pk) ts = Inr True"
    using ts assms(2,4,5) same_tx_length [OF ts(2)] same_tx_totals [OF ts(2)]
    by (subst validate_transaction_spec) (auto simp: sig_message_cong [OF ts(2)])
  with ts(1,2) show ?thesis by blast
qed

theorem sign_then_validate_witness:
  "\<exists>ts. sign (\<lambda>m sk. sk) (replicate 32 5) (replicate 64 9) (sample_tx\<lparr>tx_inputs := [blank sample_input]\<rparr>) = Inr ts
    \<and> same_tx (sample_tx\<lparr>tx_inputs := [blank sample_input]\<rparr>) ts
    \<and> validate_transaction (\<lambda>s m k. s = replicate 64 9)
        (replicate (length (tx_inputs ts)) (replicate 32 5)) ts = Inr True"
  by (rule sign_then_validate)
     (simp_all add: sample_defs zeroed_def in_total_def out_total_def blank_def clear_signature_def
       revert_sig_size_def sodium_sizes)

definition overflow_tx :: tx where
  "overflow_tx = sample_tx\<lparr>tx_outputs := [sample_output (2 ^ 63), sample_output (2 ^ 63)]\<rparr>"

text \<open>C37. The sums are 64-bit: two outputs of \<open>2 ^ 63\<close> add up to zero, so a transaction that
  spends 50 and creates \<open>2 ^ 64\<close> is accepted by \<open>validate_transaction\<close>, as soon as its one signature
  is.\<close>

theorem validate_transaction_value_overflow:
  "validate_transaction verify [replicate 32 5] overflow_tx
     = Inr (verify (replicate 64 9) (sig_message overflow_tx (replicate 32 5) 0) (replicate 32 5))
   \<and> (\<Sum>i\<leftarrow>tx_inputs overflow_tx. unat (in_amount i)) = 50
   \<and> (\<Sum>out\<leftarrow>tx_outputs overflow_tx. unat (out_amount out)) = 2 ^ 64"
proof -
  have "out_total overflow_tx = 0"
    by (simp add: overflow_tx_def sample_defs out_total_def)
  then have "validate_transaction verify [replicate 32 5] overflow_tx
     = Inr (verify (replicate 64 9) (sig_message overflow_tx (replicate 32 5) 0) (replicate 32 5))"
    by (subst validate_transaction_spec) (simp_all add: overflow_tx_def sample_defs wire_input_def)
  then show ?thesis by (simp add: overflow_tx_def sample_defs)
qed

text \<open>When neither sum overflows, a transaction that passes \<open>validate_transaction\<close> creates no
  value: its outputs and its fee add up to its inputs.\<close>

theorem validated_conserves_value:
  assumes "validate_transaction verify pubkeys t = Inr True"
    and "(\<Sum>i\<leftarrow>tx_inputs t. unat (in_amount i)) < 2 ^ 64"
    and "(\<Sum>out\<leftarrow>tx_outputs t. unat (out_amount out)) < 2 ^ 64"
  shows "\<exists>f. fee t = Inr f \<and>
    (\<Sum>out\<leftarrow>tx_outputs t. unat (out_amount out)) + unat f = (\<Sum>i\<leftarrow>tx_inputs t. unat (in_amount i))"
proof -
  from assms(1) have le: "out_total t \<le> in_total t"
    by (auto simp: validate_transaction_def split: if_splits)
  then have "unat (out_total t) + unat (in_total t - out_total t) = unat (in_total t)"
    by (simp add: unat_sub word_le_nat_alt)
  with le sum_list_unat [OF assms(2)] sum_list_unat [OF assms(3)] show ?thesis
    by (simp add: fee_def in_total_def out_total_def)
qed

theorem validated_conserves_value_witness:
  "\<exists>f. fee sample_tx = Inr f \<and>
    (\<Sum>out\<leftarrow>tx_outputs sample_tx. unat (out_amount out)) + unat f
      = (\<Sum>i\<leftarrow>tx_inputs sample_tx. unat (in_amount i))"
proof (rule validated_conserves_value)
  show "validate_transaction (\<lambda>s m k. True) [replicate 32 5] sample_tx = Inr True"
    by (subst validate_transaction_spec) (simp_all add: sample_defs wire_input_def in_total_def out_total_def)
qed (simp_all add: sample_defs)

lemma TXID_binding:
  assumes "wf_tx t" and "wf_tx t'" and "tx_id_cache t = None" and "tx_id_cache t' = None"
    and "TXID gh t = Inr (h, u)" and "TXID gh t' = Inr (h, u')"
  shows "content t = content t' \<or> (\<exists>a b. a \<noteq> b \<and> gh a = gh b)"
proof -
  from assms(5,6) have "list_all in_signed (tx_inputs t)" "list_all in_signed (tx_inputs t')"
    by (auto simp: TXID_def split: if_splits)
  with assms have "gh (tx_layout t) = h" "gh (tx_layout t') = h"
    using TXID_value by (auto simp: wf_tx_def)
  then show ?thesis using tx_layout_inject [OF assms(1,2)] by metis
qed

text \<open>A transaction id commits to the content: two well-formed signed transactions with the
  same id spend the same outputs with the same signatures and create the same outputs, or the hash
  has a collision.\<close>

theorem TXID_commits:
  assumes "wf_tx t" and "wf_tx t'" and "tx_id_cache t = None" and "tx_id_cache t' = None"
    and "TXID gh t = Inr (h, u)" and "TXID gh t' = Inr (h, u')"
  shows "content t = content t' \<or> (\<exists>a b. a \<noteq> b \<and> gh a = gh b)"
  using TXID_binding [OF assms] .

theorem TXID_commits_witness:
  "content sample_tx = content sample_tx \<or> (\<exists>a b. a \<noteq> b \<and> (take 32 :: bytes \<Rightarrow> bytes) a = take 32 b)"
proof (rule TXID_commits)
  show "wf_tx sample_tx" by (simp add: wf_tx_def sample_defs wf_input_def wf_output_def)
  show "TXID (take 32) sample_tx = Inr (take 32 (tx_layout sample_tx),
      sample_tx\<lparr>tx_inputs := map filled (tx_inputs sample_tx), tx_id_cache := Some (take 32 (tx_layout sample_tx))\<rparr>)"
    by (rule TXID_value) (simp_all add: sample_defs wf_input_def)
  then show "TXID (take 32) sample_tx = Inr (take 32 (tx_layout sample_tx),
      sample_tx\<lparr>tx_inputs := map filled (tx_inputs sample_tx), tx_id_cache := Some (take 32 (tx_layout sample_tx))\<rparr>)" .
qed (simp_all add: sample_defs wf_tx_def wf_input_def wf_output_def)

text \<open>A payment built by the constructor with change balances: inputs are the outputs plus the
  fee, the first output pays the amount to the recipient, and a second one exists exactly when
  something is left for the sender.\<close>

theorem Transaction_spend_balances:
  assumes "Transaction_spend inputs self_pubkey rec_pubkey amount f = Inr t"
  shows "in_total t = out_total t + f \<and> out_amount (hd (tx_outputs t)) = amount
    \<and> out_public_key (hd (tx_outputs t)) = take 32 rec_pubkey
    \<and> (length (tx_outputs t) = 2 \<longleftrightarrow> amount + f < in_total t) \<and> tx_inputs t = inputs"
  using assms
  by (auto simp: Transaction_spend_def TransactionOutput_def add_output_def in_total_def out_total_def
      sodium_sizes Let_def split: if_splits sum.splits)

theorem Transaction_spend_balances_witness:
  "\<exists>t. Transaction_spend [sample_input] (replicate 32 1) (replicate 32 2) 30 5 = Inr t
    \<and> in_total t = out_total t + 5 \<and> length (tx_outputs t) = 2"
proof -
  have "\<exists>t. Transaction_spend [sample_input] (replicate 32 1) (replicate 32 2) 30 5 = Inr t
      \<and> in_total t = 50"
    by (simp add: Transaction_spend_def TransactionOutput_def sample_input_def sodium_sizes
        add_output_def in_total_def)
  then obtain t where t: "Transaction_spend [sample_input] (replicate 32 1) (replicate 32 2) 30 5 = Inr t"
    "in_total t = 50" by blast
  from Transaction_spend_balances [OF t(1)] t(2) show ?thesis by (intro exI [of _ t] conjI t) simp_all
qed

text \<open>An input after \<open>sign\<close>, the form in which transactions travel.\<close>

definition signed_input :: "tx_input \<Rightarrow> bool" where
  "signed_input inp \<longleftrightarrow> length (in_TXID inp) = 32 \<and> in_sig_size inp = 64 \<and> in_signed inp
     \<and> length (in_sig inp) = 64"

lemma signed_input_wf: "signed_input inp \<Longrightarrow> wf_input inp"
  by (simp add: signed_input_def wf_input_def)

lemma signed_input_via_proto:
  "signed_input inp \<Longrightarrow> input_from_proto (input_to_proto inp) False = Inr (inp\<lparr>in_amount := 0\<rparr>)"
  by (cases inp) (auto simp: signed_input_def input_from_proto_def input_to_proto_def
      TransactionInput_def set_signature_def sodium_sizes Let_def)

lemma output_via_proto:
  "wf_output outp \<Longrightarrow> output_from_proto (output_to_proto outp) = Inr (outp\<lparr>out_hash_cache := None\<rparr>)"
  by (cases outp) (auto simp: wf_output_def output_from_proto_def output_to_proto_def
      TransactionOutput_def sodium_sizes)

lemma amount_not_in_layout: "input_layout (inp\<lparr>in_amount := am\<rparr>) = input_layout inp"
  by (simp add: input_layout_def sig_field_def)

lemma cache_not_in_layout: "output_layout (outp\<lparr>out_hash_cache := c\<rparr>) = output_layout outp"
  by (simp add: output_layout_def)

text \<open>A signed transaction that is sent as a message and read back has the same inputs,
  signatures and outputs (only the amounts of its inputs, which do not travel, are reset) and the
  receiver computes the id of its bytes.\<close>

theorem tx_proto_roundtrip:
  assumes "list_all signed_input (tx_inputs t)" and "list_all wf_output (tx_outputs t)"
  shows "\<exists>t'. tx_from_proto gh (tx_to_proto t) False = Inr t'
    \<and> tx_inputs t' = map (\<lambda>i. i\<lparr>in_amount := 0\<rparr>) (tx_inputs t)
    \<and> tx_layout t' = tx_layout t \<and> tx_id_cache t' = Some (gh (tx_layout t))"
proof -
  let ?ins = "map (\<lambda>i. i\<lparr>in_amount := 0\<rparr>) (tx_inputs t)"
    and ?outs = "map (\<lambda>out. out\<lparr>out_hash_cache := None\<rparr>) (tx_outputs t)"
  let ?t = "\<lparr>tx_inputs = ?ins, tx_outputs = ?outs, tx_id_cache = None\<rparr>"
  have ins: "map_res (\<lambda>i. input_from_proto i False) (pt_inputs (tx_to_proto t)) = Inr ?ins"
    using assms(1) by (simp add: tx_to_proto_def map_res_Inr_iff list_all2_conv_all_nth list_all_length
        signed_input_via_proto)
  have outs: "map_res output_from_proto (pt_outputs (tx_to_proto t)) = Inr ?outs"
    using assms(2) by (simp add: tx_to_proto_def map_res_Inr_iff list_all2_conv_all_nth list_all_length
        output_via_proto)
  have lay: "tx_layout ?t = tx_layout t"
    by (simp add: tx_layout_def comp_def amount_not_in_layout cache_not_in_layout)
  have wf: "list_all wf_input ?ins" "list_all in_signed ?ins"
    using assms(1) by (auto simp: list_all_iff signed_input_def wf_input_def)
  have fill: "map filled ?ins = ?ins"
    using assms(1) by (auto simp: list_all_iff filled_def sig_field_def signed_input_def)
  have "TXID gh ?t = Inr (gh (tx_layout t), ?t\<lparr>tx_id_cache := Some (gh (tx_layout t))\<rparr>)"
    using TXID_value [of ?t gh] wf fill lay by simp
  then have "tx_from_proto gh (tx_to_proto t) False = Inr (?t\<lparr>tx_id_cache := Some (gh (tx_layout t))\<rparr>)"
    by (simp add: tx_from_proto_def ins outs Transaction_def)
  moreover have "tx_layout (?t\<lparr>tx_id_cache := c\<rparr>) = tx_layout t" for c
    using lay by (simp add: tx_layout_def)
  ultimately show ?thesis by simp
qed

theorem tx_proto_roundtrip_witness:
  "\<exists>t'. tx_from_proto (take 32) (tx_to_proto sample_tx) False = Inr t'
    \<and> tx_inputs t' = map (\<lambda>i. i\<lparr>in_amount := 0\<rparr>) (tx_inputs sample_tx)
    \<and> tx_layout t' = tx_layout sample_tx \<and> tx_id_cache t' = Some (take 32 (tx_layout sample_tx))"
  by (rule tx_proto_roundtrip) (simp_all add: sample_defs signed_input_def wf_output_def)

end
