(* ===== verification/Stores.thy ===== *)
theory Stores
  imports Prelude "HOL-Library.AList"
begin

text \<open>
  \<^verbatim>\<open>src/src/store/mem_blockstore.cpp\<close> and \<^verbatim>\<open>src/src/store/mem_compstore.cpp\<close>, and the contract
  that the keyed stores of the node share.

  A \<open>std::unordered_map\<close> is an association list with one entry per key.  Its iteration order is
  the order of the list; since the claims hold for every list, they do not depend on it.  The
  conversion of a hash to a \<open>std::string\<close> key is the identity on bytes.
\<close>

subsection \<open>The contract of a keyed store\<close>

text \<open>
  \<open>insert\<close> never overwrites and reports whether it stored, \<open>remove\<close> reports whether there was an
  entry, and both leave every other key alone.
\<close>

locale keyed_store =
  fixes lookup :: "'s \<Rightarrow> bytes \<Rightarrow> 'v option"
    and insert :: "bytes \<Rightarrow> 'v \<Rightarrow> 's \<Rightarrow> bool \<times> 's"
    and remove :: "bytes \<Rightarrow> 's \<Rightarrow> bool \<times> 's"
  assumes insert_stored: "fst (insert k v s) \<longleftrightarrow> lookup s k = None"
    and insert_lookup: "lookup (snd (insert k v s)) =
          (if lookup s k = None then (lookup s)(k \<mapsto> v) else lookup s)"
    and remove_found: "fst (remove k s) \<longleftrightarrow> lookup s k \<noteq> None"
    and remove_lookup: "lookup (snd (remove k s)) = (lookup s)(k := None)"
begin

lemma insert_twice: "fst (insert k w (snd (insert k v s))) = False
    \<and> lookup (snd (insert k w (snd (insert k v s)))) = lookup (snd (insert k v s))"
  by (simp add: insert_stored insert_lookup)

lemma insert_then_remove:
  "fst (insert k v s) \<Longrightarrow>
   fst (remove k (snd (insert k v s))) \<and> lookup (snd (remove k (snd (insert k v s)))) = lookup s"
  by (auto simp: insert_stored insert_lookup remove_found remove_lookup fun_eq_iff)

lemma remove_then_insert:
  "lookup s k = Some v \<Longrightarrow>
   fst (insert k v (snd (remove k s))) \<and> lookup (snd (insert k v (snd (remove k s)))) = lookup s"
  by (auto simp: insert_stored insert_lookup remove_lookup fun_eq_iff)

lemma insert_dom: "dom (lookup (snd (insert k v s))) = Set.insert k (dom (lookup s))"
  by (auto simp: insert_lookup split: if_splits)

lemma remove_dom: "dom (lookup (snd (remove k s))) = dom (lookup s) - {k}"
  by (auto simp: remove_lookup split: if_splits)

lemma insert_keeps: "lookup s k' = Some w \<Longrightarrow> lookup (snd (insert k v s)) k' = Some w"
  by (auto simp: insert_lookup)

end

subsection \<open>MemBlockStore\<close>

type_synonym 'b blockstore = "(bytes \<times> 'b) list"

definition store_block :: "bytes \<Rightarrow> 'b \<Rightarrow> 'b blockstore \<Rightarrow> bool \<times> 'b blockstore" where
  "store_block block_hash block st =
     (if map_of st block_hash \<noteq> None then (False, st)
      else (True, AList.update block_hash block st))"

definition get_block :: "bytes \<Rightarrow> 'b blockstore \<Rightarrow> 'b result" where
  "get_block block_hash st =
     (case map_of st block_hash of None \<Rightarrow> Inl Out_of_range | Some b \<Rightarrow> Inr b)"

definition remove_block :: "bytes \<Rightarrow> 'b blockstore \<Rightarrow> bool \<times> 'b blockstore" where
  "remove_block block_hash st =
     (if map_of st block_hash = None then (False, st)
      else (True, AList.delete block_hash st))"

definition block_exists :: "bytes \<Rightarrow> 'b blockstore \<Rightarrow> bool" where
  "block_exists block_hash st \<longleftrightarrow> map_of st block_hash \<noteq> None"

interpretation blockstore: keyed_store map_of store_block remove_block
  by unfold_locales
     (auto simp: store_block_def remove_block_def update_conv' delete_conv' fun_eq_iff)

subsection \<open>MemCompStore\<close>

text \<open>
  The store calls two methods of the abstract class \<open>Computation\<close>: \<open>hash\<close>, which fixes the key,
  and \<open>difficulty\<close>.  They are parameters of the operations that use them.
\<close>

type_synonym 'c compstore = "(bytes \<times> 'c) list"

definition store_computation :: "('c \<Rightarrow> bytes) \<Rightarrow> 'c \<Rightarrow> 'c compstore \<Rightarrow> bool \<times> 'c compstore" where
  "store_computation comp_hash c st =
     (if map_of st (comp_hash c) \<noteq> None then (False, st)
      else (True, AList.update (comp_hash c) c st))"

definition get_computation :: "bytes \<Rightarrow> 'c compstore \<Rightarrow> 'c result" where
  "get_computation h st = (case map_of st h of None \<Rightarrow> Inl Out_of_range | Some c \<Rightarrow> Inr c)"

definition remove_computation :: "bytes \<Rightarrow> 'c compstore \<Rightarrow> bool \<times> 'c compstore" where
  "remove_computation h st =
     (if map_of st h = None then (False, st) else (True, AList.delete h st))"

definition computation_exists :: "bytes \<Rightarrow> 'c compstore \<Rightarrow> bool" where
  "computation_exists h st \<longleftrightarrow> map_of st h \<noteq> None"

definition list_comp_hashes :: "'c compstore \<Rightarrow> bytes list" where
  "list_comp_hashes st = map fst st"

text \<open>The loop of \<open>collect_computations\<close>: \<open>acc\<close> is 32-bit, \<open>res\<close> the computations so far.\<close>

fun collect_from :: "('c \<Rightarrow> u32) \<Rightarrow> u32 \<Rightarrow> u32 \<Rightarrow> 'c list \<Rightarrow> 'c list \<Rightarrow> 'c list" where
  "collect_from difficulty target acc res [] = []"
| "collect_from difficulty target acc res (c # cs) =
     (let res' = res @ [c]; acc' = acc + difficulty c
      in if target \<le> acc' then res' else collect_from difficulty target acc' res' cs)"

definition collect_computations :: "('c \<Rightarrow> u32) \<Rightarrow> u32 \<Rightarrow> 'c compstore \<Rightarrow> 'c list" where
  "collect_computations difficulty target st = collect_from difficulty target 0 [] (map snd st)"

definition comp_spend_block :: "('c \<Rightarrow> bytes) \<Rightarrow> 'c list \<Rightarrow> 'c compstore \<Rightarrow> 'c compstore" where
  "comp_spend_block comp_hash computations st =
     fold (\<lambda>c s. snd (remove_computation (comp_hash c) s)) computations st"

text \<open>The store under the keys that it computes itself.\<close>

definition store_under :: "bytes \<Rightarrow> 'c \<Rightarrow> 'c compstore \<Rightarrow> bool \<times> 'c compstore" where
  "store_under k c = store_computation (\<lambda>_. k) c"

interpretation compstore: keyed_store map_of store_under remove_computation
  by unfold_locales
     (auto simp: store_under_def store_computation_def remove_computation_def update_conv' delete_conv' fun_eq_iff)

lemma store_computation_under: "store_computation h c st = store_under (h c) c st"
  by (simp add: store_under_def store_computation_def)

lemma comp_spend_block_lookup:
  "map_of (comp_spend_block h cs st) k = (if k \<in> h ` set cs then None else map_of st k)"
  unfolding comp_spend_block_def
  by (induction cs arbitrary: st) (auto simp: compstore.remove_lookup)

lemma collect_from_spec:
  assumes "collect_from d target acc res cs = r"
  shows "r = [] \<or> (\<exists>n. 0 < n \<and> n \<le> length cs \<and> r = res @ take n cs \<and>
      target \<le> acc + sum_list (map d (take n cs)) \<and>
      (\<forall>k. 0 < k \<and> k < n \<longrightarrow> acc + sum_list (map d (take k cs)) < target))"
  using assms
proof (induction cs arbitrary: acc res)
  case (Cons c cs)
  show ?case
  proof (cases "target \<le> acc + d c")
    case True
    with Cons.prems show ?thesis by (intro disjI2 exI [of _ 1]) (auto simp: Let_def)
  next
    case False
    with Cons.prems have "collect_from d target (acc + d c) (res @ [c]) cs = r" by (simp add: Let_def)
    from Cons.IH [OF this] show ?thesis
    proof (elim disjE exE conjE)
      fix n assume n: "0 < n" "n \<le> length cs" "r = (res @ [c]) @ take n cs"
        "target \<le> acc + d c + sum_list (map d (take n cs))"
        "\<forall>k. 0 < k \<and> k < n \<longrightarrow> acc + d c + sum_list (map d (take k cs)) < target"
      have "acc + sum_list (map d (take k (c # cs))) < target" if "0 < k" "k < Suc n" for k
        using that n(5) False by (cases k; cases "k - 1 = 0") (auto simp: add.assoc not_le)
      with n show ?thesis
        by (intro disjI2 exI [of _ "Suc n"]) (auto simp: add.assoc)
    qed simp
  qed
qed simp

lemma collect_from_complete:
  assumes "0 < n" and "n \<le> length cs" and "target \<le> acc + sum_list (map d (take n cs))"
  shows "collect_from d target acc res cs \<noteq> []"
  using assms
proof (induction cs arbitrary: acc res n)
  case (Cons c cs)
  show ?case
  proof (cases "target \<le> acc + d c")
    case False
    with Cons.prems obtain m where m: "n = Suc m" "0 < m"
      by (cases n; cases "n - 1") auto
    with Cons.prems have "collect_from d target (acc + d c) (res @ [c]) cs \<noteq> []"
      by (intro Cons.IH [of m]) (auto simp: add.assoc)
    with False show ?thesis by (simp add: Let_def)
  qed (simp add: Let_def)
qed simp

subsection \<open>Properties\<close>

text \<open>The miner gets computations to mine with exactly when some non-empty run of stored
  ones reaches the target, and then it gets the shortest such run (sums are 32-bit).\<close>

theorem collect_computations_reaches_target:
  "(collect_computations d target st \<noteq> [] \<longleftrightarrow>
      (\<exists>n. 0 < n \<and> n \<le> length st \<and> target \<le> sum_list (map d (take n (map snd st)))))
   \<and> (collect_computations d target st \<noteq> [] \<longrightarrow>
      (\<exists>n. collect_computations d target st = take n (map snd st) \<and> n \<le> length st \<and>
        target \<le> sum_list (map d (take n (map snd st))) \<and>
        (\<forall>k. 0 < k \<and> k < n \<longrightarrow> sum_list (map d (take k (map snd st))) < target)))"
proof (cases "collect_computations d target st = []")
  case True
  then have "\<not> (\<exists>n. 0 < n \<and> n \<le> length st \<and> target \<le> sum_list (map d (take n (map snd st))))"
    using collect_from_complete [of _ "map snd st" target 0 d "[]"]
    by (auto simp: collect_computations_def)
  with True show ?thesis by simp
next
  case False
  then show ?thesis
    using collect_from_spec [of d target 0 "[]" "map snd st" "collect_computations d target st"]
    by (auto simp: collect_computations_def)
qed

theorem collect_computations_reaches_target_witness:
  "collect_computations id 5 [([1], 2), ([2], 4), ([3], 9)] = [2, 4 :: u32] \<and>
   (\<exists>n. [2, 4 :: u32] = take n [2, 4, 9] \<and> n \<le> 3)"
proof -
  let ?st = "[([1], 2), ([2], 4), ([3], 9)] :: u32 compstore"
  have r: "collect_computations id 5 ?st = [2, 4]" by (simp add: collect_computations_def)
  then show ?thesis
    using collect_computations_reaches_target [of id 5 ?st] by auto
qed

text \<open>After a block has been accepted, none of its computations can be collected or fetched
  again, and every other one still can.\<close>

theorem comp_spend_block_removes:
  "get_computation k (comp_spend_block h cs st) =
     (if k \<in> h ` set cs then Inl Out_of_range else get_computation k st)"
  by (simp add: get_computation_def comp_spend_block_lookup)

end
