(* ===== verification/Chainstate.thy ===== *)
theory Chainstate
  imports Transaction Stores
begin

text \<open>
  \<^verbatim>\<open>src/src/store/mem_chainstate.cpp\<close>: the set of unspent outputs, with the set of spent ones
  kept for undoing blocks.

  \<open>remove_utxo\<close> of the code saves the spent record through an iterator that its own \<open>erase\<close>
  has just invalidated; the model saves the record that the iterator found, which is what the
  code means.  The id of a transaction is memoised in the shared object; the model passes on the
  value only (lemma \<open>TXID_memo\<close>: asking again gives the same id).
\<close>

record utxo =
  u_height :: u32
  u_coinbase :: bool
  u_amount :: u64
  u_pubkey :: bytes

definition UTXORecord :: "u32 \<Rightarrow> bool \<Rightarrow> u64 \<Rightarrow> bytes \<Rightarrow> utxo result" where
  "UTXORecord height coinbase amount pubkey =
     (if length pubkey < crypto_sign_PUBLICKEYBYTES
      then Inl (Undefined ''public key buffer too short'')
      else Inr \<lparr>u_height = height, u_coinbase = coinbase, u_amount = amount,
                u_pubkey = take crypto_sign_PUBLICKEYBYTES pubkey\<rparr>)"

record chainstate =
  storage :: "(bytes \<times> utxo) list"
  spent :: "(bytes \<times> utxo) list"

definition empty_chainstate :: chainstate where
  "empty_chainstate = \<lparr>storage = [], spent = []\<rparr>"

definition pair_to_key :: "bytes \<Rightarrow> u64 \<Rightarrow> bytes" where
  "pair_to_key txid vout = txid @ uint64_to_vector_big_endian vout"

subsection \<open>SpentSet\<close>

definition add_spent_utxo :: "bytes \<Rightarrow> utxo \<Rightarrow> (bytes \<times> utxo) list \<Rightarrow> bool \<times> (bytes \<times> utxo) list" where
  "add_spent_utxo key r sp =
     (if map_of sp key \<noteq> None then (False, sp) else (True, AList.update key r sp))"

definition get_spent_utxo :: "bytes \<Rightarrow> (bytes \<times> utxo) list \<Rightarrow> utxo option" where
  "get_spent_utxo key sp = map_of sp key"

definition remove_spent_utxo :: "bytes \<Rightarrow> (bytes \<times> utxo) list \<Rightarrow> bool \<times> (bytes \<times> utxo) list" where
  "remove_spent_utxo key sp =
     (if map_of sp key = None then (False, sp) else (True, AList.delete key sp))"

interpretation spent_set: keyed_store map_of add_spent_utxo remove_spent_utxo
  by unfold_locales
     (auto simp: add_spent_utxo_def remove_spent_utxo_def update_conv' delete_conv' fun_eq_iff)

subsection \<open>Lookups\<close>

definition utxo_exists :: "chainstate \<Rightarrow> bytes \<Rightarrow> u64 \<Rightarrow> bool" where
  "utxo_exists cs txid vout \<longleftrightarrow> map_of (storage cs) (pair_to_key txid vout) \<noteq> None"

definition utxo_at :: "chainstate \<Rightarrow> bytes \<Rightarrow> u64 \<Rightarrow> utxo result" where
  "utxo_at cs txid vout =
     (case map_of (storage cs) (pair_to_key txid vout) of None \<Rightarrow> Inl Out_of_range | Some r \<Rightarrow> Inr r)"

definition utxo_height :: "chainstate \<Rightarrow> bytes \<Rightarrow> u64 \<Rightarrow> u32 result" where
  "utxo_height cs txid vout = map_sum id u_height (utxo_at cs txid vout)"

definition utxo_coinbase :: "chainstate \<Rightarrow> bytes \<Rightarrow> u64 \<Rightarrow> bool result" where
  "utxo_coinbase cs txid vout = map_sum id u_coinbase (utxo_at cs txid vout)"

definition utxo_amount :: "chainstate \<Rightarrow> bytes \<Rightarrow> u64 \<Rightarrow> u64 result" where
  "utxo_amount cs txid vout = map_sum id u_amount (utxo_at cs txid vout)"

definition utxo_pubkey :: "chainstate \<Rightarrow> bytes \<Rightarrow> u64 \<Rightarrow> bytes result" where
  "utxo_pubkey cs txid vout = map_sum id u_pubkey (utxo_at cs txid vout)"

text \<open>The reader of the key: everything but the last eight bytes, and the index they encode.\<close>

definition key_to_pair :: "bytes \<Rightarrow> (bytes \<times> u64) result" where
  "key_to_pair key =
     (let txid = take (length key - 8) key
      in map_sum id (\<lambda>vout. (txid, vout)) (chars_to_uint64_big_endian (drop (length txid) key)))"

definition filter_by_pubkey :: "bytes \<Rightarrow> chainstate \<Rightarrow> (bytes \<times> u64) list result" where
  "filter_by_pubkey pubkey cs =
     (if length pubkey < crypto_sign_PUBLICKEYBYTES
      then Inl (Undefined ''public key buffer too short'')
      else map_res (key_to_pair \<circ> fst)
             (filter (\<lambda>p. u_pubkey (snd p) = take crypto_sign_PUBLICKEYBYTES pubkey) (storage cs)))"

subsection \<open>Adding and removing one output\<close>

definition add_utxo ::
  "bytes \<Rightarrow> u64 \<Rightarrow> u32 \<Rightarrow> bool \<Rightarrow> u64 \<Rightarrow> bytes \<Rightarrow> chainstate \<Rightarrow> (bool \<times> chainstate) result" where
  "add_utxo txid vout height coinbase amount pubkey cs =
     (let key = pair_to_key txid vout
      in if map_of (storage cs) key \<noteq> None then Inr (False, cs)
         else case UTXORecord height coinbase amount pubkey of Inl e \<Rightarrow> Inl e
         | Inr new_rec \<Rightarrow> Inr (True, cs\<lparr>storage := AList.update key new_rec (storage cs)\<rparr>))"

definition remove_utxo :: "bytes \<Rightarrow> u64 \<Rightarrow> bool \<Rightarrow> chainstate \<Rightarrow> bool \<times> chainstate" where
  "remove_utxo txid vout save_spent cs =
     (let key = pair_to_key txid vout
      in case map_of (storage cs) key of
           None \<Rightarrow> (False, cs)
         | Some r \<Rightarrow>
             (let cs' = cs\<lparr>storage := AList.delete key (storage cs)\<rparr>
              in (True, if save_spent
                        then cs'\<lparr>spent := snd (add_spent_utxo (txid_vout_pair_to_key txid vout) r (spent cs'))\<rparr>
                        else cs')))"

subsection \<open>Whole blocks\<close>

definition txid_of :: "hash_fun \<Rightarrow> tx \<Rightarrow> bytes result" where
  "txid_of gh t = map_sum id fst (TXID gh t)"

text \<open>The loop over the outputs of a transaction; \<open>voutcounter\<close> counts them.\<close>

fun add_outputs :: "hash_fun \<Rightarrow> tx \<Rightarrow> u32 \<Rightarrow> bool \<Rightarrow> u64 \<Rightarrow> tx_output list \<Rightarrow> chainstate \<Rightarrow> chainstate result" where
  "add_outputs gh t height is_cb voutcounter [] cs = Inr cs"
| "add_outputs gh t height is_cb voutcounter (outp # outps) cs =
     (case txid_of gh t of Inl e \<Rightarrow> Inl e
      | Inr txid \<Rightarrow>
          (case add_utxo txid voutcounter height is_cb (out_amount outp) (out_public_key outp) cs of
             Inl e \<Rightarrow> Inl e
           | Inr (_, cs') \<Rightarrow> add_outputs gh t height is_cb (voutcounter + 1) outps cs'))"

definition spend_input :: "tx_input \<Rightarrow> chainstate \<Rightarrow> chainstate result" where
  "spend_input inp cs =
     (case remove_utxo (in_TXID inp) (in_vout inp) True cs of
        (removed, cs') \<Rightarrow> if removed then Inr cs' else Inl Assert_failed)"

fun add_txs :: "hash_fun \<Rightarrow> u32 \<Rightarrow> bool \<Rightarrow> tx list \<Rightarrow> chainstate \<Rightarrow> chainstate result" where
  "add_txs gh height is_cb [] cs = Inr cs"
| "add_txs gh height is_cb (t # ts) cs =
     (case add_outputs gh t height is_cb 0 (tx_outputs t) cs of Inl e \<Rightarrow> Inl e
      | Inr cs1 \<Rightarrow>
          (case (if is_cb then Inr cs1 else fold_res spend_input (tx_inputs t) cs1) of Inl e \<Rightarrow> Inl e
           | Inr cs2 \<Rightarrow> add_txs gh height False ts cs2))"

definition add_block :: "hash_fun \<Rightarrow> tx list \<Rightarrow> u32 \<Rightarrow> chainstate \<Rightarrow> chainstate result" where
  "add_block gh transactions height cs = add_txs gh height True transactions cs"

fun remove_outputs :: "hash_fun \<Rightarrow> tx \<Rightarrow> u64 \<Rightarrow> tx_output list \<Rightarrow> chainstate \<Rightarrow> chainstate result" where
  "remove_outputs gh t voutcounter [] cs = Inr cs"
| "remove_outputs gh t voutcounter (outp # outps) cs =
     (case txid_of gh t of Inl e \<Rightarrow> Inl e
      | Inr txid \<Rightarrow>
          remove_outputs gh t (voutcounter + 1) outps (snd (remove_utxo txid voutcounter False cs)))"

definition unspend_input :: "tx_input \<Rightarrow> chainstate \<Rightarrow> chainstate result" where
  "unspend_input inp cs =
     (case get_spent_utxo (txid_vout_pair_to_key (in_TXID inp) (in_vout inp)) (spent cs) of
        None \<Rightarrow> Inl Assert_failed
      | Some undo_rec \<Rightarrow>
          (case add_utxo (in_TXID inp) (in_vout inp) (u_height undo_rec) (u_coinbase undo_rec)
                  (u_amount undo_rec) (u_pubkey undo_rec) cs of Inl e \<Rightarrow> Inl e
           | Inr (_, cs') \<Rightarrow>
               Inr (cs'\<lparr>spent := snd (remove_spent_utxo
                      (txid_vout_pair_to_key (in_TXID inp) (in_vout inp)) (spent cs'))\<rparr>)))"

fun rewind_txs :: "hash_fun \<Rightarrow> bool \<Rightarrow> tx list \<Rightarrow> chainstate \<Rightarrow> chainstate result" where
  "rewind_txs gh is_cb [] cs = Inr cs"
| "rewind_txs gh is_cb (t # ts) cs =
     (case remove_outputs gh t 0 (tx_outputs t) cs of Inl e \<Rightarrow> Inl e
      | Inr cs1 \<Rightarrow>
          (case (if is_cb then Inr cs1 else fold_res unspend_input (tx_inputs t) cs1) of Inl e \<Rightarrow> Inl e
           | Inr cs2 \<Rightarrow> rewind_txs gh False ts cs2))"

definition rewind_block :: "hash_fun \<Rightarrow> tx list \<Rightarrow> chainstate \<Rightarrow> chainstate result" where
  "rewind_block gh transactions cs = rewind_txs gh True transactions cs"

end
