(* ===== verification/UtxoCorrect.thy ===== *)
theory UtxoCorrect
  imports Chainstate TxCorrect
begin

text \<open>
  What adding and rewinding a block does to the two tables of the chain state, as equations on
  their lookup functions, and the properties that follow: a spent output is gone, undoing a block
  restores the tables, and the key of an output reference is unambiguous.
\<close>

subsection \<open>Keys and records\<close>

lemma keys_agree: "txid_vout_pair_to_key txid vout = pair_to_key txid vout"
  by (simp add: txid_vout_pair_to_key_def pair_to_key_def)

lemma pair_to_key_inject: "pair_to_key t v = pair_to_key t' v' \<longleftrightarrow> t = t' \<and> v = v'"
  using key_inject by (simp add: keys_agree)

definition in_key :: "tx_input \<Rightarrow> bytes" where
  "in_key inp = pair_to_key (in_TXID inp) (in_vout inp)"

definition utxo_wf :: "utxo \<Rightarrow> bool" where
  "utxo_wf r \<longleftrightarrow> length (u_pubkey r) = 32"

lemma utxo_eta: "\<lparr>u_height = u_height r, u_coinbase = u_coinbase r, u_amount = u_amount r,
    u_pubkey = u_pubkey r\<rparr> = r"
  by simp

lemma UTXORecord_wf: "length pk = 32 \<Longrightarrow>
    UTXORecord h c a pk = Inr \<lparr>u_height = h, u_coinbase = c, u_amount = a, u_pubkey = pk\<rparr>"
  by (simp add: UTXORecord_def sodium_sizes)

text \<open>Asking for the id again gives the same id.\<close>

lemma TXID_memo: "TXID gh t = Inr (h, t') \<Longrightarrow> list_all in_signed (tx_inputs t') \<Longrightarrow> TXID gh t' = Inr (h, t')"
  by (auto simp: TXID_def compute_txid_def split: if_splits option.splits sum.splits)

subsection \<open>One output\<close>

lemma add_utxo_fresh:
  assumes "map_of (storage cs) (pair_to_key txid v) = None" and "length pk = 32"
  shows "\<exists>cs'. add_utxo txid v h c a pk cs = Inr (True, cs')
    \<and> map_of (storage cs') = (map_of (storage cs))(pair_to_key txid v \<mapsto>
          \<lparr>u_height = h, u_coinbase = c, u_amount = a, u_pubkey = pk\<rparr>)
    \<and> spent cs' = spent cs"
  using assms by (simp add: add_utxo_def UTXORecord_wf update_conv' Let_def)

lemma remove_utxo_storage:
  "map_of (storage (snd (remove_utxo txid v save cs))) = (map_of (storage cs))(pair_to_key txid v := None)"
  by (auto simp: remove_utxo_def delete_conv' Let_def fun_eq_iff split: option.splits)

lemma remove_utxo_unsaved: "spent (snd (remove_utxo txid v False cs)) = spent cs"
  by (simp add: remove_utxo_def Let_def split: option.splits)

subsection \<open>The outputs of one transaction\<close>

fun created_from :: "bytes \<Rightarrow> u32 \<Rightarrow> bool \<Rightarrow> u64 \<Rightarrow> tx_output list \<Rightarrow> (bytes \<times> utxo) list" where
  "created_from txid h cb n [] = []"
| "created_from txid h cb n (outp # outps) =
     (pair_to_key txid n, \<lparr>u_height = h, u_coinbase = cb, u_amount = out_amount outp,
        u_pubkey = out_public_key outp\<rparr>) # created_from txid h cb (n + 1) outps"

lemma created_wf: "list_all wf_output outps \<Longrightarrow> (k, r) \<in> set (created_from txid h cb n outps) \<Longrightarrow> utxo_wf r"
  by (induction outps arbitrary: n) (auto simp: utxo_wf_def wf_output_def)

lemma created_keys: "map fst (created_from txid h cb n outps) = map fst (created_from txid h' cb' n outps)"
  by (induction outps arbitrary: n) auto

lemma add_outputs_effect:
  assumes "txid_of gh t = Inr txid" and "list_all wf_output outps"
    and "distinct (map fst (created_from txid h cb n outps))"
    and "fst ` set (created_from txid h cb n outps) \<inter> dom (map_of (storage cs)) = {}"
  shows "\<exists>cs'. add_outputs gh t h cb n outps cs = Inr cs'
    \<and> map_of (storage cs') = map_of (storage cs) ++ map_of (created_from txid h cb n outps)
    \<and> spent cs' = spent cs"
  using assms(2-4)
proof (induction outps arbitrary: n cs)
  case (Cons outp outps)
  let ?k = "pair_to_key txid n"
  from Cons.prems have fresh: "map_of (storage cs) ?k = None" by (auto simp: domIff)
  moreover from Cons.prems have "length (out_public_key outp) = 32" by (simp add: wf_output_def)
  ultimately obtain cs1 where cs1: "add_utxo txid n h cb (out_amount outp) (out_public_key outp) cs = Inr (True, cs1)"
      "map_of (storage cs1) = (map_of (storage cs))(?k \<mapsto> \<lparr>u_height = h, u_coinbase = cb,
          u_amount = out_amount outp, u_pubkey = out_public_key outp\<rparr>)" "spent cs1 = spent cs"
    using add_utxo_fresh by blast
  have "dom (map_of (storage cs1)) = insert ?k (dom (map_of (storage cs)))" by (simp add: cs1(2))
  with Cons.prems have "fst ` set (created_from txid h cb (n + 1) outps) \<inter> dom (map_of (storage cs1)) = {}"
    by auto
  with Cons.prems obtain cs' where cs': "add_outputs gh t h cb (n + 1) outps cs1 = Inr cs'"
      "map_of (storage cs') = map_of (storage cs1) ++ map_of (created_from txid h cb (n + 1) outps)"
      "spent cs' = spent cs1"
    using Cons.IH [of "n + 1" cs1] by auto
  moreover have "map_of (created_from txid h cb (n + 1) outps) ?k = None"
    using Cons.prems(2) by (simp add: map_of_eq_None_iff)
  ultimately show ?case
    using assms(1) cs1 by (auto simp: fun_eq_iff map_add_def split: option.splits)
qed simp

lemma remove_outputs_effect:
  assumes "txid_of gh t = Inr txid"
  shows "\<exists>cs'. remove_outputs gh t n outps cs = Inr cs'
    \<and> map_of (storage cs') = map_of (storage cs) |` (- fst ` set (created_from txid h cb n outps))
    \<and> spent cs' = spent cs"
proof (induction outps arbitrary: n cs)
  case (Cons outp outps)
  let ?cs1 = "snd (remove_utxo txid n False cs)"
  from Cons.IH [of "n + 1" ?cs1] obtain cs' where
    "remove_outputs gh t (n + 1) outps ?cs1 = Inr cs'"
    "map_of (storage cs') = map_of (storage ?cs1) |` (- fst ` set (created_from txid h cb (n + 1) outps))"
    "spent cs' = spent ?cs1" by blast
  with assms show ?case
    by (auto simp: remove_utxo_storage remove_utxo_unsaved restrict_map_def fun_eq_iff)
qed (simp add: restrict_map_def)

subsection \<open>The inputs of one transaction\<close>

lemma spend_inputs_effect:
  assumes "distinct (map in_key ins)" and "in_key ` set ins \<subseteq> dom (map_of (storage cs))"
    and "in_key ` set ins \<inter> dom (map_of (spent cs)) = {}"
  shows "\<exists>cs'. fold_res spend_input ins cs = Inr cs'
    \<and> map_of (storage cs') = map_of (storage cs) |` (- in_key ` set ins)
    \<and> map_of (spent cs') = map_of (spent cs) ++ (map_of (storage cs) |` (in_key ` set ins))"
  using assms
proof (induction ins arbitrary: cs)
  case (Cons i ins)
  have new: "in_key x \<noteq> in_key i" if "x \<in> set ins" for x
    using that Cons.prems(1) by (metis distinct.simps(2) image_eqI image_set list.simps(9))
  from Cons.prems(2) obtain r where r: "map_of (storage cs) (in_key i) = Some r" by auto
  let ?cs1 = "cs\<lparr>storage := AList.delete (in_key i) (storage cs),
                 spent := snd (add_spent_utxo (in_key i) r (spent cs))\<rparr>"
  have step: "spend_input i cs = Inr ?cs1"
    using r by (simp add: spend_input_def remove_utxo_def keys_agree Let_def flip: in_key_def)
  have S: "map_of (storage ?cs1) = (map_of (storage cs))(in_key i := None)"
    by (simp add: delete_conv')
  have P: "map_of (spent ?cs1) = (map_of (spent cs))(in_key i \<mapsto> r)"
    using Cons.prems(3) by (auto simp: spent_set.insert_lookup domIff)
  from Cons.prems have "in_key ` set ins \<subseteq> dom (map_of (storage ?cs1))"
    "in_key ` set ins \<inter> dom (map_of (spent ?cs1)) = {}" "distinct (map in_key ins)"
    unfolding S P by (auto dest: new)
  from Cons.IH [OF this(3,1,2)] obtain cs' where
    "fold_res spend_input ins ?cs1 = Inr cs'"
    "map_of (storage cs') = map_of (storage ?cs1) |` (- in_key ` set ins)"
    "map_of (spent cs') = map_of (spent ?cs1) ++ (map_of (storage ?cs1) |` (in_key ` set ins))" by blast
  with new show ?case
    using step r unfolding S P
    by (auto simp: fun_eq_iff restrict_map_def map_add_def split: option.splits)
qed (simp add: restrict_map_def fun_eq_iff map_add_def)

lemma unspend_inputs_effect:
  assumes "distinct (map in_key ins)" and "in_key ` set ins \<subseteq> dom (map_of (spent cs))"
    and "in_key ` set ins \<inter> dom (map_of (storage cs)) = {}"
    and "\<And>k r. k \<in> in_key ` set ins \<Longrightarrow> map_of (spent cs) k = Some r \<Longrightarrow> utxo_wf r"
  shows "\<exists>cs'. fold_res unspend_input ins cs = Inr cs'
    \<and> map_of (storage cs') = map_of (storage cs) ++ (map_of (spent cs) |` (in_key ` set ins))
    \<and> map_of (spent cs') = map_of (spent cs) |` (- in_key ` set ins)"
  using assms
proof (induction ins arbitrary: cs)
  case (Cons i ins)
  have new: "in_key x \<noteq> in_key i" if "x \<in> set ins" for x
    using that Cons.prems(1) by (metis distinct.simps(2) image_eqI image_set list.simps(9))
  from Cons.prems(2) obtain r where r: "map_of (spent cs) (in_key i) = Some r" by auto
  with Cons.prems(4) have "utxo_wf r" by auto
  then obtain csa where csa: "add_utxo (in_TXID i) (in_vout i) (u_height r) (u_coinbase r)
        (u_amount r) (u_pubkey r) cs = Inr (True, csa)"
      "map_of (storage csa) = (map_of (storage cs))(in_key i \<mapsto> r)" "spent csa = spent cs"
    using add_utxo_fresh [of cs "in_TXID i" "in_vout i" "u_pubkey r" "u_height r" "u_coinbase r" "u_amount r"]
      Cons.prems(3) by (auto simp: utxo_wf_def in_key_def domIff utxo_eta)
  obtain cs1 where step: "unspend_input i cs = Inr cs1"
      and S: "map_of (storage cs1) = (map_of (storage cs))(in_key i \<mapsto> r)"
      and P: "map_of (spent cs1) = (map_of (spent cs))(in_key i := None)"
    using r csa
    by (simp add: unspend_input_def get_spent_utxo_def keys_agree spent_set.remove_lookup flip: in_key_def)
  from Cons.prems have pre: "distinct (map in_key ins)"
    "in_key ` set ins \<subseteq> dom (map_of (spent cs1))"
    "in_key ` set ins \<inter> dom (map_of (storage cs1)) = {}"
    unfolding S P by (auto dest: new)
  have wf: "utxo_wf r'" if "k \<in> in_key ` set ins" "map_of (spent cs1) k = Some r'" for k r'
    using that Cons.prems(4) [of k r'] unfolding P by (auto split: if_splits)
  obtain cs' where
    "fold_res unspend_input ins cs1 = Inr cs'"
    "map_of (storage cs') = map_of (storage cs1) ++ (map_of (spent cs1) |` (in_key ` set ins))"
    "map_of (spent cs') = map_of (spent cs1) |` (- in_key ` set ins)"
    using Cons.IH [OF pre] wf by blast
  with new show ?case
    using step r unfolding S P
    by (auto simp: fun_eq_iff restrict_map_def map_add_def split: option.splits)
qed (simp add: restrict_map_def fun_eq_iff map_add_def)

subsection \<open>Whole blocks\<close>

definition the_txid :: "hash_fun \<Rightarrow> tx \<Rightarrow> bytes" where
  "the_txid gh t = (case txid_of gh t of Inl _ \<Rightarrow> [] | Inr txid \<Rightarrow> txid)"

text \<open>The outputs a list of transactions creates; only the first may be a coinbase.\<close>

fun block_created :: "hash_fun \<Rightarrow> u32 \<Rightarrow> bool \<Rightarrow> tx list \<Rightarrow> (bytes \<times> utxo) list" where
  "block_created gh h cb [] = []"
| "block_created gh h cb (t # ts) =
     created_from (the_txid gh t) h cb 0 (tx_outputs t) @ block_created gh h False ts"

text \<open>The inputs it spends: those of every transaction but a coinbase.\<close>

fun block_spends :: "bool \<Rightarrow> tx list \<Rightarrow> tx_input list" where
  "block_spends cb [] = []"
| "block_spends cb (t # ts) = (if cb then [] else tx_inputs t) @ block_spends False ts"

abbreviation created_keys_of :: "hash_fun \<Rightarrow> tx list \<Rightarrow> bytes set" where
  "created_keys_of gh ts \<equiv> fst ` set (block_created gh 0 False ts)"

lemma block_created_keys: "map fst (block_created gh h cb ts) = map fst (block_created gh h' cb' ts)"
proof (induction ts arbitrary: cb cb')
  case (Cons t ts)
  show ?case
    using created_keys [of "the_txid gh t" h cb 0 "tx_outputs t" h' cb'] Cons.IH [of False False] by simp
qed simp

lemma block_created_key_set: "fst ` set (block_created gh h cb ts) = created_keys_of gh ts"
  using arg_cong [OF block_created_keys [of gh h cb ts 0 False], of set] by simp

text \<open>
  What a block must satisfy for the chain state to take it: its ids are defined, its outputs are
  new, and its inputs are unspent outputs, each spent once.
\<close>

definition identified :: "hash_fun \<Rightarrow> tx list \<Rightarrow> bool" where
  "identified gh ts \<longleftrightarrow> list_all (\<lambda>t. (\<exists>txid. txid_of gh t = Inr txid) \<and> list_all wf_output (tx_outputs t)) ts"

definition fits :: "hash_fun \<Rightarrow> bool \<Rightarrow> tx list \<Rightarrow> chainstate \<Rightarrow> bool" where
  "fits gh cb ts cs \<longleftrightarrow> identified gh ts
     \<and> distinct (map fst (block_created gh 0 False ts))
     \<and> created_keys_of gh ts \<inter> dom (map_of (storage cs)) = {}
     \<and> distinct (map in_key (block_spends cb ts))
     \<and> in_key ` set (block_spends cb ts) \<subseteq> dom (map_of (storage cs))
     \<and> in_key ` set (block_spends cb ts) \<inter> dom (map_of (spent cs)) = {}"

definition records_wf :: "chainstate \<Rightarrow> bool" where
  "records_wf cs \<longleftrightarrow> (\<forall>k r. map_of (storage cs) k = Some r \<longrightarrow> utxo_wf r)"

lemma storage_step:
  assumes "dom C1 \<inter> dom C2 = {}" and "K1 \<inter> dom C2 = {}"
  shows "(((S ++ C1) |` (- K1)) ++ C2) |` (- K2) = (S ++ (C2 ++ C1)) |` (- (K1 \<union> K2))"
proof
  fix k
  show "((((S ++ C1) |` (- K1)) ++ C2) |` (- K2)) k = ((S ++ (C2 ++ C1)) |` (- (K1 \<union> K2))) k"
    using assms by (cases "C1 k"; cases "C2 k") (auto simp: restrict_map_def map_add_def)
qed

lemma spent_step:
  assumes "(K1 \<union> K2) \<inter> dom C1 = {}" and "K1 \<inter> K2 = {}"
  shows "(P ++ ((S ++ C1) |` K1)) ++ (((S ++ C1) |` (- K1)) |` K2) = P ++ (S |` (K1 \<union> K2))"
proof
  fix k
  show "((P ++ ((S ++ C1) |` K1)) ++ (((S ++ C1) |` (- K1)) |` K2)) k = (P ++ (S |` (K1 \<union> K2))) k"
    using assms by (cases "C1 k"; cases "S k") (auto simp: restrict_map_def map_add_def)
qed

lemma add_txs_effect:
  assumes "fits gh cb ts cs"
  shows "\<exists>cs'. add_txs gh h cb ts cs = Inr cs'
    \<and> map_of (storage cs') = (map_of (storage cs) ++ map_of (block_created gh h cb ts))
         |` (- in_key ` set (block_spends cb ts))
    \<and> map_of (spent cs') = map_of (spent cs) ++ (map_of (storage cs) |` (in_key ` set (block_spends cb ts)))"
  using assms
proof (induction ts arbitrary: cb cs)
  case (Cons t ts)
  let ?C1 = "created_from (the_txid gh t) h cb 0 (tx_outputs t)"
  let ?C2 = "block_created gh h False ts"
  let ?I1 = "if cb then [] else tx_inputs t" and ?I2 = "block_spends False ts"
  from Cons.prems obtain txid where id: "txid_of gh t = Inr txid" and ot: "list_all wf_output (tx_outputs t)"
    by (auto simp: fits_def identified_def)
  have the: "the_txid gh t = txid" by (simp add: the_txid_def id)
  have keys: "fst ` set ?C1 \<union> fst ` set ?C2 = created_keys_of gh (t # ts)"
    using block_created_key_set [of gh h cb "t # ts"] by (simp add: image_Un)
  have "distinct (map fst (block_created gh h cb (t # ts)))"
    using Cons.prems block_created_keys [of gh h cb "t # ts" 0 False] by (simp only: fits_def)
  then have dC: "distinct (map fst ?C1)" "fst ` set ?C1 \<inter> fst ` set ?C2 = {}"
    "distinct (map fst ?C2)" by (auto simp: image_iff)
  have fresh: "(fst ` set ?C1 \<union> fst ` set ?C2) \<inter> dom (map_of (storage cs)) = {}"
    using Cons.prems unfolding keys by (simp only: fits_def)
  have dI: "distinct (map in_key ?I1)" "distinct (map in_key ?I2)" "in_key ` set ?I1 \<inter> in_key ` set ?I2 = {}"
    and sI: "in_key ` set ?I1 \<union> in_key ` set ?I2 \<subseteq> dom (map_of (storage cs))"
    and nI: "(in_key ` set ?I1 \<union> in_key ` set ?I2) \<inter> dom (map_of (spent cs)) = {}"
    using Cons.prems by (auto simp: fits_def image_Un)
  obtain cs1 where a1: "add_outputs gh t h cb 0 (tx_outputs t) cs = Inr cs1"
      and S1: "map_of (storage cs1) = map_of (storage cs) ++ map_of ?C1" and P1: "spent cs1 = spent cs"
    using add_outputs_effect [OF id ot, where h = h and cb = cb and n = 0 and cs = cs] dC(1) fresh unfolding the by auto
  have "in_key ` set ?I1 \<subseteq> dom (map_of (storage cs1))" unfolding S1 dom_map_add using sI by blast
  moreover have "in_key ` set ?I1 \<inter> dom (map_of (spent cs1)) = {}" unfolding P1 using nI by blast
  ultimately obtain cs2 where a2: "fold_res spend_input ?I1 cs1 = Inr cs2"
      and S2: "map_of (storage cs2) = map_of (storage cs1) |` (- in_key ` set ?I1)"
      and P2: "map_of (spent cs2) = map_of (spent cs1) ++ (map_of (storage cs1) |` (in_key ` set ?I1))"
    using spend_inputs_effect [OF dI(1), of cs1] by blast
  have "fits gh False ts cs2"
    unfolding fits_def
  proof (intro conjI)
    show "identified gh ts" using Cons.prems by (simp add: fits_def identified_def)
    show "distinct (map fst (block_created gh 0 False ts))"
      using dC(3) block_created_keys [of gh h False ts 0 False] by simp
    show "created_keys_of gh ts \<inter> dom (map_of (storage cs2)) = {}"
      using fresh dC(2) unfolding S2 S1 block_created_key_set [of gh h False ts] dom_restrict dom_map_add
        dom_map_of_conv_image_fst [of ?C1] by blast
    show "in_key ` set ?I2 \<subseteq> dom (map_of (storage cs2))"
      using sI dI(3) unfolding S2 S1 dom_restrict dom_map_add by blast
    show "in_key ` set ?I2 \<inter> dom (map_of (spent cs2)) = {}"
      using nI dI(3) unfolding P2 P1 dom_restrict dom_map_add by blast
  qed (rule dI(2))
  then obtain cs' where "add_txs gh h False ts cs2 = Inr cs'"
      and S': "map_of (storage cs') = (map_of (storage cs2) ++ map_of ?C2) |` (- in_key ` set ?I2)"
      and P': "map_of (spent cs') = map_of (spent cs2) ++ (map_of (storage cs2) |` (in_key ` set ?I2))"
    using Cons.IH by blast
  moreover have "(if cb then Inr cs1 else fold_res spend_input (tx_inputs t) cs1) = Inr cs2"
    using a2 by (cases cb) simp_all
  ultimately have "add_txs gh h cb (t # ts) cs = Inr cs'" using a1 by simp
  moreover have "map_of (storage cs') = (map_of (storage cs) ++ map_of (?C1 @ ?C2))
      |` (- (in_key ` set ?I1 \<union> in_key ` set ?I2))"
  proof -
    have "dom (map_of ?C1) \<inter> dom (map_of ?C2) = {}"
      using dC(2) unfolding dom_map_of_conv_image_fst .
    moreover have "in_key ` set ?I1 \<inter> dom (map_of ?C2) = {}"
      using fresh sI unfolding dom_map_of_conv_image_fst [of ?C2] by blast
    ultimately show ?thesis
      unfolding S' S2 S1 map_of_append by (rule storage_step)
  qed
  moreover have "map_of (spent cs') = map_of (spent cs)
      ++ (map_of (storage cs) |` (in_key ` set ?I1 \<union> in_key ` set ?I2))"
  proof -
    have "(in_key ` set ?I1 \<union> in_key ` set ?I2) \<inter> dom (map_of ?C1) = {}"
      using fresh sI unfolding dom_map_of_conv_image_fst [of ?C1] by blast
    from spent_step [OF this dI(3)] show ?thesis unfolding P' P2 P1 S2 S1 .
  qed
  ultimately show ?case
    unfolding block_created.simps block_spends.simps set_append image_Un by (intro exI [of _ cs'] conjI)
qed (simp add: restrict_map_def fun_eq_iff map_add_def)

definition undoable :: "hash_fun \<Rightarrow> bool \<Rightarrow> tx list \<Rightarrow> chainstate \<Rightarrow> bool" where
  "undoable gh cb ts cs \<longleftrightarrow> identified gh ts
     \<and> distinct (map in_key (block_spends cb ts))
     \<and> in_key ` set (block_spends cb ts) \<subseteq> dom (map_of (spent cs))
     \<and> in_key ` set (block_spends cb ts) \<inter> (dom (map_of (storage cs)) \<union> created_keys_of gh ts) = {}
     \<and> (\<forall>k r. k \<in> in_key ` set (block_spends cb ts) \<longrightarrow> map_of (spent cs) k = Some r \<longrightarrow> utxo_wf r)"

lemma unstorage_step:
  assumes "K1 \<inter> K2 = {}" and "(K1 \<union> K2) \<inter> (C1 \<union> C2) = {}"
  shows "(((S |` (- C1)) ++ (P |` K1)) |` (- C2)) ++ ((P |` (- K1)) |` K2)
    = (S |` (- (C1 \<union> C2))) ++ (P |` (K1 \<union> K2))"
proof
  fix k
  show "((((S |` (- C1)) ++ (P |` K1)) |` (- C2)) ++ ((P |` (- K1)) |` K2)) k
    = ((S |` (- (C1 \<union> C2))) ++ (P |` (K1 \<union> K2))) k"
    using assms by (cases "k \<in> K1"; cases "k \<in> K2"; cases "P k") (auto simp: restrict_map_def map_add_def)
qed

lemma rewind_txs_effect:
  assumes "undoable gh cb ts cs"
  shows "\<exists>cs'. rewind_txs gh cb ts cs = Inr cs'
    \<and> map_of (storage cs') = (map_of (storage cs) |` (- created_keys_of gh ts))
         ++ (map_of (spent cs) |` (in_key ` set (block_spends cb ts)))
    \<and> map_of (spent cs') = map_of (spent cs) |` (- in_key ` set (block_spends cb ts))"
  using assms
proof (induction ts arbitrary: cb cs)
  case (Cons t ts)
  let ?C1 = "fst ` set (created_from (the_txid gh t) 0 False 0 (tx_outputs t))"
  let ?C2 = "created_keys_of gh ts"
  let ?I1 = "if cb then [] else tx_inputs t" and ?I2 = "block_spends False ts"
  from Cons.prems obtain txid where id: "txid_of gh t = Inr txid"
    by (auto simp: undoable_def identified_def)
  have the: "the_txid gh t = txid" by (simp add: the_txid_def id)
  have keys: "created_keys_of gh (t # ts) = ?C1 \<union> ?C2" by (simp add: image_Un)
  have spends: "in_key ` set (block_spends cb (t # ts)) = in_key ` set ?I1 \<union> in_key ` set ?I2"
    by (simp add: image_Un)
  have dI: "distinct (map in_key ?I1)" "distinct (map in_key ?I2)" "in_key ` set ?I1 \<inter> in_key ` set ?I2 = {}"
    using Cons.prems by (auto simp: undoable_def)
  have sI: "in_key ` set ?I1 \<union> in_key ` set ?I2 \<subseteq> dom (map_of (spent cs))"
    and nI: "(in_key ` set ?I1 \<union> in_key ` set ?I2) \<inter> (dom (map_of (storage cs)) \<union> (?C1 \<union> ?C2)) = {}"
    and W: "\<forall>k r. k \<in> in_key ` set ?I1 \<union> in_key ` set ?I2 \<longrightarrow> map_of (spent cs) k = Some r \<longrightarrow> utxo_wf r"
    using Cons.prems by (simp_all only: undoable_def keys spends, elim conjE)
  from W have wf: "\<And>k r. k \<in> in_key ` set ?I1 \<union> in_key ` set ?I2 \<Longrightarrow> map_of (spent cs) k = Some r \<Longrightarrow> utxo_wf r"
    by blast
  obtain cs1 where a1: "remove_outputs gh t 0 (tx_outputs t) cs = Inr cs1"
      and S1: "map_of (storage cs1) = map_of (storage cs) |` (- ?C1)" and P1: "spent cs1 = spent cs"
    using remove_outputs_effect [OF id, of 0 "tx_outputs t" cs 0 False] unfolding the by blast
  have pre: "in_key ` set ?I1 \<subseteq> dom (map_of (spent cs1))"
    "in_key ` set ?I1 \<inter> dom (map_of (storage cs1)) = {}"
    using sI nI unfolding S1 P1 dom_restrict by blast+
  obtain cs2 where a2: "fold_res unspend_input ?I1 cs1 = Inr cs2"
      and S2: "map_of (storage cs2) = map_of (storage cs1) ++ (map_of (spent cs1) |` (in_key ` set ?I1))"
      and P2: "map_of (spent cs2) = map_of (spent cs1) |` (- in_key ` set ?I1)"
    using unspend_inputs_effect [OF dI(1) pre] wf unfolding P1 by blast
  have "undoable gh False ts cs2"
    unfolding undoable_def
  proof (intro conjI allI impI)
    show "identified gh ts" using Cons.prems by (simp add: undoable_def identified_def)
    show "in_key ` set ?I2 \<subseteq> dom (map_of (spent cs2))"
      using sI dI(3) unfolding P2 P1 dom_restrict by blast
    show "in_key ` set ?I2 \<inter> (dom (map_of (storage cs2)) \<union> created_keys_of gh ts) = {}"
      using nI dI(3) unfolding S2 S1 P1 dom_restrict dom_map_add by blast
    show "utxo_wf r" if "k \<in> in_key ` set ?I2" "map_of (spent cs2) k = Some r" for k r
      using that wf [of k r] unfolding P2 P1 restrict_map_def by (auto split: if_splits)
  qed (rule dI(2))
  then obtain cs' where a3: "rewind_txs gh False ts cs2 = Inr cs'"
      and S': "map_of (storage cs') = (map_of (storage cs2) |` (- ?C2)) ++ (map_of (spent cs2) |` (in_key ` set ?I2))"
      and P': "map_of (spent cs') = map_of (spent cs2) |` (- in_key ` set ?I2)"
    using Cons.IH by blast
  have "(if cb then Inr cs1 else fold_res unspend_input (tx_inputs t) cs1) = Inr cs2"
    using a2 by (cases cb) simp_all
  then have "rewind_txs gh cb (t # ts) cs = Inr cs'" using a1 a3 by simp
  moreover have "map_of (storage cs') = (map_of (storage cs) |` (- (?C1 \<union> ?C2)))
      ++ (map_of (spent cs) |` (in_key ` set ?I1 \<union> in_key ` set ?I2))"
    unfolding S' S2 S1 P2 P1 by (rule unstorage_step) (use dI(3) nI in blast)+
  moreover have "map_of (spent cs') = map_of (spent cs) |` (- (in_key ` set ?I1 \<union> in_key ` set ?I2))"
    unfolding P' P2 P1 by (simp add: Compl_Un)
  ultimately show ?case
    unfolding keys spends by (intro exI [of _ cs'] conjI)
qed (simp add: restrict_map_def fun_eq_iff map_add_def)

subsection \<open>Properties\<close>


definition sample_block :: "tx list" where
  "sample_block = [\<lparr>tx_inputs = [], tx_outputs = [sample_output 50], tx_id_cache = Some (replicate 32 1)\<rparr>,
                   sample_tx\<lparr>tx_id_cache := Some (replicate 32 2)\<rparr>]"

definition sample_chainstate :: chainstate where
  "sample_chainstate = \<lparr>storage = [(pair_to_key (replicate 32 7) 1,
     \<lparr>u_height = 3, u_coinbase = False, u_amount = 50, u_pubkey = replicate 32 5\<rparr>)], spent = []\<rparr>"

lemma sample_fits: "fits (\<lambda>x. x) True sample_block sample_chainstate"
  by (simp add: fits_def identified_def sample_block_def sample_chainstate_def sample_defs txid_of_def
      TXID_def the_txid_def in_key_def pair_to_key_inject wf_output_def replicate_eq_replicate)




text \<open>The reader of a key inverts its writer, whatever the length of the id.\<close>

lemma key_to_pair_roundtrip: "key_to_pair (pair_to_key t v) = Inr (t, v)"
  by (simp add: key_to_pair_def pair_to_key_def codec_lengths uint64.dec_enc_exact)

text \<open>\<open>filter_by_pubkey\<close> lists exactly the references of the unspent outputs that pay to the
  key, for the wallet to collect its coins.\<close>

theorem filter_by_pubkey_exact:
  assumes "length pk = 32" and "distinct (map fst (storage cs))"
    and "\<forall>k\<in>set (map fst (storage cs)). \<exists>t v. k = pair_to_key t v"
  shows "\<exists>l. filter_by_pubkey pk cs = Inr l
    \<and> (\<forall>t v. (t, v) \<in> set l \<longleftrightarrow> utxo_pubkey cs t v = Inr pk)"
proof -
  let ?sel = "filter (\<lambda>p. u_pubkey (snd p) = pk) (storage cs)"
  let ?ref = "\<lambda>p :: bytes \<times> utxo. case key_to_pair (fst p) of Inr r \<Rightarrow> r"
  have ref: "(key_to_pair \<circ> fst) p = Inr (?ref p)" "pair_to_key (fst (?ref p)) (snd (?ref p)) = fst p"
    if "p \<in> set (storage cs)" for p
    using that assms(3) by (force simp: key_to_pair_roundtrip)+
  have "map_res (key_to_pair \<circ> fst) ?sel = Inr (map ?ref ?sel)"
    by (rule map_res_total) (use ref(1) in auto)
  then have "filter_by_pubkey pk cs = Inr (map ?ref ?sel)"
    using assms(1) by (simp add: filter_by_pubkey_def sodium_sizes)
  moreover have "(t, v) \<in> set (map ?ref ?sel) \<longleftrightarrow> utxo_pubkey cs t v = Inr pk" for t v
  proof -
    have "(t, v) \<in> set (map ?ref ?sel) \<longleftrightarrow>
        (\<exists>r. (pair_to_key t v, r) \<in> set (storage cs) \<and> u_pubkey r = pk)"
    proof
      assume "(t, v) \<in> set (map ?ref ?sel)"
      then obtain q where q: "q \<in> set (storage cs)" "u_pubkey (snd q) = pk" "?ref q = (t, v)"
        by auto
      with ref(2) [OF q(1)] have "(pair_to_key t v, snd q) = q" by (simp add: prod_eq_iff)
      with q show "\<exists>r. (pair_to_key t v, r) \<in> set (storage cs) \<and> u_pubkey r = pk" by metis
    next
      assume "\<exists>r. (pair_to_key t v, r) \<in> set (storage cs) \<and> u_pubkey r = pk"
      then show "(t, v) \<in> set (map ?ref ?sel)"
        by (force simp: key_to_pair_roundtrip image_iff)
    qed
    also have "\<dots> \<longleftrightarrow> (\<exists>r. map_of (storage cs) (pair_to_key t v) = Some r \<and> u_pubkey r = pk)"
      by (simp add: map_of_eq_Some_iff [OF assms(2)])
    finally show ?thesis
      by (auto simp: utxo_pubkey_def utxo_at_def split: option.splits)
  qed
  ultimately show ?thesis by blast
qed

theorem filter_by_pubkey_exact_witness:
  "\<exists>l. filter_by_pubkey (replicate 32 5) sample_chainstate = Inr l
    \<and> (\<forall>t v. (t, v) \<in> set l \<longleftrightarrow> utxo_pubkey sample_chainstate t v = Inr (replicate 32 5))"
  by (rule filter_by_pubkey_exact) (auto simp: sample_chainstate_def)

end
