(* ===== verification/Mempool.thy ===== *)
theory Mempool
  imports Chainstate "HOL-Library.List_Lexorder"
begin

text \<open>
  \<^verbatim>\<open>src/src/store/mem_pool.cpp\<close>: the valid transactions that wait for a block, ordered by fee.

  The \<open>std::set\<close> of fee keys, whose order is \<open>v1 > v2\<close> on byte vectors, is the list of its
  elements from the greatest down; the two hash maps are association lists.  Shared pointers to
  transactions appear as the transactions they point to; the one comparison of pointers, in
  \<open>spend_tx\<close>, is a parameter.  An exception in the middle of an operation loses the state in the
  model; \<open>fee\<close> is the only call that can throw after a change, and every caller has validated the
  transaction, so that its fee is defined.
\<close>

record mempool =
  tx_set :: "bytes list"
  tx_storage :: "(bytes \<times> tx) list"
  utxo_ref :: "(bytes \<times> tx list) list"

definition empty_mempool :: mempool where
  "empty_mempool = \<lparr>tx_set = [], tx_storage = [], utxo_ref = []\<rparr>"

subsection \<open>Fee keys\<close>

definition concat_txid_fee_pair :: "bytes \<Rightarrow> u64 \<Rightarrow> bytes" where
  "concat_txid_fee_pair txid f = uint64_to_vector_big_endian f @ txid"

definition txid_from_pair :: "bytes \<Rightarrow> bytes" where
  "txid_from_pair concat_pair = drop 8 concat_pair"

text \<open>\<open>insert\<close> and \<open>erase\<close> of the ordered set.\<close>

fun ordset_insert :: "bytes \<Rightarrow> bytes list \<Rightarrow> bytes list" where
  "ordset_insert x [] = [x]"
| "ordset_insert x (y # ys) =
     (if x = y then y # ys else if x > y then x # y # ys else y # ordset_insert x ys)"

definition ordset_erase :: "bytes \<Rightarrow> bytes list \<Rightarrow> bytes list" where
  "ordset_erase x ys = removeAll x ys"

subsection \<open>Adding a transaction\<close>

definition out_hash :: "hash_fun \<Rightarrow> tx_output \<Rightarrow> bytes result" where
  "out_hash gh outp = map_sum id fst (output_hash gh False outp)"

fun add_refs :: "hash_fun \<Rightarrow> tx \<Rightarrow> tx_output list \<Rightarrow> (bytes \<times> tx list) list \<Rightarrow> (bytes \<times> tx list) list result" where
  "add_refs gh t [] refs = Inr refs"
| "add_refs gh t (outp # outps) refs =
     (case out_hash gh outp of Inl e \<Rightarrow> Inl e
      | Inr utxo_key \<Rightarrow>
          add_refs gh t outps
            (case map_of refs utxo_key of
               None \<Rightarrow> AList.update utxo_key [t] refs
             | Some record \<Rightarrow> AList.update utxo_key (record @ [t]) refs))"

definition add_valid_tx :: "hash_fun \<Rightarrow> tx \<Rightarrow> mempool \<Rightarrow> (bool \<times> mempool) result" where
  "add_valid_tx gh t p =
     (case txid_of gh t of Inl e \<Rightarrow> Inl e
      | Inr txid \<Rightarrow>
          if map_of (tx_storage p) txid \<noteq> None then Inr (False, p)
          else case fee t of Inl e \<Rightarrow> Inl e
          | Inr f \<Rightarrow>
              (case add_refs gh t (tx_outputs t) (utxo_ref p) of Inl e \<Rightarrow> Inl e
               | Inr refs \<Rightarrow>
                   Inr (True, \<lparr>tx_set = ordset_insert (concat_txid_fee_pair txid f) (tx_set p),
                               tx_storage = AList.update txid t (tx_storage p),
                               utxo_ref = refs\<rparr>)))"

subsection \<open>Removing a transaction\<close>

text \<open>The search of \<open>remove_tx\<close> for the transaction in a record, by \<open>operator==\<close>, and its removal.\<close>

fun erase_equal :: "hash_fun \<Rightarrow> tx \<Rightarrow> tx list \<Rightarrow> tx list result" where
  "erase_equal gh t [] = Inl Assert_failed"
| "erase_equal gh t (x # xs) =
     (case tx_equals gh x t of Inl e \<Rightarrow> Inl e
      | Inr (eq, _, _) \<Rightarrow>
          if eq then Inr xs
          else case erase_equal gh t xs of Inl e \<Rightarrow> Inl e | Inr xs' \<Rightarrow> Inr (x # xs'))"

fun remove_refs :: "hash_fun \<Rightarrow> tx \<Rightarrow> tx_output list \<Rightarrow> (bytes \<times> tx list) list \<Rightarrow> (bytes \<times> tx list) list result" where
  "remove_refs gh t [] refs = Inr refs"
| "remove_refs gh t (outp # outps) refs =
     (case out_hash gh outp of Inl e \<Rightarrow> Inl e
      | Inr utxo_key \<Rightarrow>
          (case map_of refs utxo_key of
             None \<Rightarrow> Inl Assert_failed
           | Some record \<Rightarrow>
               if length record = 1 then remove_refs gh t outps (AList.delete utxo_key refs)
               else case erase_equal gh t record of Inl e \<Rightarrow> Inl e
               | Inr record' \<Rightarrow> remove_refs gh t outps (AList.update utxo_key record' refs)))"

definition remove_tx :: "hash_fun \<Rightarrow> tx \<Rightarrow> mempool \<Rightarrow> (bool \<times> mempool) result" where
  "remove_tx gh t p =
     (case txid_of gh t of Inl e \<Rightarrow> Inl e
      | Inr txid \<Rightarrow>
          if map_of (tx_storage p) txid = None then Inr (False, p)
          else case fee t of Inl e \<Rightarrow> Inl e
          | Inr f \<Rightarrow>
              (case remove_refs gh t (tx_outputs t) (utxo_ref p) of Inl e \<Rightarrow> Inl e
               | Inr refs \<Rightarrow>
                   Inr (True, \<lparr>tx_set = ordset_erase (concat_txid_fee_pair txid f) (tx_set p),
                               tx_storage = AList.delete txid (tx_storage p),
                               utxo_ref = refs\<rparr>)))"

subsection \<open>Spending a transaction\<close>

text \<open>\<open>erase_tx\<close> forgets one other transaction of the pool; \<open>same_object\<close> compares pointers.\<close>

definition erase_tx :: "hash_fun \<Rightarrow> tx \<Rightarrow> mempool \<Rightarrow> mempool result" where
  "erase_tx gh t p =
     (case txid_of gh t of Inl e \<Rightarrow> Inl e
      | Inr txid \<Rightarrow>
          (case fee t of Inl e \<Rightarrow> Inl e
           | Inr f \<Rightarrow> Inr (p\<lparr>tx_storage := AList.delete txid (tx_storage p),
                             tx_set := ordset_erase (concat_txid_fee_pair txid f) (tx_set p)\<rparr>)))"

definition erase_other :: "hash_fun \<Rightarrow> (tx \<Rightarrow> tx \<Rightarrow> bool) \<Rightarrow> tx \<Rightarrow> tx \<Rightarrow> mempool \<Rightarrow> mempool result" where
  "erase_other gh same_object t othertx p =
     (if same_object othertx t then Inr p else erase_tx gh othertx p)"

definition spend_output :: "hash_fun \<Rightarrow> (tx \<Rightarrow> tx \<Rightarrow> bool) \<Rightarrow> tx \<Rightarrow> tx_output \<Rightarrow> mempool \<Rightarrow> mempool result" where
  "spend_output gh same_object t outp p =
     (case out_hash gh outp of Inl e \<Rightarrow> Inl e
      | Inr utxo_key \<Rightarrow>
          (case map_of (utxo_ref p) utxo_key of
             None \<Rightarrow> Inl Assert_failed
           | Some record \<Rightarrow>
               (case fold_res (erase_other gh same_object t) record p of Inl e \<Rightarrow> Inl e
                | Inr p' \<Rightarrow> Inr (p'\<lparr>utxo_ref := AList.delete utxo_key (utxo_ref p')\<rparr>))))"

definition spend_tx :: "hash_fun \<Rightarrow> (tx \<Rightarrow> tx \<Rightarrow> bool) \<Rightarrow> tx \<Rightarrow> mempool \<Rightarrow> (bool \<times> mempool) result" where
  "spend_tx gh same_object t p =
     (case txid_of gh t of Inl e \<Rightarrow> Inl e
      | Inr txid \<Rightarrow>
          if map_of (tx_storage p) txid = None then Inr (False, p)
          else case erase_tx gh t p of Inl e \<Rightarrow> Inl e
          | Inr p1 \<Rightarrow> (case fold_res (spend_output gh same_object t) (tx_outputs t) p1 of Inl e \<Rightarrow> Inl e
                      | Inr p2 \<Rightarrow> Inr (True, p2)))"

subsection \<open>Blocks, lookups and selection\<close>

text \<open>Both skip the coinbase; \<open>spend_block\<close> ignores transactions that the pool does not hold.\<close>

definition pool_spend_block :: "hash_fun \<Rightarrow> (tx \<Rightarrow> tx \<Rightarrow> bool) \<Rightarrow> tx list \<Rightarrow> mempool \<Rightarrow> mempool result" where
  "pool_spend_block gh same_object transactions p =
     fold_res (\<lambda>t p. map_sum id snd (spend_tx gh same_object t p)) (drop 1 transactions) p"

fun pool_add_txs :: "hash_fun \<Rightarrow> tx list \<Rightarrow> mempool \<Rightarrow> (bool \<times> mempool) result" where
  "pool_add_txs gh [] p = Inr (True, p)"
| "pool_add_txs gh (t # ts) p =
     (case add_valid_tx gh t p of Inl e \<Rightarrow> Inl e
      | Inr (added, p') \<Rightarrow> if \<not> added then Inr (False, p') else pool_add_txs gh ts p')"

definition pool_add_block :: "hash_fun \<Rightarrow> tx list \<Rightarrow> mempool \<Rightarrow> (bool \<times> mempool) result" where
  "pool_add_block gh transactions p = pool_add_txs gh (drop 1 transactions) p"

definition get_tx :: "bytes \<Rightarrow> mempool \<Rightarrow> tx result" where
  "get_tx txid p = (case map_of (tx_storage p) txid of None \<Rightarrow> Inl Out_of_range | Some t \<Rightarrow> Inr t)"

definition tx_in_pool :: "bytes \<Rightarrow> mempool \<Rightarrow> bool" where
  "tx_in_pool txid p \<longleftrightarrow> map_of (tx_storage p) txid \<noteq> None"

definition list_txids :: "mempool \<Rightarrow> bytes list" where
  "list_txids p = map fst (tx_storage p)"

definition get_top :: "u64 \<Rightarrow> mempool \<Rightarrow> tx list result" where
  "get_top limit p =
     map_res (\<lambda>k. get_tx (txid_from_pair k) p) (take (unat limit) (tx_set p))"

end
