(* ===== verification/MempoolCorrect.thy ===== *)
theory MempoolCorrect
  imports Mempool UtxoCorrect
begin

text \<open>
  The invariant of the memory pool, that every operation keeps it, and what follows for the
  transactions that a miner takes; and what the index by outputs does to conflicts.
\<close>

subsection \<open>The order of fee keys\<close>

text \<open>Big-endian bytes in front compare like the numbers that they encode.\<close>

fun be_value :: "bytes \<Rightarrow> nat" where
  "be_value [] = 0"
| "be_value (b # bs) = unat b * 256 ^ length bs + be_value bs"

lemma be_value_bound: "be_value bs < 256 ^ length bs"
proof (induction bs)
  case (Cons b bs)
  have "unat b < 2 ^ LENGTH(8)" by (rule unsigned_less)
  then have "unat b \<le> 255" by simp
  then have "unat b * 256 ^ length bs \<le> 255 * 256 ^ length bs" by (intro mult_right_mono) simp_all
  with Cons have "unat b * 256 ^ length bs + be_value bs < 255 * 256 ^ length bs + 256 ^ length bs" by linarith
  then show ?case by simp
qed simp

lemma be_value_less: "length xs = length ys \<Longrightarrow> xs < ys \<Longrightarrow> be_value xs < be_value ys"
proof (induction xs ys rule: list_induct2)
  case (Cons x xs y ys)
  then consider "x < y" | "x = y" "xs < ys" by (auto simp: list_less_def)
  then show ?case
  proof cases
    case 1
    then have "Suc (unat x) \<le> unat y" by (simp add: word_less_nat_alt)
    then have "Suc (unat x) * 256 ^ length xs \<le> unat y * 256 ^ length xs" by (rule mult_right_mono) simp
    then show ?thesis using be_value_bound [of xs] Cons.hyps by simp
  qed (use Cons in simp)
qed (simp add: list_less_def)

lemma horner: "(n :: nat) div 2 ^ (k + 8) * 256 + n div 2 ^ k mod 256 = n div 2 ^ k"
  by (simp add: power_add div_mult2_eq)

lemma be_value_uint64: "be_value (uint64_to_vector_big_endian v) = unat v"
proof -
  have lt: "unat v < 2 ^ 64" using unsigned_less [of v, where ?'a = nat] by simp
  have b: "unat (ucast (drop_bit k v) :: byte) = unat v div 2 ^ k mod 256" for k
  proof -
    have "unat (ucast (drop_bit k v) :: byte) = take_bit 8 (drop_bit k (take_bit 64 (unat v)))"
      by (simp add: unsigned_ucast_eq unsigned_drop_bit_eq)
    also have "take_bit 64 (unat v) = unat v" using lt by (simp only: take_bit_nat_eq_self)
    finally show ?thesis by (simp add: take_bit_eq_mod drop_bit_eq_div)
  qed
  have b0: "unat (ucast v :: byte) = unat v mod 256" using b [of 0] by simp
  have b56: "unat v div 72057594037927936 mod 256 = unat v div 72057594037927936"
    using lt by (intro mod_less) (simp add: less_mult_imp_div_less)
  have "be_value (uint64_to_vector_big_endian v) = unat v div 72057594037927936 * 72057594037927936 +
      (unat v div 281474976710656 mod 256 * 281474976710656 + (unat v div 1099511627776 mod 256 * 1099511627776 +
      (unat v div 4294967296 mod 256 * 4294967296 + (unat v div 16777216 mod 256 * 16777216 +
      (unat v div 65536 mod 256 * 65536 + (unat v div 256 mod 256 * 256 + unat v mod 256))))))"
    by (simp add: uint64_to_vector_big_endian_def low_byte64 b b0 b56)
  also have "\<dots> = unat v"
    using horner [of "unat v" 48, simplified] horner [of "unat v" 40, simplified] horner [of "unat v" 32, simplified]
      horner [of "unat v" 24, simplified] horner [of "unat v" 16, simplified] horner [of "unat v" 8, simplified]
      div_mult_mod_eq [of "unat v" 256] by linarith
  finally show ?thesis .
qed

lemma big_endian_order: "uint64_to_vector_big_endian a @ x < uint64_to_vector_big_endian b @ y \<Longrightarrow> a \<le> b"
proof (rule ccontr)
  assume l: "uint64_to_vector_big_endian a @ x < uint64_to_vector_big_endian b @ y" and "\<not> a \<le> b"
  then have "unat b < unat a" by (simp add: word_le_nat_alt)
  then have "\<not> uint64_to_vector_big_endian a < uint64_to_vector_big_endian b"
    using be_value_less [of "uint64_to_vector_big_endian a" "uint64_to_vector_big_endian b"]
    by (auto simp: be_value_uint64)
  moreover have "uint64_to_vector_big_endian a \<noteq> uint64_to_vector_big_endian b"
    using \<open>\<not> a \<le> b\<close> uint64.enc_inject by auto
  ultimately have "uint64_to_vector_big_endian b < uint64_to_vector_big_endian a" by auto
  then have "uint64_to_vector_big_endian b @ y < uint64_to_vector_big_endian a @ x"
    by (auto simp: list_less_def intro!: lexord_append_leftI lexord_sufI)
  with l show False by (simp add: less_asym)
qed

lemma fee_key_inject: "concat_txid_fee_pair k f = concat_txid_fee_pair k' f' \<longleftrightarrow> k = k' \<and> f = f'"
  by (auto simp: concat_txid_fee_pair_def uint64.enc_prefix_inject)

lemma txid_from_fee_key: "txid_from_pair (concat_txid_fee_pair k f) = k"
  by (simp add: txid_from_pair_def concat_txid_fee_pair_def)

lemma fee_key_order: "concat_txid_fee_pair k f > concat_txid_fee_pair k' f' \<Longrightarrow> f' \<le> f"
  by (auto simp: concat_txid_fee_pair_def dest: big_endian_order)

lemma ordset_insert_set: "set (ordset_insert x ys) = insert x (set ys)"
  by (induction ys) auto

lemma ordset_insert_sorted: "sorted_wrt (>) ys \<Longrightarrow> sorted_wrt (>) (ordset_insert x ys)"
  by (induction ys) (auto simp: ordset_insert_set)

lemma ordset_distinct: "sorted_wrt (>) (ys :: bytes list) \<Longrightarrow> distinct ys"
  by (induction ys) auto

lemma ordset_erase_set: "set (ordset_erase x ys) = set ys - {x}"
  by (simp add: ordset_erase_def)

lemma ordset_erase_sorted: "sorted_wrt (>) ys \<Longrightarrow> sorted_wrt (>) (ordset_erase x ys)"
  by (simp add: ordset_erase_def removeAll_filter_not_eq sorted_wrt_filter)

subsection \<open>The invariant\<close>

text \<open>
  \<open>F\<close> gives the fee of each transaction id: the amounts of the outputs a transaction spends do not
  change, so all objects with the same id have the same fee.
\<close>

definition priced :: "hash_fun \<Rightarrow> (bytes \<Rightarrow> u64) \<Rightarrow> bytes \<Rightarrow> tx \<Rightarrow> bool" where
  "priced gh F k t \<longleftrightarrow> txid_of gh t = Inr k \<and> fee t = Inr (F k)"

definition storage_ok :: "hash_fun \<Rightarrow> (bytes \<Rightarrow> u64) \<Rightarrow> mempool \<Rightarrow> bool" where
  "storage_ok gh F p \<longleftrightarrow> distinct (map fst (tx_storage p))
     \<and> (\<forall>k t. map_of (tx_storage p) k = Some t \<longrightarrow> priced gh F k t)
     \<and> sorted_wrt (>) (tx_set p)
     \<and> set (tx_set p) = (\<lambda>k. concat_txid_fee_pair k (F k)) ` dom (map_of (tx_storage p))"

definition refs_ok :: "hash_fun \<Rightarrow> (bytes \<Rightarrow> u64) \<Rightarrow> mempool \<Rightarrow> bool" where
  "refs_ok gh F p \<longleftrightarrow>
     (\<forall>k l t. map_of (utxo_ref p) k = Some l \<longrightarrow> t \<in> set l \<longrightarrow> (\<exists>id. priced gh F id t))"

definition pool_ok :: "hash_fun \<Rightarrow> (bytes \<Rightarrow> u64) \<Rightarrow> mempool \<Rightarrow> bool" where
  "pool_ok gh F p \<longleftrightarrow> storage_ok gh F p \<and> refs_ok gh F p"

lemma empty_pool_ok: "pool_ok gh F empty_mempool"
  by (simp add: pool_ok_def storage_ok_def refs_ok_def empty_mempool_def)

lemma out_hash_total: "\<exists>h. out_hash gh outp = Inr h"
  by (cases "out_hash_cache outp")
     (auto simp: out_hash_def output_hash_def output_serialize_layout)

lemma storage_ok_insert:
  assumes "storage_ok gh F p" and "priced gh F k t"
  shows "storage_ok gh F \<lparr>tx_set = ordset_insert (concat_txid_fee_pair k (F k)) (tx_set p),
                          tx_storage = AList.update k t (tx_storage p), utxo_ref = r\<rparr>"
  using assms
  by (auto simp: storage_ok_def update_conv' ordset_insert_set ordset_insert_sorted distinct_update
      split: if_splits)

lemma storage_ok_erase:
  assumes "storage_ok gh F p"
  shows "storage_ok gh F \<lparr>tx_set = ordset_erase (concat_txid_fee_pair k (F k)) (tx_set p),
                          tx_storage = AList.delete k (tx_storage p), utxo_ref = r\<rparr>"
  using assms
  by (auto simp: storage_ok_def delete_conv' ordset_erase_set ordset_erase_sorted distinct_delete
      fee_key_inject split: if_splits)

subsection \<open>Every operation keeps it\<close>

lemma add_refs_ok:
  assumes "\<forall>k l x. map_of refs k = Some l \<longrightarrow> x \<in> set l \<longrightarrow> (\<exists>id. priced gh F id x)"
    and "priced gh F k t"
  shows "\<exists>refs'. add_refs gh t outps refs = Inr refs'
    \<and> (\<forall>k l x. map_of refs' k = Some l \<longrightarrow> x \<in> set l \<longrightarrow> (\<exists>id. priced gh F id x))"
  using assms(1)
proof (induction outps arbitrary: refs)
  case (Cons outp outps)
  obtain h where h: "out_hash gh outp = Inr h" using out_hash_total by blast
  let ?refs = "case map_of refs h of None \<Rightarrow> AList.update h [t] refs
    | Some record \<Rightarrow> AList.update h (record @ [t]) refs"
  have "\<forall>k l x. map_of ?refs k = Some l \<longrightarrow> x \<in> set l \<longrightarrow> (\<exists>id. priced gh F id x)"
    using Cons.prems assms(2) by (auto simp: update_conv' split: option.splits if_splits)
  from Cons.IH [OF this] h show ?case by simp
qed simp

lemma add_valid_tx_ok:
  assumes "pool_ok gh F p" and "priced gh F k t"
  shows "\<exists>added p'. add_valid_tx gh t p = Inr (added, p') \<and> pool_ok gh F p'
    \<and> tx_in_pool k p' \<and> (added \<longleftrightarrow> \<not> tx_in_pool k p)"
proof (cases "map_of (tx_storage p) k")
  case None
  obtain refs where "add_refs gh t (tx_outputs t) (utxo_ref p) = Inr refs"
      "\<forall>k l x. map_of refs k = Some l \<longrightarrow> x \<in> set l \<longrightarrow> (\<exists>id. priced gh F id x)"
    using add_refs_ok [OF _ assms(2), of "utxo_ref p" "tx_outputs t"] assms(1)
    by (auto simp: pool_ok_def refs_ok_def)
  with None assms storage_ok_insert [of gh F p k t refs] show ?thesis
    by (auto simp: add_valid_tx_def pool_ok_def refs_ok_def priced_def tx_in_pool_def update_conv')
qed (use assms in \<open>auto simp: add_valid_tx_def priced_def tx_in_pool_def\<close>)

lemma erase_equal_subset: "erase_equal gh t xs = Inr ys \<Longrightarrow> set ys \<subseteq> set xs"
  by (induction xs arbitrary: ys) (fastforce split: sum.splits prod.splits if_splits)+

lemma remove_refs_ok:
  assumes "remove_refs gh t outps refs = Inr refs'"
    and "\<forall>k l x. map_of refs k = Some l \<longrightarrow> x \<in> set l \<longrightarrow> (\<exists>id. priced gh F id x)"
  shows "\<forall>k l x. map_of refs' k = Some l \<longrightarrow> x \<in> set l \<longrightarrow> (\<exists>id. priced gh F id x)"
  using assms
proof (induction outps arbitrary: refs)
  case (Cons outp outps)
  obtain h where h: "out_hash gh outp = Inr h" using out_hash_total by blast
  with Cons.prems(1) obtain l where l: "map_of refs h = Some l" by (auto split: option.splits)
  show ?case
  proof (cases "length l = 1")
    case True
    have "\<forall>k m x. map_of (AList.delete h refs) k = Some m \<longrightarrow> x \<in> set m \<longrightarrow> (\<exists>id. priced gh F id x)"
      using Cons.prems(2) by (simp add: delete_conv')
    moreover have "remove_refs gh t outps (AList.delete h refs) = Inr refs'"
      using True h l Cons.prems(1) by simp
    ultimately show ?thesis using Cons.IH by blast
  next
    case False
    with h l Cons.prems(1) obtain l' where l': "erase_equal gh t l = Inr l'"
        "remove_refs gh t outps (AList.update h l' refs) = Inr refs'"
      by (auto split: sum.splits)
    have "\<forall>k m x. map_of (AList.update h l' refs) k = Some m \<longrightarrow> x \<in> set m \<longrightarrow> (\<exists>id. priced gh F id x)"
      using Cons.prems(2) l erase_equal_subset [OF l'(1)] by (auto simp: update_conv')
    from Cons.IH [OF l'(2) this] show ?thesis .
  qed
qed simp

lemma remove_tx_ok:
  assumes "pool_ok gh F p" and "priced gh F k t" and "remove_tx gh t p = Inr (removed, p')"
  shows "pool_ok gh F p' \<and> \<not> tx_in_pool k p' \<and> (removed \<longleftrightarrow> tx_in_pool k p)"
proof (cases "map_of (tx_storage p) k")
  case (Some t')
  with assms(2,3) obtain refs where refs: "remove_refs gh t (tx_outputs t) (utxo_ref p) = Inr refs"
      "removed" "p' = \<lparr>tx_set = ordset_erase (concat_txid_fee_pair k (F k)) (tx_set p),
             tx_storage = AList.delete k (tx_storage p), utxo_ref = refs\<rparr>"
    by (auto simp: remove_tx_def priced_def split: sum.splits)
  moreover have "\<forall>k l x. map_of refs k = Some l \<longrightarrow> x \<in> set l \<longrightarrow> (\<exists>id. priced gh F id x)"
    by (rule remove_refs_ok [OF refs(1)]) (use assms(1) in \<open>auto simp: pool_ok_def refs_ok_def\<close>)
  ultimately show ?thesis
    using Some assms storage_ok_erase [where k = k and r = refs]
    by (simp add: pool_ok_def refs_ok_def tx_in_pool_def delete_conv')
qed (use assms in \<open>auto simp: remove_tx_def priced_def tx_in_pool_def\<close>)

lemma erase_tx_ok:
  assumes "storage_ok gh F p" and "priced gh F k t"
  shows "\<exists>p'. erase_tx gh t p = Inr p' \<and> storage_ok gh F p' \<and> utxo_ref p' = utxo_ref p
    \<and> map_of (tx_storage p') = (map_of (tx_storage p))(k := None)"
  using assms storage_ok_erase [OF assms(1), where k = k and r = "utxo_ref p"]
  by (cases p) (simp add: erase_tx_def priced_def delete_conv')

text \<open>Erasing the other transactions of a record only shrinks the storage.\<close>

lemma erase_others_ok:
  assumes "storage_ok gh F p" and "\<forall>x\<in>set l. \<exists>id. priced gh F id x"
  shows "\<exists>p'. fold_res (erase_other gh same t) l p = Inr p' \<and> storage_ok gh F p'
    \<and> utxo_ref p' = utxo_ref p \<and> dom (map_of (tx_storage p')) \<subseteq> dom (map_of (tx_storage p))"
  using assms
proof (induction l arbitrary: p)
  case (Cons x l)
  then obtain id where "priced gh F id x" by auto
  from erase_tx_ok [OF Cons.prems(1) this] obtain q where "erase_tx gh x p = Inr q"
      "storage_ok gh F q" "utxo_ref q = utxo_ref p" "dom (map_of (tx_storage q)) \<subseteq> dom (map_of (tx_storage p))"
    by auto
  with Cons.IH [of p] Cons.IH [of q] Cons.prems show ?case
    by (cases "same x t") (auto simp: erase_other_def)
qed simp

lemma spend_output_ok:
  assumes "pool_ok gh F p" and "spend_output gh same t outp p = Inr p'"
  shows "pool_ok gh F p' \<and> (\<forall>k. tx_in_pool k p' \<longrightarrow> tx_in_pool k p)"
proof -
  obtain h where h: "out_hash gh outp = Inr h" using out_hash_total by blast
  with assms(2) obtain l where l: "map_of (utxo_ref p) h = Some l"
    by (auto simp: spend_output_def split: option.splits)
  from assms(1) l have "\<forall>x\<in>set l. \<exists>id. priced gh F id x" "storage_ok gh F p"
    by (auto simp: pool_ok_def refs_ok_def)
  from erase_others_ok [OF this(2,1)] obtain q where q: "fold_res (erase_other gh same t) l p = Inr q"
      "storage_ok gh F q" "utxo_ref q = utxo_ref p" "dom (map_of (tx_storage q)) \<subseteq> dom (map_of (tx_storage p))"
    by blast
  with h l assms(2) have "p' = q\<lparr>utxo_ref := AList.delete h (utxo_ref q)\<rparr>"
    by (auto simp: spend_output_def)
  with q assms(1) have "pool_ok gh F p'"
    by (auto simp: pool_ok_def refs_ok_def storage_ok_def delete_conv' split: if_splits)
  moreover have "tx_in_pool k p" if "tx_in_pool k p'" for k
    using that q(4) \<open>p' = _\<close> unfolding tx_in_pool_def domIff [symmetric] by auto
  ultimately show ?thesis by blast
qed

lemma spend_tx_ok:
  assumes "pool_ok gh F p" and "priced gh F k t" and "spend_tx gh same t p = Inr (found, p')"
  shows "pool_ok gh F p' \<and> \<not> tx_in_pool k p' \<and> (found \<longleftrightarrow> tx_in_pool k p)"
proof (cases "map_of (tx_storage p) k")
  case (Some t')
  from assms(1) have "storage_ok gh F p" "refs_ok gh F p" by (simp_all add: pool_ok_def)
  from erase_tx_ok [OF this(1) assms(2)] this(2) obtain p1 where p1: "erase_tx gh t p = Inr p1"
      "pool_ok gh F p1" "\<not> tx_in_pool k p1"
    by (auto simp: pool_ok_def refs_ok_def tx_in_pool_def)
  with Some assms(2,3) have spent: "found" "fold_res (spend_output gh same t) (tx_outputs t) p1 = Inr p'"
    by (auto simp: spend_tx_def priced_def split: sum.splits)
  have "pool_ok gh F p' \<and> \<not> tx_in_pool k p'"
    by (rule fold_res_invariant [OF spent(2)])
      (use p1 spend_output_ok in blast)+
  with spent(1) Some show ?thesis by (simp add: tx_in_pool_def)
qed (use assms in \<open>auto simp: spend_tx_def priced_def tx_in_pool_def\<close>)

lemma spend_tx_shrinks:
  assumes "pool_ok gh F p" and "priced gh F k t" and "spend_tx gh same t p = Inr (found, p')"
  shows "\<forall>k. tx_in_pool k p' \<longrightarrow> tx_in_pool k p"
proof (cases "map_of (tx_storage p) k")
  case (Some t')
  from assms(1) have "storage_ok gh F p" "refs_ok gh F p" by (simp_all add: pool_ok_def)
  from erase_tx_ok [OF this(1) assms(2)] this(2) obtain p1 where p1: "erase_tx gh t p = Inr p1"
      "pool_ok gh F p1" "\<forall>k. tx_in_pool k p1 \<longrightarrow> tx_in_pool k p"
    by (auto simp: pool_ok_def refs_ok_def tx_in_pool_def)
  with Some assms(2,3) have "fold_res (spend_output gh same t) (tx_outputs t) p1 = Inr p'"
    by (auto simp: spend_tx_def priced_def split: sum.splits)
  then have "pool_ok gh F p' \<and> (\<forall>k. tx_in_pool k p' \<longrightarrow> tx_in_pool k p)"
    by (rule fold_res_invariant) (use p1 spend_output_ok in blast)+
  then show ?thesis by blast
qed (use assms in \<open>auto simp: spend_tx_def priced_def\<close>)

subsection \<open>Selection by fee\<close>

definition fee_of :: "tx \<Rightarrow> u64" where
  "fee_of t = (case fee t of Inr f \<Rightarrow> f | Inl _ \<Rightarrow> 0)"

lemma storage_size:
  assumes "storage_ok gh F p"
  shows "length (tx_set p) = length (tx_storage p)"
proof -
  have "distinct (tx_set p)"
    using assms by (simp add: storage_ok_def ordset_distinct)
  then have "length (tx_set p) = card (set (tx_set p))" by (simp add: distinct_card)
  also have "\<dots> = card (dom (map_of (tx_storage p)))"
    using assms by (simp add: storage_ok_def card_image inj_on_def fee_key_inject)
  also have "\<dots> = length (tx_storage p)"
    using assms by (simp add: storage_ok_def dom_map_of_conv_image_fst distinct_card flip: set_map)
  finally show ?thesis .
qed

text \<open>C34. On a consistent pool \<open>get_top\<close> never fails and selects by fee: it returns as many pooled
  transactions as it may, in the order of falling fees, and none that it leaves out pays more than
  one that it takes.\<close>

theorem get_top_highest_fees:
  assumes "pool_ok gh F p"
  shows "\<exists>ts. get_top limit p = Inr ts \<and> length ts = min (unat limit) (length (tx_storage p))
    \<and> (\<forall>t\<in>set ts. \<exists>k. get_tx k p = Inr t)
    \<and> sorted_wrt (\<lambda>a b. fee_of b \<le> fee_of a) ts
    \<and> (\<forall>k t t'. get_tx k p = Inr t \<longrightarrow> t \<notin> set ts \<longrightarrow> t' \<in> set ts \<longrightarrow> fee_of t \<le> fee_of t')"
proof -
  from assms have ok: "storage_ok gh F p" by (simp add: pool_ok_def)
  let ?n = "unat limit" and ?st = "map_of (tx_storage p)"
  let ?g = "\<lambda>key. the (?st (txid_from_pair key))"
  have key: "\<exists>k. key = concat_txid_fee_pair k (F k) \<and> ?st k = Some (?g key) \<and> fee_of (?g key) = F k"
    if "key \<in> set (tx_set p)" for key
    using that ok by (auto simp: storage_ok_def txid_from_fee_key fee_of_def priced_def)
  have fees: "fee_of (?g y) \<le> fee_of (?g x)" if "x \<in> set (tx_set p)" "y \<in> set (tx_set p)" "x > y" for x y
    using key [OF that(1)] key [OF that(2)] that(3) fee_key_order by metis
  have sorted: "sorted_wrt (>) (take ?n (tx_set p) @ drop ?n (tx_set p))"
    using ok by (simp add: storage_ok_def)
  then have parts: "sorted_wrt (>) (take ?n (tx_set p))"
      "\<And>x y. x \<in> set (take ?n (tx_set p)) \<Longrightarrow> y \<in> set (drop ?n (tx_set p)) \<Longrightarrow> x > y"
    unfolding sorted_wrt_append by blast+
  have get: "get_tx (txid_from_pair key) p = Inr (?g key)" if "key \<in> set (tx_set p)" for key
    using key [OF that] by (metis get_tx_def option.simps(5) txid_from_fee_key)
  have top: "get_top limit p = Inr (map ?g (take ?n (tx_set p)))"
    unfolding get_top_def
    by (rule map_res_total) (use get in_set_takeD in fast)
  have "fee_of t \<le> fee_of t'"
    if "get_tx k p = Inr t" "t \<notin> set (map ?g (take ?n (tx_set p)))" "t' \<in> set (map ?g (take ?n (tx_set p)))" for k t t'
  proof -
    from that(3) obtain x where x: "x \<in> set (take ?n (tx_set p))" "t' = ?g x" by auto
    let ?y = "concat_txid_fee_pair k (F k)"
    from that(1) have t: "?st k = Some t" by (auto simp: get_tx_def split: option.splits)
    then have y: "?y \<in> set (tx_set p)" "t = ?g ?y"
      using ok by (auto simp: storage_ok_def txid_from_fee_key)
    with that(2) have "?y \<notin> set (take ?n (tx_set p))" by auto
    with y(1) have "?y \<in> set (drop ?n (tx_set p))"
      by (metis Un_iff append_take_drop_id set_append)
    with parts(2) x(1) have "x > ?y" by blast
    with fees x y show ?thesis by (metis in_set_takeD)
  qed
  moreover have "sorted_wrt (\<lambda>a b. fee_of b \<le> fee_of a) (map ?g (take ?n (tx_set p)))"
    unfolding sorted_wrt_map
    by (rule sorted_wrt_mono_rel [where P = "(>)"])
      (use parts(1) fees in \<open>auto dest: in_set_takeD\<close>)
  moreover have "\<forall>t\<in>set (map ?g (take ?n (tx_set p))). \<exists>k. get_tx k p = Inr t"
    using get by (auto dest!: in_set_takeD)
  ultimately show ?thesis
    using top storage_size [OF ok] by (intro exI [of _ "map ?g (take ?n (tx_set p))"]) auto
qed

text \<open>Two transactions for the pool: they spend the same output and pay different fees.\<close>

definition pool_tx :: "byte \<Rightarrow> u64 \<Rightarrow> tx" where
  "pool_tx n am = \<lparr>tx_inputs = [sample_input], tx_outputs = [sample_output am],
                   tx_id_cache = Some (replicate 32 n)\<rparr>"

lemma pool_tx_priced:
  "am \<le> 50 \<Longrightarrow> F (replicate 32 n) = 50 - am \<Longrightarrow> priced gh F (replicate 32 n) (pool_tx n am)"
  by (auto simp: priced_def pool_tx_def sample_defs txid_of_def TXID_def fee_def in_total_def out_total_def)

definition sample_pool :: mempool where
  "sample_pool = \<lparr>tx_set = [concat_txid_fee_pair (replicate 32 1) 9],
     tx_storage = [(replicate 32 1, pool_tx 1 41)], utxo_ref = []\<rparr>"

lemma sample_pool_ok: "pool_ok gh (\<lambda>k. if k = replicate 32 1 then 9 else 7) sample_pool"
  by (auto simp: pool_ok_def storage_ok_def refs_ok_def sample_pool_def pool_tx_priced split: if_splits)

theorem get_top_highest_fees_witness:
  "\<exists>ts. get_top 4 sample_pool = Inr ts \<and> length ts = 1"
  using get_top_highest_fees [OF sample_pool_ok [of id], of 4] by (auto simp: sample_pool_def)

text \<open>Adding a validated transaction keeps the pool consistent, always succeeds, and leaves the
  transaction in the pool; the flag says whether it was new.\<close>

theorem add_valid_tx_consistent:
  assumes "pool_ok gh F p" and "txid_of gh t = Inr k" and "fee t = Inr (F k)"
  shows "\<exists>added p'. add_valid_tx gh t p = Inr (added, p') \<and> pool_ok gh F p'
    \<and> tx_in_pool k p' \<and> (added \<longleftrightarrow> \<not> tx_in_pool k p)"
  using add_valid_tx_ok assms by (simp add: priced_def)

theorem add_valid_tx_consistent_witness:
  "\<exists>added p'. add_valid_tx id (pool_tx 2 43) sample_pool = Inr (added, p')
    \<and> pool_ok id (\<lambda>k. if k = replicate 32 1 then 9 else 7) p'
    \<and> tx_in_pool (replicate 32 2) p' \<and> (added \<longleftrightarrow> \<not> tx_in_pool (replicate 32 2) sample_pool)"
  by (rule add_valid_tx_consistent [OF sample_pool_ok])
     (use pool_tx_priced [of 43 "\<lambda>k. if k = replicate 32 1 then 9 else 7" 2 id] in
       \<open>auto simp: priced_def\<close>)



subsection \<open>What the index by outputs does\<close>

text \<open>A payment of 20 to oneself with 20 in change: two equal outputs.\<close>

definition twin_tx :: tx where
  "twin_tx = \<lparr>tx_inputs = [sample_input], tx_outputs = [sample_output 20, sample_output 20],
              tx_id_cache = Some (replicate 32 3)\<rparr>"

lemma twin_hash: "out_hash gh (sample_output am) = Inr (gh (output_layout (sample_output am)))"
  by (simp add: out_hash_def output_hash_def output_serialize_layout sample_output_def)

text \<open>The pool indexes transactions by the hashes of the outputs they create and drops an index
  entry when it meets it: a transaction with two equal outputs is accepted, and spending it then
  fails the assertion of \<open>spend_tx\<close> at its second output.\<close>

theorem spend_tx_aborts_on_equal_outputs:
  "\<exists>p. add_valid_tx gh twin_tx empty_mempool = Inr (True, p) \<and> tx_in_pool (replicate 32 3) p
    \<and> spend_tx gh same_object twin_tx p = Inl Assert_failed"
proof -
  let ?h = "gh (output_layout (sample_output 20))" and ?k = "replicate 32 3 :: bytes"
  let ?p = "\<lparr>tx_set = [concat_txid_fee_pair ?k 10], tx_storage = [(?k, twin_tx)],
             utxo_ref = [(?h, [twin_tx, twin_tx])]\<rparr>"
  have id: "txid_of gh twin_tx = Inr ?k" "fee twin_tx = Inr 10" "tx_outputs twin_tx = [sample_output 20, sample_output 20]"
    by (simp_all add: twin_tx_def sample_input_def sample_output_def txid_of_def TXID_def fee_def
        in_total_def out_total_def)
  then have "add_valid_tx gh twin_tx empty_mempool = Inr (True, ?p)"
    by (simp add: add_valid_tx_def empty_mempool_def twin_hash)
  moreover have "spend_tx gh same_object twin_tx ?p = Inl Assert_failed"
    using id by (simp add: spend_tx_def erase_tx_def spend_output_def erase_other_def twin_hash)
  ultimately show ?thesis by (auto simp: tx_in_pool_def)
qed

text \<open>The same index does not see conflicts: of two pooled transactions that spend the same
  output, the second is still in the pool, and still offered to the miner, after the first was
  spent.\<close>

theorem spend_tx_keeps_conflict:
  "\<exists>p1 p2 p3. add_valid_tx id (pool_tx 1 41) empty_mempool = Inr (True, p1)
    \<and> add_valid_tx id (pool_tx 2 43) p1 = Inr (True, p2)
    \<and> tx_inputs (pool_tx 1 41) = tx_inputs (pool_tx 2 43)
    \<and> spend_tx id same_object (pool_tx 1 41) p2 = Inr (True, p3)
    \<and> get_top 10 p3 = Inr [pool_tx 2 43]"
proof -
  let ?k = "\<lambda>n. replicate 32 n :: bytes" and ?h = "\<lambda>am. output_layout (sample_output am)"
  let ?p1 = "\<lparr>tx_set = [concat_txid_fee_pair (?k 1) 9], tx_storage = [(?k 1, pool_tx 1 41)],
              utxo_ref = [(?h 41, [pool_tx 1 41])]\<rparr>"
  let ?p2 = "\<lparr>tx_set = [concat_txid_fee_pair (?k 1) 9, concat_txid_fee_pair (?k 2) 7],
              tx_storage = [(?k 1, pool_tx 1 41), (?k 2, pool_tx 2 43)],
              utxo_ref = [(?h 41, [pool_tx 1 41]), (?h 43, [pool_tx 2 43])]\<rparr>"
  let ?p3 = "\<lparr>tx_set = [concat_txid_fee_pair (?k 2) 7], tx_storage = [(?k 2, pool_tx 2 43)],
              utxo_ref = [(?h 43, [pool_tx 2 43])]\<rparr>"
  have id: "txid_of id (pool_tx n am) = Inr (?k n)" "tx_outputs (pool_tx n am) = [sample_output am]" for n am
    by (simp_all add: pool_tx_def sample_input_def txid_of_def TXID_def)
  have fees: "fee (pool_tx n 41) = Inr 9" "fee (pool_tx n 43) = Inr 7" for n
    by (simp_all add: pool_tx_def sample_defs fee_def in_total_def out_total_def)
  have neq: "?k 1 \<noteq> ?k 2" "?h 41 \<noteq> ?h 43"
    by (auto simp: replicate_eq_replicate output_layout_def sample_output_def uint64.enc_inject)
  have order: "\<not> concat_txid_fee_pair (?k 2) 7 > concat_txid_fee_pair (?k 1) 9"
    using fee_key_order [of "?k 1" 9 "?k 2" 7] by auto
  have "add_valid_tx id (pool_tx 1 41) empty_mempool = Inr (True, ?p1)"
    by (simp add: add_valid_tx_def empty_mempool_def twin_hash id fees)
  moreover have "add_valid_tx id (pool_tx 2 43) ?p1 = Inr (True, ?p2)"
    using neq order by (simp add: add_valid_tx_def twin_hash id fees fee_key_inject)
  moreover have "spend_tx id same_object (pool_tx 1 41) ?p2 = Inr (True, ?p3)"
    using neq by (simp add: spend_tx_def erase_tx_def spend_output_def erase_other_def twin_hash id fees
        ordset_erase_def fee_key_inject)
  moreover have "get_top 10 ?p3 = Inr [pool_tx 2 43]"
    by (simp add: get_top_def get_tx_def txid_from_fee_key)
  ultimately show ?thesis by (simp add: pool_tx_def)
qed

end
