(* ===== verification/Block.thy ===== *)
theory Block
  imports Transaction Merkle
begin

text \<open>
  \<^verbatim>\<open>src/incl/core/interface/computation.hpp\<close>, \<^verbatim>\<open>src/src/core/block_header.cpp\<close> and
  \<^verbatim>\<open>src/src/core/block.cpp\<close>.

  The abstract class \<open>Computation\<close> is a record of its virtual methods over a state type; a method
  that may change the object returns the new state.  A header holds its predecessor by value:
  the predecessor's memoised hash may be filled in while the header is hashed, and the new value
  is kept in the header.  \<open>time_t\<close> is a signed 64-bit number.
\<close>

subsection \<open>The interface Computation\<close>

record ('c, 'p) computation_ops =
  co_serialize :: "bool \<Rightarrow> 'c \<Rightarrow> (bytes \<times> 'c) result"
  co_hash :: "'c \<Rightarrow> bytes"
  co_proof :: "'c \<Rightarrow> bytes result"
  co_verify_proof :: "bytes \<Rightarrow> 'c \<Rightarrow> (bool \<times> 'c) result"
  co_generate_proof :: "'c \<Rightarrow> 'c result"
  co_bind_to_data :: "bytes \<Rightarrow> 'c \<Rightarrow> 'c result"
  co_output :: "'c \<Rightarrow> (bytes \<times> 'c) result"
  co_difficulty :: "'c \<Rightarrow> u32"
  co_to_proto :: "'c \<Rightarrow> 'p"
  co_create :: "'p \<Rightarrow> 'c result"

subsection \<open>BlockHeader\<close>

datatype 'c block_header =
  BlockHeader
    (prev_block_header: "'c block_header option")
    (merkle_root: bytes)
    (hdr_timestamp: u64)
    (hdr_difficulty: u32)
    (computations: "'c list")
    (hdr_hash_cache: "bytes option")
    (prev_hash_field: bytes)

text \<open>The two constructors.\<close>

definition BlockHeader_after :: "'c block_header option \<Rightarrow> bytes \<Rightarrow> u64 \<Rightarrow> u32 \<Rightarrow> 'c list \<Rightarrow> 'c block_header" where
  "BlockHeader_after prev root ts diff comps = BlockHeader prev root ts diff comps None []"

definition BlockHeader_hashed :: "bytes \<Rightarrow> bytes \<Rightarrow> u64 \<Rightarrow> u32 \<Rightarrow> 'c list \<Rightarrow> 'c block_header" where
  "BlockHeader_hashed prev_h root ts diff comps = BlockHeader None root ts diff comps None prev_h"

text \<open>A length-prefixed chunk.\<close>

definition sized :: "bytes \<Rightarrow> bytes" where
  "sized b = uint64_to_vector_big_endian (word_of_nat (length b)) @ b"

fun serialize_computations ::
  "('c, 'p) computation_ops \<Rightarrow> bool \<Rightarrow> 'c list \<Rightarrow> (bytes \<times> 'c list) result" where
  "serialize_computations ops include_proofs [] = Inr ([], [])"
| "serialize_computations ops include_proofs (c # cs) =
     (case co_serialize ops include_proofs c of Inl e \<Rightarrow> Inl e
      | Inr (cser, c') \<Rightarrow>
          (case serialize_computations ops include_proofs cs of Inl e \<Rightarrow> Inl e
           | Inr (rest, cs') \<Rightarrow> Inr (sized cser @ rest, c' # cs')))"

definition serialize_proofs :: "('c, 'p) computation_ops \<Rightarrow> 'c list \<Rightarrow> bytes result" where
  "serialize_proofs ops comps = map_sum id concat (map_res (\<lambda>c. map_sum id sized (co_proof ops c)) comps)"

text \<open>
  \<open>hash\<close>, \<open>serialize\<close> and \<open>prev_hash\<close> call each other along the chain of predecessors; each
  returns its value and the header with what was memoised on the way.
\<close>

function (sequential) header_hash ::
    "('c, 'p) computation_ops \<Rightarrow> hash_fun \<Rightarrow> bool \<Rightarrow> 'c block_header \<Rightarrow> (bytes \<times> 'c block_header) result"
  and header_serialize ::
    "('c, 'p) computation_ops \<Rightarrow> hash_fun \<Rightarrow> bool \<Rightarrow> 'c block_header \<Rightarrow> (bytes \<times> 'c block_header) result"
  and prev_hash ::
    "('c, 'p) computation_ops \<Rightarrow> hash_fun \<Rightarrow> 'c block_header \<Rightarrow> (bytes \<times> 'c block_header) result" where
  "header_hash ops gh force hdr =
     (case (if force then None else hdr_hash_cache hdr) of
        Some h \<Rightarrow> Inr (h, hdr)
      | None \<Rightarrow>
          (case header_serialize ops gh True hdr of Inl e \<Rightarrow> Inl e
           | Inr (ser, BlockHeader prev root ts diff comps _ ph) \<Rightarrow>
               Inr (gh ser, BlockHeader prev root ts diff comps (Some (gh ser)) ph)))"
| "header_serialize ops gh include_proofs hdr =
     (case prev_hash ops gh hdr of Inl e \<Rightarrow> Inl e
      | Inr (prev_h, BlockHeader prev root ts diff comps cache ph) \<Rightarrow>
          (case serialize_computations ops include_proofs comps of Inl e \<Rightarrow> Inl e
           | Inr (cser, comps') \<Rightarrow>
               (case (if include_proofs then serialize_proofs ops comps' else Inr []) of Inl e \<Rightarrow> Inl e
                | Inr pser \<Rightarrow>
                    Inr (prev_h @ root @ uint64_to_vector_big_endian ts @ uint32_to_vector_big_endian diff @
                         uint64_to_vector_big_endian (word_of_nat (length comps)) @ cser @ pser,
                         BlockHeader prev root ts diff comps' cache ph))))"
| "prev_hash ops gh (BlockHeader prev root ts diff comps cache ph) =
     (case prev of
        Some p \<Rightarrow>
          (case header_hash ops gh False p of Inl e \<Rightarrow> Inl e
           | Inr (h, p') \<Rightarrow> Inr (h, BlockHeader (Some p') root ts diff comps cache ph))
      | None \<Rightarrow>
          if length ph > 0 then Inr (ph, BlockHeader prev root ts diff comps cache ph)
          else Inr (replicate crypto_generichash_BYTES 0, BlockHeader prev root ts diff comps cache ph))"
  by pat_completeness auto

text \<open>Hashing goes to the serialisation and to the predecessor, which is a smaller header.\<close>

fun hash_measure :: "(('c, 'p) computation_ops \<times> hash_fun \<times> bool \<times> 'c block_header)
    + ((('c, 'p) computation_ops \<times> hash_fun \<times> bool \<times> 'c block_header)
       + (('c, 'p) computation_ops \<times> hash_fun \<times> 'c block_header)) \<Rightarrow> nat" where
  "hash_measure (Inl (_, _, _, hdr)) = 3 * size_block_header (\<lambda>_. 0) hdr + 2"
| "hash_measure (Inr (Inl (_, _, _, hdr))) = 3 * size_block_header (\<lambda>_. 0) hdr + 1"
| "hash_measure (Inr (Inr (_, _, hdr))) = 3 * size_block_header (\<lambda>_. 0) hdr"

termination header_hash
  by (relation "measure hash_measure") auto

declare header_hash.simps(1) [simp del] header_serialize.simps [simp del]

record 'p proto_header =
  ph_prev_block_hash :: bytes
  ph_merkle_root :: bytes
  ph_timestamp :: u64
  ph_difficulty :: u32
  ph_computations :: "'p list"

text \<open>\<open>to_proto\<close> asks the predecessor for its hash without testing the pointer.\<close>

definition header_to_proto ::
  "('c, 'p) computation_ops \<Rightarrow> hash_fun \<Rightarrow> 'c block_header \<Rightarrow> 'p proto_header result" where
  "header_to_proto ops gh hdr =
     (case prev_block_header hdr of
        None \<Rightarrow> Inl (Undefined ''null previous header'')
      | Some p \<Rightarrow>
          (case header_hash ops gh False p of Inl e \<Rightarrow> Inl e
           | Inr (h, _) \<Rightarrow>
               Inr \<lparr>ph_prev_block_hash = h, ph_merkle_root = merkle_root hdr,
                    ph_timestamp = hdr_timestamp hdr, ph_difficulty = hdr_difficulty hdr,
                    ph_computations = map (co_to_proto ops) (computations hdr)\<rparr>))"

definition header_from_proto :: "('c, 'p) computation_ops \<Rightarrow> 'p proto_header \<Rightarrow> 'c block_header result" where
  "header_from_proto ops proto =
     (case map_res (co_create ops) (ph_computations proto) of Inl e \<Rightarrow> Inl e
      | Inr comps \<Rightarrow>
          Inr (BlockHeader None (ph_merkle_root proto) (ph_timestamp proto) (ph_difficulty proto) comps
                 None (ph_prev_block_hash proto)))"

subsection \<open>Block\<close>

record 'c block =
  blk_header :: "'c block_header"
  blk_transactions :: "tx list"

definition root_of :: "hash_fun \<Rightarrow> bytes list \<Rightarrow> bytes result" where
  "root_of gh hashes =
     (case compute_root gh hashes of None \<Rightarrow> Inl (Undefined ''Merkle root of no hashes'') | Some r \<Rightarrow> Inr r)"

fun txids_of :: "hash_fun \<Rightarrow> tx list \<Rightarrow> (bytes list \<times> tx list) result" where
  "txids_of gh [] = Inr ([], [])"
| "txids_of gh (t # ts) =
     (case TXID gh t of Inl e \<Rightarrow> Inl e
      | Inr (h, t') \<Rightarrow> (case txids_of gh ts of Inl e \<Rightarrow> Inl e | Inr (hs, ts') \<Rightarrow> Inr (h # hs, t' # ts')))"

text \<open>The constructors; \<open>now\<close> is what \<open>std::time(0)\<close> returns.\<close>

definition new_block ::
  "hash_fun \<Rightarrow> u64 \<Rightarrow> 'c block_header option \<Rightarrow> u32 \<Rightarrow> 'c list \<Rightarrow> tx list \<Rightarrow> 'c block result" where
  "new_block gh now prev difficulty comps transactions =
     (case txids_of gh transactions of Inl e \<Rightarrow> Inl e
      | Inr (hashes, txs) \<Rightarrow>
          (case root_of gh hashes of Inl e \<Rightarrow> Inl e
           | Inr root \<Rightarrow> Inr \<lparr>blk_header = BlockHeader_after prev root now difficulty comps,
                              blk_transactions = txs\<rparr>))"

definition genesis_block :: "hash_fun \<Rightarrow> u64 \<Rightarrow> u32 \<Rightarrow> bytes \<Rightarrow> u64 \<Rightarrow> 'c block result" where
  "genesis_block gh timestamp difficulty pubkey amount =
     (case CoinbaseTransaction pubkey amount 0 of Inl e \<Rightarrow> Inl e
      | Inr cb \<Rightarrow> new_block gh timestamp None difficulty [] [cb])"

fun serialize_txs :: "tx list \<Rightarrow> (bytes \<times> tx list) result" where
  "serialize_txs [] = Inr ([], [])"
| "serialize_txs (t # ts) =
     (case tx_serialize t of Inl e \<Rightarrow> Inl e
      | Inr (b, t') \<Rightarrow> (case serialize_txs ts of Inl e \<Rightarrow> Inl e | Inr (bs, ts') \<Rightarrow> Inr (b @ bs, t' # ts')))"

definition block_serialize ::
  "('c, 'p) computation_ops \<Rightarrow> hash_fun \<Rightarrow> 'c block \<Rightarrow> (bytes \<times> 'c block) result" where
  "block_serialize ops gh b =
     (case header_serialize ops gh True (blk_header b) of Inl e \<Rightarrow> Inl e
      | Inr (hser, hdr) \<Rightarrow>
          (case serialize_txs (blk_transactions b) of Inl e \<Rightarrow> Inl e
           | Inr (tser, ts) \<Rightarrow>
               Inr (hser @ uint64_to_vector_big_endian (word_of_nat (length (blk_transactions b))) @ tser,
                    \<lparr>blk_header = hdr, blk_transactions = ts\<rparr>)))"

definition block_hash ::
  "('c, 'p) computation_ops \<Rightarrow> hash_fun \<Rightarrow> bool \<Rightarrow> 'c block \<Rightarrow> (bytes \<times> 'c block) result" where
  "block_hash ops gh force b =
     map_sum id (\<lambda>(h, hdr). (h, b\<lparr>blk_header := hdr\<rparr>)) (header_hash ops gh force (blk_header b))"

record 'p proto_block =
  pb_header :: "'p proto_header"
  pb_transactions :: "proto_tx list"

definition block_to_proto :: "('c, 'p) computation_ops \<Rightarrow> hash_fun \<Rightarrow> 'c block \<Rightarrow> 'p proto_block result" where
  "block_to_proto ops gh b =
     map_sum id (\<lambda>h. \<lparr>pb_header = h, pb_transactions = map tx_to_proto (blk_transactions b)\<rparr>)
       (header_to_proto ops gh (blk_header b))"

text \<open>The first transaction is read as a coinbase.\<close>

definition txs_from_proto :: "hash_fun \<Rightarrow> proto_tx list \<Rightarrow> tx list result" where
  "txs_from_proto gh ps =
     map_res (\<lambda>(i, p). tx_from_proto gh p (i = 0)) (zip [0..<length ps] ps)"

definition block_from_proto :: "('c, 'p) computation_ops \<Rightarrow> hash_fun \<Rightarrow> 'p proto_block \<Rightarrow> 'c block result" where
  "block_from_proto ops gh proto =
     (case header_from_proto ops (pb_header proto) of Inl e \<Rightarrow> Inl e
      | Inr hdr \<Rightarrow> (case txs_from_proto gh (pb_transactions proto) of Inl e \<Rightarrow> Inl e
                  | Inr ts \<Rightarrow> Inr \<lparr>blk_header = hdr, blk_transactions = ts\<rparr>))"

end
