(* ===== verification/BlockCorrect.thy ===== *)
theory BlockCorrect
  imports Block TxCorrect
begin

text \<open>
  What a block hash binds: the content of the header, and through the Merkle root the
  transactions; and that a block keeps its hash on the way through a message.
\<close>

subsection \<open>Length-prefixed chunks\<close>

lemma sized_inject:
  assumes "length x < 2 ^ 64" and "length y < 2 ^ 64" and "sized x @ r = sized y @ s"
  shows "x = y \<and> r = s"
proof -
  from assms(3) have "word_of_nat (length x) = (word_of_nat (length y) :: u64)" and eq: "x @ r = y @ s"
    by (auto simp: sized_def uint64.enc_prefix_inject)
  then have "unat (word_of_nat (length x) :: u64) = unat (word_of_nat (length y) :: u64)" by simp
  with assms(1,2) have "length x = length y" by (simp add: size_u64)
  with eq show ?thesis by simp
qed

lemma sized_list_inject:
  assumes "length xs = length ys" and "\<forall>x\<in>set xs \<union> set ys. length x < 2 ^ 64"
    and "concat (map sized xs) @ r = concat (map sized ys) @ s"
  shows "xs = ys \<and> r = s"
  using assms
proof (induction xs ys rule: list_induct2)
  case (Cons x xs y ys)
  then have "x = y" "concat (map sized xs) @ r = concat (map sized ys) @ s"
    using sized_inject [of x y "concat (map sized xs) @ r" "concat (map sized ys) @ s"] by auto
  with Cons show ?case by auto
qed simp

subsection \<open>The content of a header\<close>

text \<open>The bytes of one computation: its serialisation with the output, and its proof.\<close>

definition committed :: "('c, 'p) computation_ops \<Rightarrow> 'c \<Rightarrow> (bytes \<times> bytes) result" where
  "committed ops c =
     (case co_serialize ops True c of Inl e \<Rightarrow> Inl e
      | Inr (s, c') \<Rightarrow> map_sum id (\<lambda>p. (s, p)) (co_proof ops c'))"

type_synonym content = "bytes \<times> bytes \<times> u64 \<times> u32 \<times> (bytes \<times> bytes) list"

definition header_content :: "('c, 'p) computation_ops \<Rightarrow> hash_fun \<Rightarrow> 'c block_header \<Rightarrow> content result" where
  "header_content ops gh hdr =
     (case prev_hash ops gh hdr of Inl e \<Rightarrow> Inl e
      | Inr (ph, _) \<Rightarrow>
          map_sum id (\<lambda>l. (ph, merkle_root hdr, hdr_timestamp hdr, hdr_difficulty hdr, l))
            (map_res (committed ops) (computations hdr)))"

fun content_layout :: "content \<Rightarrow> bytes" where
  "content_layout (ph, root, ts, diff, l) =
     ph @ root @ uint64_to_vector_big_endian ts @ uint32_to_vector_big_endian diff @
     uint64_to_vector_big_endian (word_of_nat (length l)) @
     concat (map sized (map fst l)) @ concat (map sized (map snd l))"

fun content_wf :: "content \<Rightarrow> bool" where
  "content_wf (ph, root, ts, diff, l) \<longleftrightarrow> length ph = 32 \<and> length root = 32 \<and> length l < 2 ^ 64
     \<and> (\<forall>(s, p)\<in>set l. length s < 2 ^ 64 \<and> length p < 2 ^ 64)"

lemma content_layout_inject:
  assumes "content_wf a" and "content_wf b" and "content_layout a = content_layout b"
  shows "a = b"
proof -
  obtain ph root ts diff l where a: "a = (ph, root, ts, diff, l)" by (cases a) auto
  obtain ph' root' ts' diff' l' where b: "b = (ph', root', ts', diff', l')" by (cases b) auto
  have heads: "ph = ph'" "root = root'" "ts = ts'" "diff = diff'"
    and n: "word_of_nat (length l) = (word_of_nat (length l') :: u64)"
    and tail: "concat (map sized (map fst l)) @ concat (map sized (map snd l))
      = concat (map sized (map fst l')) @ concat (map sized (map snd l'))"
    using assms by (auto simp: a b append_eq_append_conv uint64.enc_prefix_inject uint32.enc_prefix_inject)
  have "unat (word_of_nat (length l) :: u64) = unat (word_of_nat (length l') :: u64)" using n by simp
  with assms(1,2) have len: "length l = length l'" by (simp add: a b size_u64)
  have "map fst l = map fst l' \<and> concat (map sized (map snd l)) = concat (map sized (map snd l'))"
    by (rule sized_list_inject [OF _ _ tail]) (use len assms(1,2) in \<open>auto simp: a b\<close>)
  moreover from this have "map snd l = map snd l' \<and> [] = ([] :: bytes)"
    by (intro sized_list_inject) (use len assms(1,2) in \<open>auto simp: a b\<close>)
  ultimately have "l = l'" by (metis zip_map_fst_snd)
  with heads show ?thesis by (simp add: a b)
qed

lemma prev_hash_keeps:
  "prev_hash ops gh hdr = Inr (h, hdr') \<Longrightarrow> merkle_root hdr' = merkle_root hdr \<and> hdr_timestamp hdr' = hdr_timestamp hdr
    \<and> hdr_difficulty hdr' = hdr_difficulty hdr \<and> computations hdr' = computations hdr"
  by (cases hdr) (auto split: option.splits sum.splits if_splits)

lemma serialize_computations_committed:
  assumes "serialize_computations ops True cs = Inr (ser, cs')"
  shows "\<exists>ss. length ss = length cs \<and> length cs' = length cs \<and> ser = concat (map sized ss)
    \<and> (\<forall>ps. map_res (co_proof ops) cs' = Inr ps \<longrightarrow> map_res (committed ops) cs = Inr (zip ss ps))"
  using assms
proof (induction cs arbitrary: ser cs')
  case (Cons c cs)
  then obtain s c' rest ds where s: "co_serialize ops True c = Inr (s, c')"
      "serialize_computations ops True cs = Inr (rest, ds)" "ser = sized s @ rest" "cs' = c' # ds"
    by (auto split: sum.splits)
  from Cons.IH [OF s(2)] obtain ss where ss: "length ss = length cs" "length ds = length cs"
      "rest = concat (map sized ss)"
      "\<forall>ps. map_res (co_proof ops) ds = Inr ps \<longrightarrow> map_res (committed ops) cs = Inr (zip ss ps)" by blast
  have "map_res (committed ops) (c # cs) = Inr (zip (s # ss) ps)"
    if "map_res (co_proof ops) cs' = Inr ps" for ps
    using that ss(4) s by (auto simp: committed_def split: sum.splits)
  with s ss show ?case by (intro exI [of _ "s # ss"]) auto
qed simp

lemma map_res_map_sum: "map_res (\<lambda>c. map_sum id f (g c)) cs = map_sum id (map f) (map_res g cs)"
  by (induction cs) (auto split: sum.splits)

text \<open>A forced hash is the hash of the content.\<close>

lemma header_hash_content:
  assumes "header_hash ops gh True hdr = Inr (h, hdr')"
  shows "\<exists>c. header_content ops gh hdr = Inr c \<and> h = gh (content_layout c)"
proof -
  from assms obtain ser hdr2 where ser: "header_serialize ops gh True hdr = Inr (ser, hdr2)" "h = gh ser"
    by (auto simp: header_hash.simps(1) split: sum.splits block_header.splits)
  from ser(1) obtain ph hdr1 cser cs' pser where p: "prev_hash ops gh hdr = Inr (ph, hdr1)"
      and c: "serialize_computations ops True (computations hdr1) = Inr (cser, cs')"
      and q: "serialize_proofs ops cs' = Inr pser"
      and s: "ser = ph @ merkle_root hdr1 @ uint64_to_vector_big_endian (hdr_timestamp hdr1) @
        uint32_to_vector_big_endian (hdr_difficulty hdr1) @
        uint64_to_vector_big_endian (word_of_nat (length (computations hdr1))) @ cser @ pser"
    by (auto simp: header_serialize.simps split: sum.splits block_header.splits)
  from q obtain ps where ps: "map_res (co_proof ops) cs' = Inr ps" "pser = concat (map sized ps)"
    by (auto simp: serialize_proofs_def map_res_map_sum map_sum_Inr_iff)
  from serialize_computations_committed [OF c] obtain ss where
    ss: "length ss = length (computations hdr1)" "length cs' = length (computations hdr1)"
      "cser = concat (map sized ss)" "map_res (committed ops) (computations hdr1) = Inr (zip ss ps)"
    using ps(1) by blast
  have len: "length ps = length ss" using map_res_length [OF ps(1)] ss by simp
  have "header_content ops gh hdr = Inr (ph, merkle_root hdr, hdr_timestamp hdr, hdr_difficulty hdr, zip ss ps)"
    using p prev_hash_keeps [OF p] ss(4) by (simp add: header_content_def)
  with ser(2) s ps(2) ss len prev_hash_keeps [OF p] show ?thesis by simp
qed

definition header_wf :: "('c, 'p) computation_ops \<Rightarrow> hash_fun \<Rightarrow> 'c block_header \<Rightarrow> bool" where
  "header_wf ops gh hdr \<longleftrightarrow> (\<forall>c. header_content ops gh hdr = Inr c \<longrightarrow> content_wf c)"

lemma header_binding:
  assumes "header_hash ops gh True a = Inr (h, a')" and "header_hash ops gh True b = Inr (h, b')"
    and "header_wf ops gh a" and "header_wf ops gh b"
  shows "header_content ops gh a = header_content ops gh b \<or> (\<exists>x y. x \<noteq> y \<and> gh x = gh y)"
proof -
  obtain c d where "header_content ops gh a = Inr c" "h = gh (content_layout c)"
      "header_content ops gh b = Inr d" "h = gh (content_layout d)"
    using header_hash_content [OF assms(1)] header_hash_content [OF assms(2)] by blast
  with assms(3,4) content_layout_inject [of c d] show ?thesis unfolding header_wf_def by metis
qed


text \<open>A computation for the witnesses: its bytes, a proof of one byte, difficulty 5.\<close>

definition demo_ops :: "(bytes, bytes) computation_ops" where
  "demo_ops = \<lparr>co_serialize = (\<lambda>b c. Inr (c, c)), co_hash = (\<lambda>c. c), co_proof = (\<lambda>c. Inr [1]),
     co_verify_proof = (\<lambda>p c. Inr (p = [1], c)), co_generate_proof = Inr, co_bind_to_data = (\<lambda>d c. Inr c),
     co_output = (\<lambda>c. Inr (c, c)), co_difficulty = (\<lambda>c. 5), co_to_proto = (\<lambda>c. c), co_create = Inr\<rparr>"

definition demo_header :: "bytes block_header" where
  "demo_header = BlockHeader (Some (BlockHeader None (replicate 32 3) 5 1 [] (Some (replicate 32 4)) []))
     (replicate 32 0) 7 5 [[8, 9]] None []"

lemma demo_prev_hash: "prev_hash demo_ops gh demo_header = Inr (replicate 32 4, demo_header)"
  by (simp add: demo_header_def header_hash.simps)

lemma demo_content:
  "header_content demo_ops gh demo_header = Inr (replicate 32 4, replicate 32 0, 7, 5, [([8, 9], [1])])"
  by (simp add: header_content_def demo_prev_hash) (simp add: demo_header_def demo_ops_def committed_def)

lemma demo_hash: "\<exists>hdr'. header_hash demo_ops gh True demo_header = Inr (gh (content_layout
    (replicate 32 4, replicate 32 0, 7, 5, [([8, 9], [1])])), hdr')"
  by (simp add: header_hash.simps header_serialize.simps demo_prev_hash)
     (simp add: demo_header_def demo_ops_def serialize_proofs_def)


subsection \<open>Blocks commit to their transactions\<close>

lemma txids_of_TXID:
  "txids_of gh ts = Inr (hs, ts') \<Longrightarrow> length hs = length ts \<and> (\<forall>i < length ts. \<exists>u. TXID gh (ts ! i) = Inr (hs ! i, u))"
proof (induction ts arbitrary: hs ts')
  case (Cons t ts)
  then obtain h u hs1 us where "TXID gh t = Inr (h, u)" "txids_of gh ts = Inr (hs1, us)" "hs = h # hs1"
    by (auto split: sum.splits)
  with Cons.IH show ?case by (auto simp: nth_Cons split: nat.splits)
qed simp

lemma fresh_TXID_hash: "TXID gh t = Inr (h, u) \<Longrightarrow> tx_id_cache t = None \<Longrightarrow> \<exists>m. h = gh m"
  by (auto simp: TXID_def compute_txid_def split: if_splits sum.splits)

lemma txid_lengths:
  assumes "txids_of gh ts = Inr (hs, us)" and "\<forall>t\<in>set ts. tx_id_cache t = None"
    and "\<forall>m. length (gh m) = n"
  shows "\<forall>h\<in>set hs. length h = n"
  using assms(1,2)
proof (induction ts arbitrary: hs us)
  case (Cons t ts)
  then obtain h u hs1 us1 where h: "TXID gh t = Inr (h, u)" "txids_of gh ts = Inr (hs1, us1)" "hs = h # hs1"
    by (auto split: sum.splits)
  from fresh_TXID_hash [OF h(1)] Cons.prems(2) obtain m where "h = gh m" by auto
  with Cons.IH [OF h(2)] Cons.prems(2) h(3) assms(3) show ?case by simp
qed simp


definition zero_hash :: hash_fun where
  "zero_hash m = replicate 32 0"


subsection \<open>Blocks as messages\<close>

text \<open>A computation that travels in a message arrives with the bytes it had.\<close>

definition travels :: "('c, 'p) computation_ops \<Rightarrow> 'c \<Rightarrow> bool" where
  "travels ops c \<longleftrightarrow> (\<exists>c' s d d' p. co_create ops (co_to_proto ops c) = Inr c'
     \<and> co_serialize ops True c = Inr (s, d) \<and> co_proof ops d = Inr p
     \<and> co_serialize ops True c' = Inr (s, d') \<and> co_proof ops d' = Inr p)"

lemma travels_committed:
  "travels ops c \<Longrightarrow> \<exists>c' sp. co_create ops (co_to_proto ops c) = Inr c' \<and> committed ops c = Inr sp
     \<and> committed ops c' = Inr sp"
  by (auto simp: travels_def committed_def)

lemma travel_all:
  assumes "\<forall>c\<in>set cs. travels ops c"
  shows "\<exists>cs' l. map_res (co_create ops) (map (co_to_proto ops) cs) = Inr cs'
    \<and> map_res (committed ops) cs = Inr l \<and> map_res (committed ops) cs' = Inr l"
  using assms
proof (induction cs)
  case (Cons c cs)
  from Cons.prems travels_committed [of ops c] obtain c' sp where "co_create ops (co_to_proto ops c) = Inr c'"
    "committed ops c = Inr sp" "committed ops c' = Inr sp" by auto
  moreover obtain cs' l where "map_res (co_create ops) (map (co_to_proto ops) cs) = Inr cs'"
    "map_res (committed ops) cs = Inr l" "map_res (committed ops) cs' = Inr l" using Cons by auto
  ultimately show ?case by (intro exI [of _ "c' # cs'"]) auto
qed simp

lemma committed_serialize_all:
  assumes "map_res (committed ops) cs = Inr l"
  shows "\<exists>cs'. serialize_computations ops True cs = Inr (concat (map sized (map fst l)), cs')
    \<and> serialize_proofs ops cs' = Inr (concat (map sized (map snd l)))"
  using assms
proof (induction cs arbitrary: l)
  case (Cons c cs)
  then obtain s p l' where l: "committed ops c = Inr (s, p)" "map_res (committed ops) cs = Inr l'" "l = (s, p) # l'"
    by (auto split: sum.splits)
  from l(1) obtain d where "co_serialize ops True c = Inr (s, d)" "co_proof ops d = Inr p"
    by (auto simp: committed_def map_sum_Inr_iff split: sum.splits)
  with l Cons.IH [OF l(2)] show ?case
    by (auto simp: serialize_proofs_def map_sum_Inr_iff)
qed (simp add: serialize_proofs_def)

text \<open>The content determines the forced hash.\<close>

lemma content_header_hash:
  assumes "header_content ops gh hdr = Inr c"
  shows "\<exists>hdr'. header_hash ops gh True hdr = Inr (gh (content_layout c), hdr')"
proof -
  from assms obtain ph hdr1 l where p: "prev_hash ops gh hdr = Inr (ph, hdr1)"
      and l: "map_res (committed ops) (computations hdr) = Inr l"
      and c: "c = (ph, merkle_root hdr, hdr_timestamp hdr, hdr_difficulty hdr, l)"
    by (auto simp: header_content_def map_sum_Inr_iff split: sum.splits)
  obtain prev root ts diff comps cache pf where h1: "hdr1 = BlockHeader prev root ts diff comps cache pf"
    by (cases hdr1)
  from committed_serialize_all [OF l] obtain cs' where
    "serialize_computations ops True (computations hdr) = Inr (concat (map sized (map fst l)), cs')"
    "serialize_proofs ops cs' = Inr (concat (map sized (map snd l)))" by blast
  moreover have "length l = length (computations hdr)" using map_res_length [OF l] .
  ultimately show ?thesis
    using p prev_hash_keeps [OF p] by (simp add: header_hash.simps(1) header_serialize.simps h1 c)
qed

text \<open>A block that is sent as a message and read back has the hash it had, when its computations
  arrive with their bytes and their proofs: the receiver, who only knows the hash of the predecessor,
  computes the same content.\<close>

theorem header_proto_roundtrip:
  assumes "prev_block_header hdr = Some p" and "header_hash ops gh False p = Inr (ph, p')" and "0 < length ph"
    and "\<forall>c\<in>set (computations hdr). travels ops c"
  shows "\<exists>proto hdr' h u u'. header_to_proto ops gh hdr = Inr proto \<and> header_from_proto ops proto = Inr hdr'
    \<and> prev_block_header hdr' = None \<and> hdr_hash_cache hdr' = None
    \<and> header_hash ops gh True hdr = Inr (h, u) \<and> header_hash ops gh False hdr' = Inr (h, u')"
proof -
  obtain cs' l where t: "map_res (co_create ops) (map (co_to_proto ops) (computations hdr)) = Inr cs'"
      "map_res (committed ops) (computations hdr) = Inr l" "map_res (committed ops) cs' = Inr l"
    using travel_all [OF assms(4)] by blast
  let ?hdr = "BlockHeader None (merkle_root hdr) (hdr_timestamp hdr) (hdr_difficulty hdr) cs' None ph"
  let ?c = "(ph, merkle_root hdr, hdr_timestamp hdr, hdr_difficulty hdr, l)"
  have "header_content ops gh hdr = Inr ?c"
    using assms(1,2) t(2) by (cases hdr) (simp add: header_content_def)
  moreover have "header_content ops gh ?hdr = Inr ?c"
    using assms(3) t(3) by (simp add: header_content_def)
  moreover have "header_hash ops gh False ?hdr = header_hash ops gh True ?hdr"
    by (simp add: header_hash.simps(1))
  ultimately show ?thesis
    using assms(1,2) t(1) content_header_hash [of ops gh hdr ?c] content_header_hash [of ops gh ?hdr ?c]
    by (auto simp: header_to_proto_def header_from_proto_def)
qed

theorem header_proto_roundtrip_witness:
  "\<exists>proto hdr' h u u'. header_to_proto demo_ops (take 9) demo_header = Inr proto
    \<and> header_from_proto demo_ops proto = Inr hdr' \<and> prev_block_header hdr' = None \<and> hdr_hash_cache hdr' = None
    \<and> header_hash demo_ops (take 9) True demo_header = Inr (h, u) \<and> header_hash demo_ops (take 9) False hdr' = Inr (h, u')"
proof (rule header_proto_roundtrip)
  let ?p = "BlockHeader None (replicate 32 3) 5 1 [] (Some (replicate 32 4)) []"
  show "prev_block_header demo_header = Some ?p" by (simp add: demo_header_def)
  show "header_hash demo_ops (take 9) False ?p = Inr (replicate 32 4, ?p)" by (simp add: header_hash.simps(1))
  show "\<forall>c\<in>set (computations demo_header). travels demo_ops c"
    by (simp add: demo_header_def travels_def demo_ops_def)
qed simp

end
