(* ===== verification/Chain.thy ===== *)
theory Chain
  imports Complex_Main Block Mempool
begin

text \<open>
  \<^verbatim>\<open>src/src/chain/chain.cpp\<close>: the list of headers of the best chain and the validation of
  blocks against it.

  The four stores that a chain shares with the rest of the node are one record, passed and
  returned.  A block in the store and the header in the list are copies here; what the copies may
  disagree on is memoised data (hashes, input amounts, bindings of computations).  \<open>fl\<close> rounds a
  rational number to the nearest \<open>double\<close>.  The JSON configuration is a record of the values that
  the code reads, base64 decoded.
\<close>

record chain_config =
  cfg_public_key :: bytes
  cfg_reward :: u64
  cfg_difficulty :: u32
  cfg_timestamp :: u64
  cfg_hash :: bytes
  cfg_blocks_per_epoch :: u32
  cfg_seconds_per_block :: u64
  cfg_tx_per_block :: u64

record ('c, 'p) node_env =
  env_ops :: "('c, 'p) computation_ops"
  env_gh :: hash_fun
  env_verify :: verify_fun
  env_fl :: "rat \<Rightarrow> rat"
  env_cfg :: chain_config
  env_same_tx :: "tx \<Rightarrow> tx \<Rightarrow> bool"

record 'c stores =
  st_chainstate :: chainstate
  st_blocks :: "'c block blockstore"
  st_pool :: mempool
  st_comps :: "'c compstore"

record 'c chain =
  header_chain :: "'c block_header list"
  total_difficulty :: u64

subsection \<open>Heights, rewards and difficulty\<close>

definition head_header :: "'c chain \<Rightarrow> 'c block_header result" where
  "head_header ch = (if header_chain ch = [] then Inl Out_of_range else Inr (last (header_chain ch)))"

definition current_height :: "'c chain \<Rightarrow> u32" where
  "current_height ch = word_of_nat (length (header_chain ch)) - 1"

definition chain_size :: "'c chain \<Rightarrow> nat" where
  "chain_size ch = length (header_chain ch)"

definition get_header :: "'c chain \<Rightarrow> u32 \<Rightarrow> 'c block_header result" where
  "get_header ch idx =
     (if unat idx < length (header_chain ch) then Inr (header_chain ch ! unat idx) else Inl Out_of_range)"

definition get_epoch :: "chain_config \<Rightarrow> u32 \<Rightarrow> u32 result" where
  "get_epoch cfg height =
     (if cfg_blocks_per_epoch cfg = 0 then Inl (Undefined ''division by zero'')
      else Inr (height div cfg_blocks_per_epoch cfg))"

definition get_current_epoch :: "chain_config \<Rightarrow> 'c chain \<Rightarrow> u32 result" where
  "get_current_epoch cfg ch = get_epoch cfg (current_height ch)"

definition reward_for_height :: "chain_config \<Rightarrow> u32 \<Rightarrow> u64 result" where
  "reward_for_height cfg height_to_check =
     (case get_epoch cfg height_to_check of Inl e \<Rightarrow> Inl e
      | Inr epoch \<Rightarrow>
          if unat epoch < 64 then Inr (drop_bit (unat epoch) (cfg_reward cfg))
          else Inl (Undefined ''shift by the width or more''))"

text \<open>\<open>std::round\<close>, and its conversion to \<open>uint32_t\<close>, which is undefined out of range.\<close>

definition round_half_away :: "rat \<Rightarrow> int" where
  "round_half_away r = (if r < 0 then - \<lfloor>- r + 1 / 2\<rfloor> else \<lfloor>r + 1 / 2\<rfloor>)"

text \<open>
  One step of the retargeting loop: the ratio of the expected time of an epoch to the actual one,
  kept between a quarter and four.  A division by zero gives an infinity, which is clamped, or a
  NaN, which passes both comparisons and then cannot be converted.
\<close>

definition retarget :: "(rat \<Rightarrow> rat) \<Rightarrow> chain_config \<Rightarrow> u64 \<Rightarrow> u64 \<Rightarrow> u32 \<Rightarrow> u32 result" where
  "retarget fl cfg first_ts last_ts difficulty =
     (let actual = sint last_ts - sint first_ts;
          expected = sint (cfg_seconds_per_block cfg) * uint (cfg_blocks_per_epoch cfg)
      in if actual = 0 \<and> expected = 0 then Inl (Undefined ''conversion of NaN to an integer'')
         else let ratio = (if actual = 0 then (if 0 < expected then 4 else 1 / 4)
                           else (let q = fl (fl (of_int expected) / fl (of_int actual))
                                 in if q > 4 then 4 else if q < 1 / 4 then 1 / 4 else q));
                  res = round_half_away (fl (ratio * of_int (uint difficulty)))
              in if 0 \<le> res \<and> res < 2 ^ 32 then Inr (word_of_int res)
                 else Inl (Undefined ''conversion out of range''))"

text \<open>The loop over the epochs; its indices are 32-bit, and the first iteration has \<open>i = 0\<close>.\<close>

fun retarget_loop ::
  "(rat \<Rightarrow> rat) \<Rightarrow> chain_config \<Rightarrow> 'c block_header list \<Rightarrow> u32 list \<Rightarrow> u32 \<Rightarrow> u32 result" where
  "retarget_loop fl cfg headers [] difficulty = Inr difficulty"
| "retarget_loop fl cfg headers (i # idxs) difficulty =
     (let first_idx = unat ((i - 1) * cfg_blocks_per_epoch cfg);
          last_idx = unat (i * cfg_blocks_per_epoch cfg - 1)
      in if length headers \<le> first_idx \<or> length headers \<le> last_idx
         then Inl (Undefined ''header index out of bounds'')
         else case retarget fl cfg (hdr_timestamp (headers ! first_idx)) (hdr_timestamp (headers ! last_idx)) difficulty of
                Inl e \<Rightarrow> Inl e
              | Inr d \<Rightarrow> retarget_loop fl cfg headers idxs d)"

definition get_difficulty_for_height :: "(rat \<Rightarrow> rat) \<Rightarrow> chain_config \<Rightarrow> 'c chain \<Rightarrow> u32 \<Rightarrow> u32 result" where
  "get_difficulty_for_height fl cfg ch height_to_check =
     (case get_epoch cfg height_to_check of Inl e \<Rightarrow> Inl e
      | Inr epochs \<Rightarrow>
          retarget_loop fl cfg (header_chain ch) (map word_of_nat [0..<unat epochs]) (cfg_difficulty cfg))"

subsection \<open>Validation\<close>

text \<open>
  The inputs of one transaction: the keys spent so far in the block, the public keys found, and the
  inputs with their amounts filled in; \<open>None\<close> where the code returns false.
\<close>

fun check_inputs ::
  "chainstate \<Rightarrow> tx_input list \<Rightarrow> bytes list \<Rightarrow> (bytes list \<times> bytes list \<times> tx_input list) option" where
  "check_inputs cs [] refs = Some (refs, [], [])"
| "check_inputs cs (inp # inps) refs =
     (let key = txid_vout_pair_to_key (in_TXID inp) (in_vout inp)
      in if key \<in> set refs then None
         else case utxo_pubkey cs (in_TXID inp) (in_vout inp) of Inl _ \<Rightarrow> None
         | Inr pk \<Rightarrow>
             (case utxo_amount cs (in_TXID inp) (in_vout inp) of Inl _ \<Rightarrow> None
              | Inr am \<Rightarrow>
                  (case check_inputs cs inps (key # refs) of None \<Rightarrow> None
                   | Some (refs', pks, inps') \<Rightarrow> Some (refs', pk # pks, set_amount am inp # inps'))))"

fun check_txs ::
  "verify_fun \<Rightarrow> hash_fun \<Rightarrow> chainstate \<Rightarrow> bool \<Rightarrow> tx list \<Rightarrow> bytes list \<Rightarrow> (u64 \<times> bytes list \<times> tx list) option result" where
  "check_txs verify gh cs is_cb [] refs = Inr (Some (0, [], []))"
| "check_txs verify gh cs is_cb (t # ts) refs =
     (case (if is_cb then Some (refs, [], tx_inputs t) else check_inputs cs (tx_inputs t) refs) of
        None \<Rightarrow> Inr None
      | Some (refs', pubkeys, inps) \<Rightarrow>
          (let t1 = t\<lparr>tx_inputs := inps\<rparr>
           in case (if is_cb then Inr True else validate_transaction verify pubkeys t1) of Inl e \<Rightarrow> Inl e
           | Inr valid \<Rightarrow>
               if \<not> valid then Inr None
               else case (if is_cb then Inr 0 else fee t1) of Inl e \<Rightarrow> Inl e
               | Inr f \<Rightarrow>
                   (case TXID gh t1 of Inl e \<Rightarrow> Inl e
                    | Inr (txid, t2) \<Rightarrow>
                        (case check_txs verify gh cs False ts refs' of Inl e \<Rightarrow> Inl e
                         | Inr None \<Rightarrow> Inr None
                         | Inr (Some (fees, hashes, ts')) \<Rightarrow> Inr (Some (f + fees, txid # hashes, t2 # ts'))))))"

fun with_computations :: "'c list \<Rightarrow> 'c block_header \<Rightarrow> 'c block_header" where
  "with_computations cs (BlockHeader prev mroot ts diff _ cache ph) = BlockHeader prev mroot ts diff cs cache ph"

text \<open>Binding each computation to the header and its index, and checking its proof.\<close>

fun check_proofs :: "('c, 'p) computation_ops \<Rightarrow> bytes \<Rightarrow> u64 \<Rightarrow> 'c list \<Rightarrow> (bool \<times> 'c list) result" where
  "check_proofs ops hser_all idx [] = Inr (True, [])"
| "check_proofs ops hser_all idx (c # cs) =
     (case co_bind_to_data ops (hser_all @ uint64_to_vector_big_endian idx) c of Inl e \<Rightarrow> Inl e
      | Inr c1 \<Rightarrow>
          (case co_proof ops c1 of Inl e \<Rightarrow> Inl e
           | Inr proof \<Rightarrow>
               (case co_verify_proof ops proof c1 of Inl e \<Rightarrow> Inl e
                | Inr (ok, c2) \<Rightarrow>
                    if \<not> ok then Inr (False, c2 # cs)
                    else case check_proofs ops hser_all (idx + 1) cs of Inl e \<Rightarrow> Inl e
                    | Inr (all_ok, cs') \<Rightarrow> Inr (all_ok, c2 # cs'))))"

definition validate_header_unsafe ::
  "('c, 'p) node_env \<Rightarrow> 'c chain \<Rightarrow> 'c block_header \<Rightarrow> u32 \<Rightarrow> (bool \<times> 'c block_header) result" where
  "validate_header_unsafe env ch header height =
     (case get_difficulty_for_height (env_fl env) (env_cfg env) ch height of Inl e \<Rightarrow> Inl e
      | Inr diff_for_height \<Rightarrow>
          if diff_for_height \<noteq> hdr_difficulty header then Inr (False, header)
          else if computations header = [] then Inr (False, header)
          else if sum_list (map (co_difficulty (env_ops env)) (computations header)) < diff_for_height
          then Inr (False, header)
          else case header_serialize (env_ops env) (env_gh env) False header of Inl e \<Rightarrow> Inl e
          | Inr (hser_all, header1) \<Rightarrow>
              (case check_proofs (env_ops env) hser_all 0 (computations header1) of Inl e \<Rightarrow> Inl e
               | Inr (ok, comps) \<Rightarrow> Inr (ok, with_computations comps header1)))"

definition validate_block ::
  "('c, 'p) node_env \<Rightarrow> chainstate \<Rightarrow> 'c chain \<Rightarrow> 'c block \<Rightarrow> u32 \<Rightarrow> (bool \<times> 'c block) result" where
  "validate_block env cs ch block height =
     (if blk_transactions block = [] then Inr (False, block)
      else case check_txs (env_verify env) (env_gh env) cs True (blk_transactions block) [] of Inl e \<Rightarrow> Inl e
      | Inr None \<Rightarrow> Inr (False, block)
      | Inr (Some (allowed_fee, hashes, txs)) \<Rightarrow>
          (case reward_for_height (env_cfg env) height of Inl e \<Rightarrow> Inl e
           | Inr reward \<Rightarrow>
               if tx_outputs (hd txs) = [] then Inl (Undefined ''first output of a coinbase without outputs'')
               else if out_amount (hd (tx_outputs (hd txs))) + allowed_fee < reward
               then Inr (False, block\<lparr>blk_transactions := txs\<rparr>)
               else case root_of (env_gh env) hashes of Inl e \<Rightarrow> Inl e
               | Inr actual_merkle_root \<Rightarrow>
                   if actual_merkle_root \<noteq> merkle_root (blk_header block)
                   then Inr (False, block\<lparr>blk_transactions := txs\<rparr>)
                   else map_sum id (\<lambda>(ok, header). (ok, \<lparr>blk_header = header, blk_transactions = txs\<rparr>))
                          (validate_header_unsafe env ch (blk_header block) height)))"

subsection \<open>Appending\<close>

definition can_attach :: "('c, 'p) node_env \<Rightarrow> 'c chain \<Rightarrow> 'c block_header \<Rightarrow> bool result" where
  "can_attach env ch header =
     (if header_chain ch = [] then Inr True
      else case prev_hash (env_ops env) (env_gh env) header of Inl e \<Rightarrow> Inl e
      | Inr (ph, _) \<Rightarrow>
          (case header_hash (env_ops env) (env_gh env) False (last (header_chain ch)) of Inl e \<Rightarrow> Inl e
           | Inr (h, _) \<Rightarrow> Inr (ph = h)))"

fun with_prev :: "'c block_header \<Rightarrow> 'c block_header \<Rightarrow> 'c block_header" where
  "with_prev p (BlockHeader _ mroot ts diff comps cache ph) = BlockHeader (Some p) mroot ts diff comps cache ph"

text \<open>The tail of \<open>append_block\<close>, once the block is accepted: link it, and tell the four stores.\<close>

definition accept_block ::
  "('c, 'p) node_env \<Rightarrow> 'c block \<Rightarrow> 'c block_header \<Rightarrow> 'c chain \<Rightarrow> 'c stores \<Rightarrow> ('c chain \<times> 'c stores) result" where
  "accept_block env block head ch st =
     (let new_height = word_of_nat (length (header_chain ch));
          b1 = block\<lparr>blk_header := with_prev head (blk_header block)\<rparr>
      in case add_block (env_gh env) (blk_transactions b1) new_height (st_chainstate st) of Inl e \<Rightarrow> Inl e
      | Inr cs \<Rightarrow>
          (case block_hash (env_ops env) (env_gh env) False b1 of Inl e \<Rightarrow> Inl e
           | Inr (h, b2) \<Rightarrow>
               (case pool_spend_block (env_gh env) (env_same_tx env) (blk_transactions b2) (st_pool st) of Inl e \<Rightarrow> Inl e
                | Inr pool \<Rightarrow>
                    Inr (\<lparr>header_chain = butlast (header_chain ch) @ [head, blk_header b2],
                          total_difficulty = total_difficulty ch + ucast (hdr_difficulty (blk_header b2))\<rparr>,
                         \<lparr>st_chainstate = cs, st_blocks = snd (store_block h b2 (st_blocks st)), st_pool = pool,
                          st_comps = comp_spend_block (co_hash (env_ops env)) (computations (blk_header b2))
                                       (st_comps st)\<rparr>))))"

definition append_block ::
  "('c, 'p) node_env \<Rightarrow> 'c block \<Rightarrow> bool \<Rightarrow> 'c chain \<Rightarrow> 'c stores \<Rightarrow> (bool \<times> 'c chain \<times> 'c stores) result" where
  "append_block env block is_already_valid ch st =
     (if header_chain ch = [] then Inl (Undefined ''back of an empty vector'')
      else let new_height = word_of_nat (length (header_chain ch))
      in case prev_hash (env_ops env) (env_gh env) (blk_header block) of Inl e \<Rightarrow> Inl e
      | Inr (ph, header0) \<Rightarrow>
          (case header_hash (env_ops env) (env_gh env) False (last (header_chain ch)) of Inl e \<Rightarrow> Inl e
           | Inr (h, head) \<Rightarrow>
               if ph \<noteq> h then Inl (Invalid_argument ''Cannot attach block to chain'')
               else case (if is_already_valid then Inr (True, block\<lparr>blk_header := header0\<rparr>)
                          else validate_block env (st_chainstate st) ch (block\<lparr>blk_header := header0\<rparr>) new_height) of
                      Inl e \<Rightarrow> Inl e
                    | Inr (valid, b1) \<Rightarrow>
                        if \<not> valid then Inr (False, ch, st)
                        else if hdr_timestamp (blk_header b1) \<le>s hdr_timestamp head then Inr (False, ch, st)
                        else map_sum id (\<lambda>(ch', st'). (True, ch', st')) (accept_block env b1 head ch st)))"

subsection \<open>Genesis\<close>

definition create_genesis :: "('c, 'p) node_env \<Rightarrow> (bytes \<times> 'c block) result" where
  "create_genesis env =
     (let cfg = env_cfg env
      in case genesis_block (env_gh env) (cfg_timestamp cfg) (cfg_difficulty cfg) (cfg_public_key cfg @ [0]) (cfg_reward cfg) of
           Inl e \<Rightarrow> Inl e
         | Inr gen_block \<Rightarrow>
             (case block_hash (env_ops env) (env_gh env) False gen_block of Inl e \<Rightarrow> Inl e
              | Inr (h, b) \<Rightarrow> if cfg_hash cfg \<noteq> h then Inl Assert_failed else Inr (h, b)))"

definition new_chain :: "('c, 'p) node_env \<Rightarrow> 'c stores \<Rightarrow> ('c chain \<times> 'c stores) result" where
  "new_chain env st =
     (case create_genesis env of Inl e \<Rightarrow> Inl e
      | Inr (h, genesis) \<Rightarrow>
          (case add_block (env_gh env) (blk_transactions genesis) 0 (st_chainstate st) of Inl e \<Rightarrow> Inl e
           | Inr cs \<Rightarrow>
               Inr (\<lparr>header_chain = [blk_header genesis],
                     total_difficulty = ucast (hdr_difficulty (blk_header genesis))\<rparr>,
                    st\<lparr>st_blocks := snd (store_block h genesis (st_blocks st)), st_chainstate := cs\<rparr>)))"

end
