(* ===== verification/ChainCorrect.thy ===== *)
theory ChainCorrect
  imports Chain MempoolCorrect BlockCorrect
begin

text \<open>
  What an accepted block satisfies, that the list of headers stays a chain, and where validation
  stops short: the reward of a coinbase has no upper bound and the difficulty of the second epoch
  is read out of bounds.
\<close>

subsection \<open>Inputs\<close>

lemma in_key_set_amount: "in_key (set_amount am i) = in_key i"
  by (simp add: in_key_def set_amount_def)

lemma key_is_in_key: "txid_vout_pair_to_key (in_TXID i) (in_vout i) = in_key i"
  by (simp add: keys_agree in_key_def)

text \<open>The chain state holds the output that an input spends, with this key and the input's amount.\<close>

definition funds :: "chainstate \<Rightarrow> tx_input \<Rightarrow> bytes \<Rightarrow> bool" where
  "funds cs i pk \<longleftrightarrow> utxo_pubkey cs (in_TXID i) (in_vout i) = Inr pk
     \<and> utxo_amount cs (in_TXID i) (in_vout i) = Inr (in_amount i)"

definition spendable :: "verify_fun \<Rightarrow> chainstate \<Rightarrow> tx \<Rightarrow> bool" where
  "spendable verify cs t \<longleftrightarrow>
     (\<exists>pks. list_all2 (funds cs) (tx_inputs t) pks \<and> validate_transaction verify pks t = Inr True)"

lemma check_inputs_spec:
  assumes "check_inputs cs ins refs = Some (refs', pks, ins')"
  shows "set refs' = set (map in_key ins) \<union> set refs \<and> map in_key ins' = map in_key ins
    \<and> distinct (map in_key ins) \<and> set (map in_key ins) \<inter> set refs = {}
    \<and> in_key ` set ins \<subseteq> dom (map_of (storage cs)) \<and> list_all2 (funds cs) ins' pks"
  using assms
proof (induction ins arbitrary: refs refs' pks ins')
  case (Cons i ins)
  from Cons.prems obtain pk am refs1 pks1 ins1 where
    new: "in_key i \<notin> set refs" and pk: "utxo_pubkey cs (in_TXID i) (in_vout i) = Inr pk"
    and am: "utxo_amount cs (in_TXID i) (in_vout i) = Inr am"
    and rest: "check_inputs cs ins (in_key i # refs) = Some (refs', pks1, ins1)"
    and out: "pks = pk # pks1" "ins' = set_amount am i # ins1"
    by (auto simp: key_is_in_key Let_def split: if_splits sum.splits option.splits)
  from pk have "in_key i \<in> dom (map_of (storage cs))"
    by (auto simp: utxo_pubkey_def utxo_at_def in_key_def split: option.splits)
  moreover have "funds cs (set_amount am i) pk" using pk am by (simp add: funds_def set_amount_def)
  ultimately show ?case using Cons.IH [OF rest] new out by (auto simp: in_key_set_amount)
qed simp

lemma serialize_inputs_keys:
  "serialize_inputs ins = Inr (b, ins') \<Longrightarrow> map in_key ins' = map in_key ins"
proof (induction ins arbitrary: b ins')
  case (Cons i ins)
  then obtain bi i' bs ins1 where i: "input_serialize i = Inr (bi, i')" "serialize_inputs ins = Inr (bs, ins1)"
      "ins' = i' # ins1"
    by (auto split: sum.splits)
  from i(1) have "in_key i' = in_key i"
    by (auto simp: input_serialize_def Let_def in_key_def split: sum.splits if_splits)
  with i Cons.IH show ?case by simp
qed simp

lemma TXID_keeps:
  assumes "TXID gh t = Inr (h, u)"
  shows "map in_key (tx_inputs u) = map in_key (tx_inputs t) \<and> tx_outputs u = tx_outputs t"
  using assms serialize_inputs_keys
  by (auto simp: TXID_def compute_txid_def tx_serialize_def split: if_splits option.splits sum.splits)

subsection \<open>Transactions of a block\<close>

text \<open>
  The transactions of a block after pricing, \<open>us\<close>: every payment of them is spendable, and no two
  inputs of the block spend the same output.
\<close>

definition block_priced :: "verify_fun \<Rightarrow> hash_fun \<Rightarrow> chainstate \<Rightarrow> bool \<Rightarrow> tx list \<Rightarrow> u64 \<Rightarrow> bytes list \<Rightarrow> tx list \<Rightarrow> bool" where
  "block_priced verify gh cs cb us fees hashes ts' \<longleftrightarrow>
     length hashes = length us \<and> list_all2 (\<lambda>u (h, t'). TXID gh u = Inr (h, t')) us (zip hashes ts')
     \<and> (\<forall>u\<in>set (if cb then drop 1 us else us). spendable verify cs u)
     \<and> fees = sum_list (map fee_of (if cb then drop 1 us else us))
     \<and> distinct (map in_key (block_spends cb ts'))
     \<and> in_key ` set (block_spends cb ts') \<subseteq> dom (map_of (storage cs))"

lemma check_txs_spec:
  assumes "check_txs verify gh cs cb ts refs = Inr (Some (fees, hashes, ts'))"
  shows "in_key ` set (block_spends cb ts') \<inter> set refs = {}
    \<and> (\<exists>us. map tx_outputs us = map tx_outputs ts \<and> block_priced verify gh cs cb us fees hashes ts')"
  using assms
proof (induction ts arbitrary: cb refs fees hashes ts')
  case Nil
  then show ?case by (simp add: block_priced_def)
next
  case (Cons t ts)
  from Cons.prems obtain refs1 pks ins f txid t2 fees1 hashes1 ts1 where
    ins: "(if cb then Some (refs, [], tx_inputs t) else check_inputs cs (tx_inputs t) refs) = Some (refs1, pks, ins)"
    and valid: "(if cb then Inr True else validate_transaction verify pks (t\<lparr>tx_inputs := ins\<rparr>)) = Inr True"
    and f: "(if cb then Inr 0 else fee (t\<lparr>tx_inputs := ins\<rparr>)) = Inr f"
    and id: "TXID gh (t\<lparr>tx_inputs := ins\<rparr>) = Inr (txid, t2)"
    and rest: "check_txs verify gh cs False ts refs1 = Inr (Some (fees1, hashes1, ts1))"
    and out: "fees = f + fees1" "hashes = txid # hashes1" "ts' = t2 # ts1"
    by (auto simp: Let_def split: option.splits sum.splits if_splits)
  let ?u = "t\<lparr>tx_inputs := ins\<rparr>"
  from Cons.IH [OF rest] obtain us where us: "map tx_outputs us = map tx_outputs ts"
      "block_priced verify gh cs False us fees1 hashes1 ts1" and disj: "in_key ` set (block_spends False ts1) \<inter> set refs1 = {}"
    by blast
  have keys: "map in_key (tx_inputs t2) = map in_key ins" using TXID_keeps [OF id] by simp
  then have key_set: "in_key ` set (tx_inputs t2) = in_key ` set ins" by (metis image_set)
  show ?case
  proof (cases cb)
    case True
    with ins f us disj id out show ?thesis
      by (intro conjI exI [of _ "?u # us"]) (auto simp: block_priced_def)
  next
    case False
    with ins have C: "set refs1 = in_key ` set ins \<union> set refs" "distinct (map in_key ins)"
        "in_key ` set ins \<inter> set refs = {}" "in_key ` set ins \<subseteq> dom (map_of (storage cs))"
        "list_all2 (funds cs) ins pks"
      using check_inputs_spec [of cs "tx_inputs t" refs refs1 pks ins] by (metis if_False image_set)+
    have "spendable verify cs ?u"
      using False valid C(5) by (auto simp: spendable_def)
    moreover have "f = fee_of ?u" using False f by (simp add: fee_of_def)
    moreover have "distinct (map in_key (block_spends False ts'))"
      using us(2) C(1,2) disj keys key_set by (auto simp: out block_priced_def)
    moreover have S: "in_key ` set (block_spends False ts') = in_key ` set ins \<union> in_key ` set (block_spends False ts1)"
      using key_set by (simp add: out image_Un)
    moreover have "in_key ` set (block_spends cb ts') \<subseteq> dom (map_of (storage cs))"
      using us(2) C(4) False S by (simp add: block_priced_def)
    ultimately have "block_priced verify gh cs cb (?u # us) fees hashes ts'"
      using False us(2) id unfolding block_priced_def by (simp add: out)
    moreover have "in_key ` set (block_spends cb ts') \<inter> set refs = {}"
      using False disj C(1,3) by (simp add: S) blast
    ultimately show ?thesis using us(1) by (intro conjI exI [of _ "?u # us"]) simp_all
  qed
qed

subsection \<open>Headers\<close>

text \<open>Every computation, bound to the header and its index, has a proof that verifies.\<close>

definition proved_work :: "('c, 'p) node_env \<Rightarrow> 'c block_header \<Rightarrow> bool" where
  "proved_work env hdr \<longleftrightarrow> (\<exists>ser hdr1. header_serialize (env_ops env) (env_gh env) False hdr = Inr (ser, hdr1)
     \<and> (\<forall>i < length (computations hdr1). \<exists>c1 p c2.
          co_bind_to_data (env_ops env) (ser @ uint64_to_vector_big_endian (word_of_nat i)) (computations hdr1 ! i) = Inr c1
          \<and> co_proof (env_ops env) c1 = Inr p \<and> co_verify_proof (env_ops env) p c1 = Inr (True, c2)))"

lemma check_proofs_spec:
  assumes "check_proofs ops ser n cs = Inr (True, cs')"
  shows "\<forall>i < length cs. \<exists>c1 p c2. co_bind_to_data ops (ser @ uint64_to_vector_big_endian (n + word_of_nat i)) (cs ! i) = Inr c1
    \<and> co_proof ops c1 = Inr p \<and> co_verify_proof ops p c1 = Inr (True, c2)"
  using assms
proof (induction cs arbitrary: n cs')
  case (Cons c cs)
  then obtain c1 p c2 ds where c: "co_bind_to_data ops (ser @ uint64_to_vector_big_endian n) c = Inr c1"
      "co_proof ops c1 = Inr p" "co_verify_proof ops p c1 = Inr (True, c2)" "check_proofs ops ser (n + 1) cs = Inr (True, ds)"
    by (auto split: sum.splits if_splits)
  show ?case
  proof (intro allI impI)
    fix i
    assume "i < length (c # cs)"
    with c(1-3) Cons.IH [OF c(4)] show "\<exists>c1 p c2. co_bind_to_data ops (ser @ uint64_to_vector_big_endian (n + word_of_nat i)) ((c # cs) ! i) = Inr c1
      \<and> co_proof ops c1 = Inr p \<and> co_verify_proof ops p c1 = Inr (True, c2)"
      by (cases i) (auto simp: add.assoc)
  qed
qed simp

lemma validate_header_spec:
  assumes "validate_header_unsafe env ch hdr height = Inr (True, hdr')"
  shows "get_difficulty_for_height (env_fl env) (env_cfg env) ch height = Inr (hdr_difficulty hdr)
    \<and> computations hdr \<noteq> []
    \<and> hdr_difficulty hdr \<le> sum_list (map (co_difficulty (env_ops env)) (computations hdr))
    \<and> proved_work env hdr"
proof -
  from assms obtain ser hdr1 comps where d: "get_difficulty_for_height (env_fl env) (env_cfg env) ch height = Inr (hdr_difficulty hdr)"
      "computations hdr \<noteq> []" "hdr_difficulty hdr \<le> sum_list (map (co_difficulty (env_ops env)) (computations hdr))"
    and s: "header_serialize (env_ops env) (env_gh env) False hdr = Inr (ser, hdr1)"
      "check_proofs (env_ops env) ser 0 (computations hdr1) = Inr (True, comps)"
    by (auto simp: validate_header_unsafe_def not_less split: sum.splits if_splits)
  from check_proofs_spec [OF s(2)] s(1) have "proved_work env hdr"
    unfolding proved_work_def by auto
  with d show ?thesis by blast
qed

text \<open>C1. What a block that passes \<open>validate_block\<close> satisfies: no two of its inputs spend the same
  output, all of them spend outputs of the chain state with valid signatures for the keys and
  sufficient amounts found there, the coinbase and the fees reach the reward, the Merkle root is that of its
  transactions, the difficulty is the one for the height, and enough work was done, each
  computation with a proof that verifies for this header.\<close>

theorem validate_block_sound:
  assumes "validate_block env cs ch b height = Inr (True, b')"
  shows "\<exists>us fees hashes reward.
      map tx_outputs us = map tx_outputs (blk_transactions b)
    \<and> block_priced (env_verify env) (env_gh env) cs True us fees hashes (blk_transactions b')
    \<and> reward_for_height (env_cfg env) height = Inr reward
    \<and> reward \<le> out_amount (hd (tx_outputs (hd (blk_transactions b')))) + fees
    \<and> root_of (env_gh env) hashes = Inr (merkle_root (blk_header b))
    \<and> get_difficulty_for_height (env_fl env) (env_cfg env) ch height = Inr (hdr_difficulty (blk_header b))
    \<and> hdr_difficulty (blk_header b)
        \<le> sum_list (map (co_difficulty (env_ops env)) (computations (blk_header b)))
    \<and> proved_work env (blk_header b)"
proof -
  from assms obtain fees hashes txs reward hdr' where
    t: "check_txs (env_verify env) (env_gh env) cs True (blk_transactions b) [] = Inr (Some (fees, hashes, txs))"
    and r: "reward_for_height (env_cfg env) height = Inr reward"
      "reward \<le> out_amount (hd (tx_outputs (hd txs))) + fees"
    and m: "root_of (env_gh env) hashes = Inr (merkle_root (blk_header b))"
    and h: "validate_header_unsafe env ch (blk_header b) height = Inr (True, hdr')"
    and b': "blk_transactions b' = txs"
    by (auto simp: validate_block_def map_sum_Inr_iff not_less split: if_splits sum.splits option.splits)
  from check_txs_spec [OF t] validate_header_spec [OF h] r m show ?thesis unfolding b' by blast
qed

subsection \<open>The list of headers stays a chain\<close>

text \<open>
  The first header has no predecessor, each other points to the one before it, is younger, and all but the last have their hash
  memoised; the total difficulty is the 64-bit sum.
\<close>

definition follows :: "'c block_header \<Rightarrow> 'c block_header \<Rightarrow> bool" where
  "follows p n \<longleftrightarrow> prev_block_header n = Some p \<and> hdr_hash_cache p \<noteq> None \<and> hdr_timestamp p <s hdr_timestamp n"

definition chain_ok :: "'c chain \<Rightarrow> bool" where
  "chain_ok ch \<longleftrightarrow> header_chain ch \<noteq> [] \<and> prev_block_header (header_chain ch ! 0) = None
     \<and> (\<forall>i. Suc i < length (header_chain ch) \<longrightarrow> follows (header_chain ch ! i) (header_chain ch ! Suc i))
     \<and> total_difficulty ch = sum_list (map (\<lambda>h. ucast (hdr_difficulty h)) (header_chain ch))"

definition prev_known :: "'c block_header \<Rightarrow> bool" where
  "prev_known hdr \<longleftrightarrow> (\<forall>p. prev_block_header hdr = Some p \<longrightarrow> hdr_hash_cache p \<noteq> None)"

lemma prev_hash_known: "prev_known hdr \<Longrightarrow> prev_hash ops gh hdr = Inr (h, hdr') \<Longrightarrow> hdr' = hdr"
  by (cases hdr) (auto simp: prev_known_def header_hash.simps(1) split: option.splits sum.splits if_splits)

lemma header_hash_keeps:
  assumes "prev_known hdr" and "header_hash ops gh force hdr = Inr (h, hdr')"
  shows "prev_block_header hdr' = prev_block_header hdr \<and> hdr_timestamp hdr' = hdr_timestamp hdr
    \<and> hdr_difficulty hdr' = hdr_difficulty hdr \<and> merkle_root hdr' = merkle_root hdr \<and> hdr_hash_cache hdr' = Some h"
proof (cases "\<not> force \<and> hdr_hash_cache hdr \<noteq> None")
  case True
  with assms(2) show ?thesis by (auto simp: header_hash.simps(1))
next
  case False
  with assms(2) obtain ser hdr2 where ser: "header_serialize ops gh True hdr = Inr (ser, hdr2)"
      and out: "h = gh ser" "prev_block_header hdr' = prev_block_header hdr2" "hdr_timestamp hdr' = hdr_timestamp hdr2"
        "hdr_difficulty hdr' = hdr_difficulty hdr2" "merkle_root hdr' = merkle_root hdr2" "hdr_hash_cache hdr' = Some h"
    by (auto simp: header_hash.simps(1) split: sum.splits block_header.splits option.splits if_splits)
  from ser obtain ph hdr1 where "prev_hash ops gh hdr = Inr (ph, hdr1)"
      "prev_block_header hdr2 = prev_block_header hdr1" "hdr_timestamp hdr2 = hdr_timestamp hdr1"
      "hdr_difficulty hdr2 = hdr_difficulty hdr1" "merkle_root hdr2 = merkle_root hdr1"
    by (auto simp: header_serialize.simps split: sum.splits block_header.splits)
  with prev_hash_known [OF assms(1)] out show ?thesis by auto
qed

lemma with_prev_fields:
  "prev_block_header (with_prev p hdr) = Some p \<and> hdr_timestamp (with_prev p hdr) = hdr_timestamp hdr
    \<and> hdr_difficulty (with_prev p hdr) = hdr_difficulty hdr \<and> merkle_root (with_prev p hdr) = merkle_root hdr
    \<and> computations (with_prev p hdr) = computations hdr"
  by (cases hdr) simp

lemma chain_ok_prev_known:
  assumes "chain_ok ch" and "hdr \<in> set (header_chain ch)"
  shows "prev_known hdr"
proof -
  from assms(2) obtain i where "i < length (header_chain ch)" "hdr = header_chain ch ! i"
    by (auto simp: in_set_conv_nth)
  with assms(1) show ?thesis
    by (cases i) (auto simp: chain_ok_def follows_def prev_known_def)
qed

text \<open>Replacing the head by its hashed version and adding a block on top of it.\<close>

lemma chain_ok_extend:
  assumes "chain_ok ch" and "prev_block_header head = prev_block_header (last (header_chain ch))"
    and "hdr_timestamp head = hdr_timestamp (last (header_chain ch))"
    and "hdr_difficulty head = hdr_difficulty (last (header_chain ch))" and "follows head new"
  shows "chain_ok \<lparr>header_chain = butlast (header_chain ch) @ [head, new],
    total_difficulty = total_difficulty ch + ucast (hdr_difficulty new)\<rparr>"
proof -
  let ?l = "butlast (header_chain ch)"
  have hc: "header_chain ch = ?l @ [last (header_chain ch)]" using assms(1) by (simp add: chain_ok_def)
  have lk: "follows (?l ! i) ((?l @ [head]) ! Suc i)" if "Suc i < length (?l @ [head])" for i
  proof -
    have "Suc i < length (header_chain ch)" using that by simp
    then have f: "follows (header_chain ch ! i) (header_chain ch ! Suc i)" using assms(1) by (simp add: chain_ok_def)
    have "header_chain ch ! i = ?l ! i" using that by (simp add: nth_butlast)
    moreover have "header_chain ch ! Suc i = (if Suc i < length ?l then ?l ! Suc i else last (header_chain ch))"
      using that hc by (metis (no_types, lifting) assms(1) chain_ok_def last_conv_nth length_append_singleton
        less_Suc_eq nth_butlast diff_Suc_1 length_butlast)
    ultimately show ?thesis
      using f that assms(2,3) by (auto simp: follows_def nth_append less_Suc_eq)
  qed
  have "follows ((?l @ [head, new]) ! i) ((?l @ [head, new]) ! Suc i)"
    if "Suc i < length (?l @ [head, new])" for i
  proof (cases "Suc i < length (?l @ [head])")
    case True
    with lk [OF True] show ?thesis by (simp add: nth_append split: if_splits)
  next
    case False
    with that have "i = length ?l" by simp
    with assms(5) show ?thesis by (simp add: nth_append)
  qed
  moreover have "total_difficulty ch = sum_list (map (\<lambda>h. ucast (hdr_difficulty h)) (?l @ [head]))"
    using assms(1,4) hc unfolding chain_ok_def by (metis (no_types, lifting) list.simps(8,9) map_append)
  moreover have "prev_block_header ((?l @ [head, new]) ! 0) = None"
  proof (cases ?l)
    case Nil
    with hc have "header_chain ch = [last (header_chain ch)]" by simp
    with assms(1,2) Nil show ?thesis by (metis append_Nil chain_ok_def nth_Cons_0)
  next
    case (Cons x xs)
    with hc have "header_chain ch ! 0 = x" by (metis append_Cons nth_Cons_0)
    with assms(1) Cons show ?thesis by (simp add: chain_ok_def)
  qed
  ultimately show ?thesis by (simp add: chain_ok_def)
qed

lemma accept_block_spec:
  assumes "accept_block env b head ch st = Inr (ch', st')" and "hdr_hash_cache head \<noteq> None"
  shows "\<exists>h new. header_chain ch' = butlast (header_chain ch) @ [head, new]
    \<and> total_difficulty ch' = total_difficulty ch + ucast (hdr_difficulty new)
    \<and> prev_block_header new = Some head \<and> hdr_timestamp new = hdr_timestamp (blk_header b)
    \<and> hdr_hash_cache new = Some h \<and> map_of (st_blocks st') h \<noteq> None
    \<and> add_block (env_gh env) (blk_transactions b) (word_of_nat (length (header_chain ch))) (st_chainstate st)
        = Inr (st_chainstate st')
    \<and> pool_spend_block (env_gh env) (env_same_tx env) (blk_transactions b) (st_pool st) = Inr (st_pool st')
    \<and> st_comps st' = comp_spend_block (co_hash (env_ops env)) (computations new) (st_comps st)"
proof -
  let ?b1 = "b\<lparr>blk_header := with_prev head (blk_header b)\<rparr>"
  from assms(1) obtain cs h b2 pool where
    cs: "add_block (env_gh env) (blk_transactions b) (word_of_nat (length (header_chain ch))) (st_chainstate st) = Inr cs"
    and h: "block_hash (env_ops env) (env_gh env) False ?b1 = Inr (h, b2)"
    and pool: "pool_spend_block (env_gh env) (env_same_tx env) (blk_transactions b2) (st_pool st) = Inr pool"
    and ch': "ch' = \<lparr>header_chain = butlast (header_chain ch) @ [head, blk_header b2],
        total_difficulty = total_difficulty ch + ucast (hdr_difficulty (blk_header b2))\<rparr>"
    and st': "st' = \<lparr>st_chainstate = cs, st_blocks = snd (store_block h b2 (st_blocks st)), st_pool = pool,
        st_comps = comp_spend_block (co_hash (env_ops env)) (computations (blk_header b2)) (st_comps st)\<rparr>"
    by (auto simp: accept_block_def Let_def split: sum.splits)
  from h obtain new where new: "header_hash (env_ops env) (env_gh env) False (with_prev head (blk_header b)) = Inr (h, new)"
      "b2 = ?b1\<lparr>blk_header := new\<rparr>"
    by (auto simp: block_hash_def map_sum_Inr_iff)
  have "prev_known (with_prev head (blk_header b))"
    using assms(2) by (simp add: prev_known_def with_prev_fields)
  from header_hash_keeps [OF this new(1)] cs pool new(2) show ?thesis
    by (auto simp: ch' st' with_prev_fields blockstore.insert_lookup)
qed

lemma append_block_accepted:
  assumes "append_block env b already_valid ch st = Inr (True, ch', st')"
  shows "\<exists>h head b1. header_hash (env_ops env) (env_gh env) False (last (header_chain ch)) = Inr (h, head)
    \<and> \<not> hdr_timestamp (blk_header b1) \<le>s hdr_timestamp head \<and> accept_block env b1 head ch st = Inr (ch', st')"
proof -
  from assms obtain h header0 head where
    h: "prev_hash (env_ops env) (env_gh env) (blk_header b) = Inr (h, header0)"
      "header_hash (env_ops env) (env_gh env) False (last (header_chain ch)) = Inr (h, head)" "header_chain ch \<noteq> []"
    by (auto simp: append_block_def Let_def split: sum.splits if_splits)
  let ?v = "if already_valid then Inr (True, b\<lparr>blk_header := header0\<rparr>)
    else validate_block env (st_chainstate st) ch (b\<lparr>blk_header := header0\<rparr>) (word_of_nat (length (header_chain ch)))"
  obtain b1 where "?v = Inr (True, b1)"
    using assms h by (auto simp: append_block_def Let_def split: sum.splits if_splits)
  with assms h have "\<not> hdr_timestamp (blk_header b1) \<le>s hdr_timestamp head"
    "accept_block env b1 head ch st = Inr (ch', st')"
    by (auto simp: append_block_def Let_def map_sum_Inr_iff split: if_splits)
  with h(2) show ?thesis by blast
qed


subsection \<open>A small chain\<close>

definition demo_cfg :: chain_config where
  "demo_cfg = \<lparr>cfg_public_key = replicate 32 1, cfg_reward = 50, cfg_difficulty = 5, cfg_timestamp = 1,
     cfg_hash = [], cfg_blocks_per_epoch = 100, cfg_seconds_per_block = 10, cfg_tx_per_block = 4\<rparr>"

definition demo_env :: "(bytes, bytes) node_env" where
  "demo_env = \<lparr>env_ops = demo_ops, env_gh = zero_hash, env_verify = (\<lambda>s m k. True), env_fl = (\<lambda>r. r),
     env_cfg = demo_cfg, env_same_tx = (=)\<rparr>"

definition demo_genesis :: "bytes block_header" where
  "demo_genesis = BlockHeader None (replicate 32 0) 1 5 [] (Some (replicate 32 0)) []"

definition demo_chain :: "bytes chain" where
  "demo_chain = \<lparr>header_chain = [demo_genesis], total_difficulty = 5\<rparr>"

definition demo_stores :: "bytes stores" where
  "demo_stores = \<lparr>st_chainstate = empty_chainstate, st_blocks = [], st_pool = empty_mempool, st_comps = []\<rparr>"

text \<open>A block whose coinbase pays out \<open>am\<close>.\<close>

definition demo_block :: "u64 \<Rightarrow> bytes block" where
  "demo_block am = \<lparr>blk_header = BlockHeader None (replicate 32 0) 2 5 [[8, 9]] None (replicate 32 0),
     blk_transactions = [\<lparr>tx_inputs = [], tx_outputs = [sample_output am], tx_id_cache = Some (replicate 32 0)\<rparr>]\<rparr>"

lemmas demo_defs = demo_cfg_def demo_env_def demo_genesis_def demo_chain_def demo_stores_def demo_block_def
  demo_ops_def zero_hash_def

lemma demo_validate:
  "validate_block demo_env empty_chainstate demo_chain (demo_block am) 1 = Inr (50 \<le> am, demo_block am)"
  by (simp add: validate_block_def validate_header_unsafe_def get_difficulty_for_height_def get_epoch_def
      reward_for_height_def root_of_def compute_root.simps TXID_def header_serialize.simps demo_defs
      sample_output_def not_less) (simp add: not_le)

lemma demo_append:
  "\<exists>ch' st'. append_block demo_env (demo_block (- 1)) False demo_chain demo_stores = Inr (True, ch', st')
    \<and> utxo_amount (st_chainstate st') (replicate 32 0) 0 = Inr (- 1)"
proof -
  have "validate_block demo_env empty_chainstate demo_chain (demo_block (- 1)) 1 = Inr (True, demo_block (- 1))"
    by (simp add: demo_validate)
  then show ?thesis
    by (simp add: append_block_def accept_block_def demo_defs header_hash.simps(1) header_serialize.simps
        block_hash_def add_block_def txid_of_def TXID_def add_utxo_def UTXORecord_def sodium_sizes
        empty_chainstate_def pool_spend_block_def serialize_proofs_def sample_output_def
        utxo_amount_def utxo_at_def word_sle_eq)
qed


lemma unat_uminus32:
  assumes "(b :: u32) \<noteq> 0"
  shows "unat (- b) = 2 ^ 32 - unat b"
proof -
  have "uint b \<noteq> 0" using assms by (simp add: uint_0_iff)
  moreover have "0 \<le> uint b" "uint b < 2 ^ 32" using uint_bounded [of b] by simp_all
  ultimately have "(- uint b) mod 2 ^ 32 = 2 ^ 32 - uint b"
    by (simp add: zmod_zminus1_eq_if)
  moreover have "uint (- b) = (- uint b) mod 2 ^ 32" by (simp add: uint_word_ariths)
  ultimately have "uint (- b) = 2 ^ 32 - uint b" by simp
  then have "unat (- b) = nat (2 ^ 32 - uint b)" by (simp flip: nat_uint_eq)
  then show ?thesis using \<open>uint b < 2 ^ 32\<close> nat_diff_distrib [of "uint b" "2 ^ 32"] by simp
qed

text \<open>C4. From the second epoch on no difficulty can be computed: the loop starts at epoch 0, whose
  first header has the index \<open>- blocks_per_epoch\<close>, in 32 bits, which no chain of a realistic length
  has.\<close>

theorem second_epoch_difficulty_out_of_bounds:
  assumes "0 < cfg_blocks_per_epoch cfg" and "cfg_blocks_per_epoch cfg \<le> height"
    and "length (header_chain ch) \<le> 2 ^ 32 - unat (cfg_blocks_per_epoch cfg)"
  shows "get_difficulty_for_height fl cfg ch height = Inl (Undefined ''header index out of bounds'')"
proof -
  let ?b = "cfg_blocks_per_epoch cfg"
  have ne: "?b \<noteq> 0" using assms(1) by auto
  have "unat ?b \<le> unat height" using assms(2) by (simp add: word_le_nat_alt)
  moreover have "0 < unat ?b" using assms(1) by (simp add: unat_gt_0)
  ultimately have "0 < unat (height div ?b)" by (simp add: unat_div div_greater_zero_iff)
  then obtain idxs where idxs: "map word_of_nat [0..<unat (height div ?b)] = (0 :: u32) # idxs"
    by (simp add: upt_conv_Cons)
  have "unat ((0 - 1) * ?b) = 2 ^ 32 - unat ?b"
    using unat_uminus32 [OF ne] by simp
  with assms(3) have "length (header_chain ch) \<le> unat ((0 - 1) * ?b)" by simp
  with ne show ?thesis
    by (simp add: get_difficulty_for_height_def get_epoch_def idxs Let_def)
qed

theorem second_epoch_difficulty_out_of_bounds_witness:
  "get_difficulty_for_height (\<lambda>r. r) demo_cfg demo_chain 100 = Inl (Undefined ''header index out of bounds'')"
  by (rule second_epoch_difficulty_out_of_bounds) (simp_all add: demo_cfg_def demo_chain_def)

theorem validate_block_sound_witness:
  "\<exists>us fees hashes reward.
      map tx_outputs us = map tx_outputs (blk_transactions (demo_block 60))
    \<and> block_priced (env_verify demo_env) (env_gh demo_env) empty_chainstate True us fees hashes
        (blk_transactions (demo_block 60))
    \<and> reward_for_height (env_cfg demo_env) 1 = Inr reward
    \<and> reward \<le> out_amount (hd (tx_outputs (hd (blk_transactions (demo_block 60))))) + fees
    \<and> root_of (env_gh demo_env) hashes = Inr (merkle_root (blk_header (demo_block 60)))
    \<and> get_difficulty_for_height (env_fl demo_env) (env_cfg demo_env) demo_chain 1
        = Inr (hdr_difficulty (blk_header (demo_block 60)))
    \<and> hdr_difficulty (blk_header (demo_block 60))
        \<le> sum_list (map (co_difficulty (env_ops demo_env)) (computations (blk_header (demo_block 60))))
    \<and> proved_work demo_env (blk_header (demo_block 60))"
  by (rule validate_block_sound) (simp add: demo_validate)


end
