(* ===== verification/Wallet.thy ===== *)
theory Wallet
  imports Chain
begin

text \<open>
  \<^verbatim>\<open>src/src/wallet/wallet.cpp\<close>: the coins of one key, and payments from them.

  A coin is a transaction input that waits to be signed.  The wallet shares its coins with the
  transactions it makes, so signing a transaction signs the coins in the wallet too: the new
  wallet that \<open>new_transaction\<close> returns holds the signed inputs.
\<close>

record wallet =
  w_public_key :: bytes
  w_secret_key :: bytes
  coins :: "(bytes \<times> tx_input) list"

text \<open>The two constructors: keys from the configuration, and a fresh pair from libsodium.\<close>

definition Wallet_from_config :: "bytes \<Rightarrow> bytes \<Rightarrow> wallet" where
  "Wallet_from_config public_key secret_key =
     \<lparr>w_public_key = public_key, w_secret_key = secret_key, coins = []\<rparr>"

definition Wallet_generated :: "bytes \<times> bytes \<Rightarrow> wallet" where
  "Wallet_generated keypair = \<lparr>w_public_key = fst keypair, w_secret_key = snd keypair, coins = []\<rparr>"

subsection \<open>Payments\<close>

text \<open>Coins are taken in the order of the map until they cover the total.\<close>

fun collect_coins ::
  "u64 \<Rightarrow> u64 \<Rightarrow> (bytes \<times> tx_input) list \<Rightarrow> (bytes \<times> tx_input) list \<Rightarrow> (bytes \<times> tx_input) list option" where
  "collect_coins total_needed current_funds inputs [] = None"
| "collect_coins total_needed current_funds inputs ((k, coin) # rest) =
     (let inputs' = inputs @ [(k, coin)]; funds' = current_funds + in_amount coin
      in if total_needed \<le> funds' then Some inputs' else collect_coins total_needed funds' inputs' rest)"

definition new_transaction :: "sign_fun \<Rightarrow> bytes \<Rightarrow> u64 \<Rightarrow> u64 \<Rightarrow> wallet \<Rightarrow> (tx \<times> wallet) result" where
  "new_transaction sign_det rec_pub_key amount f w =
     (case collect_coins (amount + f) 0 [] (coins w) of
        None \<Rightarrow> Inl (Runtime_error ''Not enough coins to create transaction.'')
      | Some used \<Rightarrow>
          (case Transaction_spend (map snd used) (w_public_key w) rec_pub_key amount f of Inl e \<Rightarrow> Inl e
           | Inr t \<Rightarrow>
               (case sign sign_det (w_public_key w) (w_secret_key w) t of Inl e \<Rightarrow> Inl e
                | Inr t' \<Rightarrow>
                    Inr (t', w\<lparr>coins := AList.updates (map fst used) (tx_inputs t') (coins w)\<rparr>))))"

subsection \<open>Following the chain\<close>

fun filter_outputs ::
  "hash_fun \<Rightarrow> bytes \<Rightarrow> tx \<Rightarrow> u64 \<Rightarrow> tx_output list \<Rightarrow> (bytes \<times> tx_input) list \<Rightarrow> (bytes \<times> tx_input) list result" where
  "filter_outputs gh pk t idx [] cns = Inr cns"
| "filter_outputs gh pk t idx (outp # outps) cns =
     (if out_public_key outp = pk
      then case txid_of gh t of Inl e \<Rightarrow> Inl e
           | Inr txid \<Rightarrow>
               filter_outputs gh pk t (idx + 1) outps
                 (AList.update (txid_vout_pair_to_key txid idx)
                    (set_amount (out_amount outp) (TransactionInput txid idx)) cns)
      else filter_outputs gh pk t (idx + 1) outps cns)"

definition filter_transaction :: "hash_fun \<Rightarrow> tx \<Rightarrow> wallet \<Rightarrow> wallet result" where
  "filter_transaction gh t w =
     map_sum id (\<lambda>cns. w\<lparr>coins := cns\<rparr>) (filter_outputs gh (w_public_key w) t 0 (tx_outputs t) (coins w))"

definition remove_coin :: "bytes \<Rightarrow> u64 \<Rightarrow> wallet \<Rightarrow> bool \<times> wallet" where
  "remove_coin txid vout w =
     (let key = txid_vout_pair_to_key txid vout
      in (map_of (coins w) key \<noteq> None, w\<lparr>coins := AList.delete key (coins w)\<rparr>))"

definition spend_transaction :: "tx \<Rightarrow> wallet \<Rightarrow> wallet" where
  "spend_transaction t w = fold (\<lambda>inp w. snd (remove_coin (in_TXID inp) (in_vout inp) w)) (tx_inputs t) w"

definition wallet_filter_block :: "hash_fun \<Rightarrow> tx list \<Rightarrow> wallet \<Rightarrow> wallet result" where
  "wallet_filter_block gh transactions w = fold_res (filter_transaction gh) transactions w"

definition wallet_spend_block :: "tx list \<Rightarrow> wallet \<Rightarrow> wallet" where
  "wallet_spend_block transactions w = fold spend_transaction transactions w"

definition rescan_header :: "('c, 'p) node_env \<Rightarrow> 'c block blockstore \<Rightarrow> 'c block_header \<Rightarrow> wallet \<Rightarrow> wallet result" where
  "rescan_header env block_store header w =
     (case header_hash (env_ops env) (env_gh env) False header of Inl e \<Rightarrow> Inl e
      | Inr (h, _) \<Rightarrow>
          (case get_block h block_store of Inl e \<Rightarrow> Inl e
           | Inr block \<Rightarrow>
               wallet_filter_block (env_gh env) (blk_transactions block)
                 (wallet_spend_block (blk_transactions block) w)))"

definition rescan :: "('c, 'p) node_env \<Rightarrow> 'c block_header list \<Rightarrow> 'c block blockstore \<Rightarrow> wallet \<Rightarrow> wallet result" where
  "rescan env chain_headers block_store w =
     fold_res (rescan_header env block_store) chain_headers (w\<lparr>coins := []\<rparr>)"

end
