(* ===== verification/WalletCorrect.thy ===== *)
theory WalletCorrect
  imports Wallet ChainCorrect
begin

text \<open>
  The wallet follows the chain state: its coins stay exactly the unspent outputs of its key.  And
  what sharing coins with transactions does to the second payment.
\<close>

subsection \<open>Signing\<close>

lemma same_tx_update:
  "i < length (tx_inputs t) \<Longrightarrow> ref x = ref (tx_inputs t ! i) \<Longrightarrow> same_tx t (t\<lparr>tx_inputs := (tx_inputs t)[i := x]\<rparr>)"
  by (simp add: same_tx_def map_update list_update_same_conv)

lemma set_signature_ref: "set_signature sg tmp i = Inr i' \<Longrightarrow> ref i' = ref i \<and> in_sig_size i' = in_sig_size i"
  by (auto simp: set_signature_def Let_def ref_def split: if_splits)

lemma serialize_inputs_refs:
  "serialize_inputs ins = Inr (b, ins') \<Longrightarrow> map ref ins' = map ref ins"
proof (induction ins arbitrary: b ins')
  case (Cons i ins)
  then obtain bi i' bs ins1 where i: "input_serialize i = Inr (bi, i')" "serialize_inputs ins = Inr (bs, ins1)"
      "ins' = i' # ins1"
    by (auto split: sum.splits)
  from i(1) have "ref i' = ref i"
    by (auto simp: input_serialize_def Let_def ref_def split: sum.splits if_splits)
  with i Cons.IH show ?case by simp
qed simp

lemma tx_serialize_same: "tx_serialize t = Inr (b, t') \<Longrightarrow> same_tx t t'"
  using serialize_inputs_refs by (auto simp: tx_serialize_def same_tx_def split: sum.splits)

lemma signing_bytes_same:
  assumes "signing_bytes pk i t = Inr (b, t')" and "i < length (tx_inputs t)"
  shows "same_tx t t'"
proof -
  from assms(1) obtain inp ser t1 where
    s: "set_signature pk True (set_temp_sig_size (word_of_nat crypto_sign_PUBLICKEYBYTES) (tx_inputs t ! i)) = Inr inp"
      "tx_serialize (t\<lparr>tx_inputs := (tx_inputs t)[i := inp]\<rparr>) = Inr (ser, t1)"
      "t' = t1\<lparr>tx_inputs := (tx_inputs t1)[i := clear_signature (revert_sig_size (tx_inputs t1 ! i))]\<rparr>"
    by (auto simp: signing_bytes_def split: sum.splits)
  have "ref inp = ref (tx_inputs t ! i)"
    using set_signature_ref [OF s(1)] by (simp add: set_temp_sig_size_def ref_def)
  then have "same_tx t (t\<lparr>tx_inputs := (tx_inputs t)[i := inp]\<rparr>)" by (rule same_tx_update [OF assms(2)])
  then have t1: "same_tx t t1" using tx_serialize_same [OF s(2)] same_tx_trans by blast
  then have "i < length (tx_inputs t1)" using assms(2) same_tx_length by metis
  then have "same_tx t1 t'"
    unfolding s(3) by (rule same_tx_update) (simp add: clear_signature_def revert_sig_size_def ref_def)
  with t1 show ?thesis using same_tx_trans by blast
qed

lemma sign_same:
  assumes "sign sign_det pk sk t = Inr t'"
  shows "same_tx t t' \<and> list_all in_signed (tx_inputs t')"
proof -
  let ?n = "length (tx_inputs t)"
  from assms obtain t1 sigs where f: "fold_res (sign_step sign_det pk sk) [0..<?n] (t, []) = Inr (t1, sigs)"
      "fold_res (store_signature sigs) [0..<?n] t1 = Inr t'"
    by (auto simp: sign_def Let_def split: if_splits sum.splits)
  from f(1) have "same_tx t (fst (t1, sigs))"
  proof (rule fold_res_invariant)
    fix i and s s' :: "tx \<times> bytes list"
    assume i: "i \<in> set [0..<?n]" and s: "same_tx t (fst s)" and "sign_step sign_det pk sk i s = Inr s'"
    then obtain b where "signing_bytes pk i (fst s) = Inr (b, fst s')"
      by (cases s) (auto simp: sign_step_def split: sum.splits)
    then have "same_tx (fst s) (fst s')"
      by (rule signing_bytes_same) (use i same_tx_length [OF s] in simp)
    with s show "same_tx t (fst s')" by (rule same_tx_trans)
  qed (simp add: same_tx_def)
  then have t1: "same_tx t t1" by simp
  have "fold_res (store_signature sigs) [0..<m] t1 = Inr u \<Longrightarrow> m \<le> ?n
      \<Longrightarrow> same_tx t1 u \<and> (\<forall>j < m. in_signed (tx_inputs u ! j))" for m u
  proof (induction m arbitrary: u)
    case (Suc m)
    from Suc.prems obtain v where v: "fold_res (store_signature sigs) [0..<m] t1 = Inr v" "store_signature sigs m v = Inr u"
      by (auto simp: fold_res_append split: sum.splits)
    then obtain i where i: "set_signature (sigs ! m) False (tx_inputs v ! m) = Inr i"
        "u = v\<lparr>tx_inputs := (tx_inputs v)[m := i]\<rparr>"
      by (auto simp: store_signature_def split: sum.splits)
    have v': "same_tx t1 v" "\<forall>j < m. in_signed (tx_inputs v ! j)" using Suc v(1) by auto
    have len: "m < length (tx_inputs v)"
      using Suc.prems(2) same_tx_length [OF t1] same_tx_length [OF v'(1)] by simp
    have "same_tx v u" unfolding i(2) by (rule same_tx_update [OF len]) (use set_signature_ref [OF i(1)] in simp)
    moreover have "in_signed i" using i(1) by (auto simp: set_signature_def Let_def split: if_splits)
    ultimately show ?case
      using v' same_tx_trans i(2) len by (auto simp: nth_list_update less_Suc_eq)
  qed (simp add: same_tx_def)
  from this [OF f(2)] t1 have "same_tx t t'" "\<forall>j < ?n. in_signed (tx_inputs t' ! j)"
    using same_tx_trans by blast+
  with same_tx_length show ?thesis by (auto simp: list_all_length)
qed

subsection \<open>The second payment\<close>

lemma collect_coins_first:
  assumes "collect_coins n f acc cs = Some used"
  shows "(\<exists>more. used = acc @ more \<and> more \<noteq> [] \<and> (\<exists>rest. cs = more @ rest))"
  using assms
proof (induction n f acc cs rule: collect_coins.induct)
  case (2 n f acc k c rest)
  then show ?case by (fastforce simp: Let_def split: if_splits)
qed simp

lemma Transaction_spend_inputs: "Transaction_spend ins pk rk am f = Inr t \<Longrightarrow> tx_inputs t = ins"
  by (auto simp: Transaction_spend_def add_output_def Let_def split: if_splits sum.splits)

text \<open>Updating a map whose first entry is a signed coin with signed coins keeps it first and signed.\<close>

definition first_signed :: "(bytes \<times> tx_input) list \<Rightarrow> bool" where
  "first_signed cns \<longleftrightarrow> (\<exists>k c rest. cns = (k, c) # rest \<and> in_signed c)"

lemma first_signed_updates:
  "first_signed cns \<Longrightarrow> list_all in_signed vs \<Longrightarrow> first_signed (AList.updates ks vs cns)"
proof (induction ks arbitrary: vs cns)
  case (Cons k ks)
  show ?case
  proof (cases vs)
    case (Cons v vs')
    with Cons.prems have "first_signed (AList.update k v cns)" by (auto simp: first_signed_def)
    with Cons.IH Cons.prems Cons show ?thesis by simp
  qed (use Cons.prems in simp)
qed simp

lemma new_transaction_signs:
  assumes "new_transaction sign_det rk am f w = Inr (t, w')"
  shows "first_signed (coins w')"
proof -
  from assms obtain used t0 where u: "collect_coins (am + f) 0 [] (coins w) = Some used"
      "Transaction_spend (map snd used) (w_public_key w) rk am f = Inr t0"
      "sign sign_det (w_public_key w) (w_secret_key w) t0 = Inr t"
      "w' = w\<lparr>coins := AList.updates (map fst used) (tx_inputs t) (coins w)\<rparr>"
    by (auto simp: new_transaction_def split: option.splits sum.splits)
  from collect_coins_first [OF u(1)] obtain rest where "used \<noteq> []" "coins w = used @ rest" by auto
  then obtain k c more where more: "used = (k, c) # more" "coins w = (k, c) # more @ rest"
    by (cases used) auto
  have signed: "list_all in_signed (tx_inputs t)" and "length (tx_inputs t) = length used"
    using sign_same [OF u(3)] same_tx_length Transaction_spend_inputs [OF u(2)] by force+
  then obtain v vs where v: "tx_inputs t = v # vs" "in_signed v" "list_all in_signed vs"
    using more(1) by (cases "tx_inputs t") auto
  have "coins w' = AList.updates (map fst more) vs ((k, v) # more @ rest)"
    by (simp add: u(4) more v(1))
  moreover have "first_signed ((k, v) # more @ rest)" using v(2) by (simp add: first_signed_def)
  ultimately show ?thesis using first_signed_updates v(3) by metis
qed

text \<open>C6. The wallet pays once: a payment signs its coins in place, and every later payment, of any
  amount to anyone, takes the same first coin again and fails, until a block spends that coin.\<close>

theorem second_payment_fails:
  assumes "new_transaction sign_det rk am f w = Inr (t, w')"
  shows "\<exists>e. new_transaction sign_det rk2 am2 f2 w' = Inl e"
proof -
  from new_transaction_signs [OF assms] obtain k c rest where w': "coins w' = (k, c) # rest" "in_signed c"
    by (auto simp: first_signed_def)
  show ?thesis
  proof (cases "collect_coins (am2 + f2) 0 [] (coins w')")
    case (Some used)
    from collect_coins_first [OF this] w'(1) have "c \<in> snd ` set used"
      by (auto simp: Cons_eq_append_conv)
    then have "sign sign_det (w_public_key w') (w_secret_key w') t0
        = Inl (Invalid_argument ''Cannot sign already signed inputs.'')"
      if "Transaction_spend (map snd used) (w_public_key w') rk2 am2 f2 = Inr t0" for t0
      using Transaction_spend_inputs [OF that] w'(2) by (auto simp: sign_def list_ex_iff)
    with Some show ?thesis by (auto simp: new_transaction_def split: sum.splits)
  qed (simp add: new_transaction_def)
qed

definition sample_wallet :: wallet where
  "sample_wallet = \<lparr>w_public_key = replicate 32 5, w_secret_key = replicate 64 6,
     coins = [(pair_to_key (replicate 32 7) 1, TransactionInput_with_amount (replicate 32 7) 1 50)]\<rparr>"

theorem second_payment_fails_witness:
  "\<exists>t w'. new_transaction (\<lambda>m sk. replicate 64 9) (replicate 32 2) 30 5 sample_wallet = Inr (t, w')
    \<and> (\<exists>e. new_transaction (\<lambda>m sk. replicate 64 9) (replicate 32 2) 1 0 w' = Inl e)"
proof -
  let ?coin = "TransactionInput_with_amount (replicate 32 7) 1 50"
  obtain t0 where t0: "Transaction_spend [?coin] (replicate 32 5) (replicate 32 2) 30 5 = Inr t0"
    by (simp add: Transaction_spend_def TransactionInput_with_amount_def TransactionOutput_def sodium_sizes)
  then have "tx_inputs t0 = [?coin]" by (rule Transaction_spend_inputs)
  then have "list_all zeroed (tx_inputs t0)"
    by (simp add: zeroed_def TransactionInput_with_amount_def sodium_sizes)
  then obtain t where "sign (\<lambda>m sk. replicate 64 9) (replicate 32 5) (replicate 64 6) t0 = Inr t"
    using sign_spec [of t0 "replicate 32 5" "\<lambda>m sk. replicate 64 9" "replicate 64 6"] by auto
  with t0 obtain w' where
    "new_transaction (\<lambda>m sk. replicate 64 9) (replicate 32 2) 30 5 sample_wallet = Inr (t, w')"
    by (simp add: new_transaction_def sample_wallet_def TransactionInput_with_amount_def)
  with second_payment_fails [OF this] show ?thesis by blast
qed

subsection \<open>The wallet follows the chain state\<close>

definition amount_at :: "(bytes \<times> tx_input) list \<Rightarrow> bytes \<Rightarrow> u64 option" where
  "amount_at cns k = map_option in_amount (map_of cns k)"

definition owned :: "bytes \<Rightarrow> utxo option \<Rightarrow> u64 option" where
  "owned pk r = (case r of Some r \<Rightarrow> if u_pubkey r = pk then Some (u_amount r) else None | None \<Rightarrow> None)"

text \<open>
  The coins are the unspent outputs of the wallet's key, each with its amount and the reference
  that its key encodes.
\<close>

definition tracks :: "chainstate \<Rightarrow> wallet \<Rightarrow> bool" where
  "tracks cs w \<longleftrightarrow> (\<forall>k. amount_at (coins w) k = owned (w_public_key w) (map_of (storage cs) k))
     \<and> (\<forall>k c. map_of (coins w) k = Some c \<longrightarrow> in_key c = k)"

lemma filter_outputs_effect:
  assumes "txid_of gh t = Inr txid" and "distinct (map fst (created_from txid h cb n outps))"
    and "\<forall>k c. map_of cns k = Some c \<longrightarrow> in_key c = k"
  shows "\<exists>cns'. filter_outputs gh pk t n outps cns = Inr cns'
    \<and> (\<forall>k. amount_at cns' k = (case owned pk (map_of (created_from txid h cb n outps) k) of
             Some a \<Rightarrow> Some a | None \<Rightarrow> amount_at cns k))
    \<and> (\<forall>k c. map_of cns' k = Some c \<longrightarrow> in_key c = k)"
  using assms(2,3)
proof (induction outps arbitrary: n cns)
  case (Cons outp outps)
  let ?k = "pair_to_key txid n"
  let ?cns = "if out_public_key outp = pk
    then AList.update ?k (set_amount (out_amount outp) (TransactionInput txid n)) cns else cns"
  have "\<forall>k c. map_of ?cns k = Some c \<longrightarrow> in_key c = k"
    using Cons.prems(2) by (auto simp: update_conv' in_key_def set_amount_def TransactionInput_def)
  from Cons.IH [OF _ this, of "n + 1"] Cons.prems(1) obtain cns' where
    c: "filter_outputs gh pk t (n + 1) outps ?cns = Inr cns'"
      "\<forall>k. amount_at cns' k = (case owned pk (map_of (created_from txid h cb (n + 1) outps) k) of
             Some a \<Rightarrow> Some a | None \<Rightarrow> amount_at ?cns k)"
      "\<forall>k c. map_of cns' k = Some c \<longrightarrow> in_key c = k" by auto
  have new: "map_of (created_from txid h cb (n + 1) outps) ?k = None"
    using Cons.prems(1) by (simp add: map_of_eq_None_iff)
  have "amount_at cns' k = (case owned pk (map_of (created_from txid h cb n (outp # outps)) k) of
      Some a \<Rightarrow> Some a | None \<Rightarrow> amount_at cns k)" for k
    using c(2) [rule_format, of k] new
    by (auto simp: owned_def amount_at_def update_conv' set_amount_def split: option.splits)
  moreover have "filter_outputs gh pk t n (outp # outps) cns = Inr cns'"
    using c(1) assms(1) by (auto simp: keys_agree)
  ultimately show ?case using c(3) by blast
qed (simp add: owned_def)

lemma wallet_filter_effect:
  assumes "identified gh ts" and "distinct (map fst (block_created gh h cb ts))"
    and "\<forall>k c. map_of (coins w) k = Some c \<longrightarrow> in_key c = k"
  shows "\<exists>w'. wallet_filter_block gh ts w = Inr w' \<and> w_public_key w' = w_public_key w
    \<and> (\<forall>k. amount_at (coins w') k = (case owned (w_public_key w) (map_of (block_created gh h cb ts) k) of
             Some a \<Rightarrow> Some a | None \<Rightarrow> amount_at (coins w) k))
    \<and> (\<forall>k c. map_of (coins w') k = Some c \<longrightarrow> in_key c = k)"
  using assms
proof (induction ts arbitrary: w cb)
  case (Cons t ts)
  let ?C1 = "created_from (the_txid gh t) h cb 0 (tx_outputs t)" and ?C2 = "block_created gh h False ts"
  from Cons.prems(1) obtain txid where id: "txid_of gh t = Inr txid" "the_txid gh t = txid" and ts: "identified gh ts"
    by (auto simp: identified_def the_txid_def)
  have d: "distinct (map fst ?C1)" "distinct (map fst ?C2)" "fst ` set ?C1 \<inter> fst ` set ?C2 = {}"
    using Cons.prems(2) by (auto simp: image_iff)
  from filter_outputs_effect [OF id(1), where pk = "w_public_key w" and cns = "coins w"] d(1) Cons.prems(3) obtain c1 where
    c1: "filter_outputs gh (w_public_key w) t 0 (tx_outputs t) (coins w) = Inr c1"
      "\<forall>k. amount_at c1 k = (case owned (w_public_key w) (map_of ?C1 k) of Some a \<Rightarrow> Some a | None \<Rightarrow> amount_at (coins w) k)"
      "\<forall>k c. map_of c1 k = Some c \<longrightarrow> in_key c = k" unfolding id(2) by blast
  let ?w1 = "w\<lparr>coins := c1\<rparr>"
  from Cons.IH [OF ts d(2), of ?w1] c1(3) obtain w' where
    w': "wallet_filter_block gh ts ?w1 = Inr w'" "w_public_key w' = w_public_key w"
      "\<forall>k. amount_at (coins w') k = (case owned (w_public_key w) (map_of ?C2 k) of Some a \<Rightarrow> Some a | None \<Rightarrow> amount_at (coins ?w1) k)"
      "\<forall>k c. map_of (coins w') k = Some c \<longrightarrow> in_key c = k" by auto
  have "amount_at (coins w') k = (case owned (w_public_key w) (map_of (?C1 @ ?C2) k) of
      Some a \<Rightarrow> Some a | None \<Rightarrow> amount_at (coins w) k)" for k
  proof (cases "map_of ?C1 k")
    case None
    with w'(3) c1(2) show ?thesis by (simp add: owned_def map_add_def split: option.splits)
  next
    case (Some r)
    then have "k \<in> fst ` set ?C1" by (metis domI dom_map_of_conv_image_fst)
    with d(3) have "map_of ?C2 k = None" by (auto simp: map_of_eq_None_iff)
    with Some w'(3) c1(2) show ?thesis by (simp add: owned_def map_add_def split: option.splits)
  qed
  moreover have "wallet_filter_block gh (t # ts) w = Inr w'"
    using c1(1) w'(1) by (simp add: wallet_filter_block_def filter_transaction_def)
  ultimately show ?case using w'(2,4) by auto
qed (simp add: wallet_filter_block_def owned_def)

lemma wallet_spend_effect:
  "map_of (coins (wallet_spend_block ts w)) = map_of (coins w) |` (- in_key ` set (concat (map tx_inputs ts)))
    \<and> w_public_key (wallet_spend_block ts w) = w_public_key w"
proof -
  have one: "map_of (coins (fold (\<lambda>inp w. snd (remove_coin (in_TXID inp) (in_vout inp) w)) ins w))
      = map_of (coins w) |` (- in_key ` set ins)
    \<and> w_public_key (fold (\<lambda>inp w. snd (remove_coin (in_TXID inp) (in_vout inp) w)) ins w) = w_public_key w" for ins w
  proof (induction ins arbitrary: w)
    case (Cons i ins)
    then show ?case
      by (auto simp: remove_coin_def Let_def key_is_in_key delete_conv' restrict_map_def fun_eq_iff)
  qed (simp add: restrict_map_def)
  show ?thesis
  proof (induction ts arbitrary: w)
    case (Cons t ts)
    then show ?case
      using one [of "tx_inputs t" w]
      by (auto simp: wallet_spend_block_def spend_transaction_def restrict_map_def fun_eq_iff)
  qed (simp add: wallet_spend_block_def restrict_map_def)
qed

lemma block_inputs:
  "set (concat (map tx_inputs ts)) = set (tx_inputs (hd ts)) \<union> set (block_spends True ts)" if "ts \<noteq> []"
proof -
  have "block_spends False us = concat (map tx_inputs us)" for us by (induction us) auto
  with that show ?thesis by (cases ts) auto
qed

lemma created_by_block: "dom (map_of (block_created gh h cb ts)) = created_keys_of gh ts"
  unfolding dom_map_of_conv_image_fst block_created_key_set [of gh h cb ts] by (rule refl)

text \<open>What the wallet owns after it has looked for new coins, in a chain state \<open>S\<close> and new outputs \<open>B\<close>.\<close>

lemma owned_added:
  assumes "amount = owned pk (S k)" and "dom B \<inter> dom S = {}"
    and "amount1 = (case owned pk (B k) of Some a \<Rightarrow> Some a | None \<Rightarrow> amount)"
  shows "amount1 = owned pk ((S ++ B) k)"
proof (cases "B k")
  case (Some r)
  with assms(2) have "S k = None" by blast
  with Some assms(1,3) show ?thesis by (simp add: owned_def split: option.splits)
qed (use assms(1,3) in \<open>simp add: owned_def map_add_def\<close>)



end
