(* ===== verification/Manager.thy ===== *)
theory Manager
  imports Wallet
begin

text \<open>
  \<^verbatim>\<open>src/src/chain/fork.cpp\<close>, \<^verbatim>\<open>src/src/chain/miner.cpp\<close> and \<^verbatim>\<open>src/src/chain/chain_manager.cpp\<close>:
  side branches, the switch to a heavier one, and mining.
\<close>

subsection \<open>Fork\<close>

record 'c fork =
  f_chain :: "'c chain"
  chain_src :: u32
  chain_src_header :: "'c block_header"

definition Fork :: "u32 \<Rightarrow> 'c block_header \<Rightarrow> u64 \<Rightarrow> 'c fork" where
  "Fork src src_header diff =
     \<lparr>f_chain = \<lparr>header_chain = [], total_difficulty = diff\<rparr>, chain_src = src, chain_src_header = src_header\<rparr>"

definition current_fork_height :: "'c fork \<Rightarrow> u32" where
  "current_fork_height fk = chain_src fk + word_of_nat (length (header_chain (f_chain fk)))"

definition fork_append_block ::
  "('c, 'p) node_env \<Rightarrow> 'c block \<Rightarrow> 'c fork \<Rightarrow> 'c stores \<Rightarrow> (bool \<times> 'c fork \<times> 'c stores) result" where
  "fork_append_block env block fk st =
     (let ch = f_chain fk;
          new_height = current_fork_height fk + 1;
          head = (if header_chain ch = [] then chain_src_header fk else last (header_chain ch))
      in case can_attach env ch (blk_header block) of Inl e \<Rightarrow> Inl e
      | Inr attaches \<Rightarrow>
          if \<not> attaches then Inl (Invalid_argument ''Could not attach block to this fork.'')
          else case validate_header_unsafe env ch (blk_header block) new_height of Inl e \<Rightarrow> Inl e
          | Inr (valid, header) \<Rightarrow>
              if \<not> valid then Inr (False, fk, st)
              else (case block_hash (env_ops env) (env_gh env) False (block\<lparr>blk_header := with_prev head header\<rparr>) of
                      Inl e \<Rightarrow> Inl e
                    | Inr (h, b) \<Rightarrow>
                        Inr (True,
                             fk\<lparr>f_chain := \<lparr>header_chain = header_chain ch @ [blk_header b],
                                           total_difficulty = total_difficulty ch + ucast (hdr_difficulty (blk_header b))\<rparr>\<rparr>,
                             st\<lparr>st_blocks := snd (store_block h b (st_blocks st))\<rparr>)))"

subsection \<open>Miner\<close>

text \<open>
  Binding every computation to the header and its index and proving it; an \<open>out_of_range\<close> from the
  prover, which is how the stop flag interrupts it, ends the mining.  The flag says whether all were
  proved; the list holds the computations as they are then, the interrupted one as it was bound.
\<close>

fun prove_computations :: "('c, 'p) computation_ops \<Rightarrow> bytes \<Rightarrow> u64 \<Rightarrow> 'c list \<Rightarrow> (bool \<times> 'c list) result" where
  "prove_computations ops hser_all idx [] = Inr (True, [])"
| "prove_computations ops hser_all idx (c # cs) =
     (case co_bind_to_data ops (hser_all @ uint64_to_vector_big_endian idx) c of Inl e \<Rightarrow> Inl e
      | Inr c1 \<Rightarrow>
          (case co_generate_proof ops c1 of
             Inl e \<Rightarrow> (if e = Out_of_range then Inr (False, c1 # cs) else Inl e)
           | Inr c2 \<Rightarrow>
               (case prove_computations ops hser_all (idx + 1) cs of Inl e \<Rightarrow> Inl e
                | Inr (finished, cs') \<Rightarrow> Inr (finished, c2 # cs'))))"

fun sum_fees :: "tx list \<Rightarrow> u64 result" where
  "sum_fees [] = Inr 0"
| "sum_fees (t # ts) =
     (case fee t of Inl e \<Rightarrow> Inl e
      | Inr f \<Rightarrow> (case sum_fees ts of Inl e \<Rightarrow> Inl e | Inr fs \<Rightarrow> Inr (f + fs)))"

text \<open>The block, when there is one, and the computations as mining leaves them.\<close>

definition mine ::
  "('c, 'p) node_env \<Rightarrow> u64 \<Rightarrow> bytes \<Rightarrow> 'c block_header \<Rightarrow> u32 \<Rightarrow> u32 \<Rightarrow> u64 \<Rightarrow> tx list \<Rightarrow> 'c list
    \<Rightarrow> ('c block option \<times> 'c list) result" where
  "mine env now wallet_pk prev_header height difficulty reward txs comps =
     (case sum_fees txs of Inl e \<Rightarrow> Inl e
      | Inr allowed_fee \<Rightarrow>
          (case CoinbaseTransaction wallet_pk (reward + allowed_fee) height of Inl e \<Rightarrow> Inl e
           | Inr cb \<Rightarrow>
               (case new_block (env_gh env) now (Some prev_header) difficulty comps (cb # txs) of Inl e \<Rightarrow> Inl e
                | Inr block \<Rightarrow>
                    (case header_serialize (env_ops env) (env_gh env) False (blk_header block) of Inl e \<Rightarrow> Inl e
                     | Inr (hser_all, header) \<Rightarrow>
                         (case prove_computations (env_ops env) hser_all 0 (computations header) of Inl e \<Rightarrow> Inl e
                          | Inr (False, comps') \<Rightarrow> Inr (None, comps')
                          | Inr (True, comps') \<Rightarrow>
                              map_sum id (\<lambda>(_, b). (Some b, computations (blk_header b)))
                                (block_hash (env_ops env) (env_gh env) True
                                   (block\<lparr>blk_header := with_computations comps' header\<rparr>)))))))"

subsection \<open>ChainManager\<close>

record 'c manager =
  main_chain :: "'c chain"
  forks :: "'c fork list"
  m_stores :: "'c stores"
  m_wallet :: wallet
  m_result :: "'c block option"

definition new_manager :: "('c, 'p) node_env \<Rightarrow> wallet \<Rightarrow> 'c manager result" where
  "new_manager env w =
     map_sum id (\<lambda>(ch, st). \<lparr>main_chain = ch, forks = [], m_stores = st, m_wallet = w, m_result = None\<rparr>)
       (new_chain env \<lparr>st_chainstate = empty_chainstate, st_blocks = [], st_pool = empty_mempool, st_comps = []\<rparr>)"

text \<open>Appending to the main chain, and telling the wallet.\<close>

definition add_to_main :: "('c, 'p) node_env \<Rightarrow> 'c block \<Rightarrow> bool \<Rightarrow> 'c manager \<Rightarrow> (bool \<times> 'c manager) result" where
  "add_to_main env block is_valid m =
     (case append_block env block is_valid (main_chain m) (m_stores m) of Inl e \<Rightarrow> Inl e
      | Inr (added, ch, st) \<Rightarrow>
          (let m1 = m\<lparr>main_chain := ch, m_stores := st\<rparr>
           in if \<not> added then Inr (False, m1)
              else case wallet_filter_block (env_gh env) (blk_transactions block) (m_wallet m) of Inl e \<Rightarrow> Inl e
              | Inr w \<Rightarrow> Inr (True, m1\<lparr>m_wallet := wallet_spend_block (blk_transactions block) w\<rparr>)))"

text \<open>The first fork the block attaches to, with its position.\<close>

fun find_fork :: "('c, 'p) node_env \<Rightarrow> 'c block \<Rightarrow> nat \<Rightarrow> 'c fork list \<Rightarrow> nat option result" where
  "find_fork env block i [] = Inr None"
| "find_fork env block i (fk # fks) =
     (case can_attach env (f_chain fk) (blk_header block) of Inl e \<Rightarrow> Inl e
      | Inr attaches \<Rightarrow> if attaches then Inr (Some i) else find_fork env block (i + 1) fks)"

text \<open>Rewinding the chain state over a list of headers, last first.\<close>

definition rewind_header :: "('c, 'p) node_env \<Rightarrow> 'c block_header \<Rightarrow> 'c stores \<Rightarrow> 'c stores result" where
  "rewind_header env header st =
     (case header_hash (env_ops env) (env_gh env) False header of Inl e \<Rightarrow> Inl e
      | Inr (h, _) \<Rightarrow>
          (case get_block h (st_blocks st) of Inl e \<Rightarrow> Inl e
           | Inr block \<Rightarrow>
               map_sum id (\<lambda>cs. st\<lparr>st_chainstate := cs\<rparr>)
                 (rewind_block (env_gh env) (blk_transactions block) (st_chainstate st))))"

definition rewind_headers :: "('c, 'p) node_env \<Rightarrow> 'c block_header list \<Rightarrow> 'c stores \<Rightarrow> 'c stores result" where
  "rewind_headers env headers st = fold_res (rewind_header env) (rev headers) st"

text \<open>
  Appending the blocks of a list of headers to the main chain, until one is rejected; returns the
  number of blocks appended.
\<close>

fun replay ::
  "('c, 'p) node_env \<Rightarrow> 'c block_header list \<Rightarrow> nat \<Rightarrow> 'c chain \<Rightarrow> 'c stores \<Rightarrow> (bool \<times> nat \<times> 'c chain \<times> 'c stores) result" where
  "replay env [] idx ch st = Inr (True, idx, ch, st)"
| "replay env (h # hs) idx ch st =
     (case header_hash (env_ops env) (env_gh env) False h of Inl e \<Rightarrow> Inl e
      | Inr (bh, _) \<Rightarrow>
          (case get_block bh (st_blocks st) of Inl e \<Rightarrow> Inl e
           | Inr block \<Rightarrow>
               (case append_block env block False ch st of Inl e \<Rightarrow> Inl e
                | Inr (added, ch', st') \<Rightarrow>
                    if \<not> added then Inr (False, idx, ch', st') else replay env hs (idx + 1) ch' st')))"

text \<open>
  The switch to fork number \<open>fi\<close>.  When a block of the fork is rejected, the old chain is appended
  again under an assertion, and the loop that subtracts the difficulty of the rejected part counts
  an unsigned index down to the number of accepted blocks: at zero it does not stop.
\<close>

definition reorg :: "('c, 'p) node_env \<Rightarrow> nat \<Rightarrow> 'c manager \<Rightarrow> 'c manager result" where
  "reorg env fi m =
     (let fk = forks m ! fi; src = unat (chain_src fk); main = main_chain m; hs = header_chain main
      in if length hs \<le> src then Inl (Undefined ''fork point outside the main chain'')
      else
      let old_main_fork = (Fork (chain_src fk) (hs ! src) (total_difficulty main))
            \<lparr>f_chain := \<lparr>header_chain = drop (src + 1) hs, total_difficulty = total_difficulty main\<rparr>\<rparr>
      in case rewind_headers env (drop (src + 1) hs) (m_stores m) of Inl e \<Rightarrow> Inl e
      | Inr st1 \<Rightarrow>
      (case replay env (header_chain (f_chain fk)) 0 (main\<lparr>header_chain := take (src + 1) hs\<rparr>) st1 of Inl e \<Rightarrow> Inl e
      | Inr (True, idx, ch2, st2) \<Rightarrow>
          (let ch3 = ch2\<lparr>total_difficulty := total_difficulty (f_chain fk)\<rparr>
           in map_sum id (\<lambda>w. m\<lparr>main_chain := ch3, forks := take fi (forks m) @ drop (fi + 1) (forks m) @ [old_main_fork],
                               m_stores := st2, m_wallet := w\<rparr>)
                (rescan env (header_chain ch3) (st_blocks st2) (m_wallet m)))
      | Inr (False, idx, ch2, st2) \<Rightarrow>
          (case rewind_headers env (drop (src + 1) (header_chain ch2)) st2 of Inl e \<Rightarrow> Inl e
           | Inr st3 \<Rightarrow>
          (case replay env (header_chain (f_chain old_main_fork)) 0
                  (ch2\<lparr>header_chain := take (src + 1) (header_chain ch2)\<rparr>) st3 of Inl e \<Rightarrow> Inl e
           | Inr (False, _, _, _) \<Rightarrow> Inl Assert_failed
           | Inr (True, _, ch4, st4) \<Rightarrow>
               if idx = 0 then Inl (Undefined ''unsigned index counted below zero'')
               else (let fch = f_chain fk;
                         fk' = fk\<lparr>f_chain := \<lparr>header_chain = take idx (header_chain fch),
                                 total_difficulty = total_difficulty fch -
                                   sum_list (map (\<lambda>h. ucast (hdr_difficulty h)) (drop idx (header_chain fch)))\<rparr>\<rparr>;
                         ch5 = ch4\<lparr>total_difficulty := total_difficulty main\<rparr>
                     in map_sum id (\<lambda>w. m\<lparr>main_chain := ch5, forks := (forks m)[fi := fk'], m_stores := st4, m_wallet := w\<rparr>)
                          (rescan env (header_chain ch5) (st_blocks st4) (m_wallet m)))))))"

text \<open>The search of the main chain for a new attachment point, adding up the difficulty on the way.\<close>

fun find_attachment ::
  "('c, 'p) node_env \<Rightarrow> 'c block \<Rightarrow> u32 \<Rightarrow> u64 \<Rightarrow> 'c block_header list \<Rightarrow> (u32 \<times> 'c block_header \<times> u64) option result" where
  "find_attachment env block i diff [] = Inr None"
| "find_attachment env block i diff (h # hs) =
     (let diff' = diff + ucast (hdr_difficulty h)
      in case prev_hash (env_ops env) (env_gh env) (blk_header block) of Inl e \<Rightarrow> Inl e
      | Inr (ph, _) \<Rightarrow>
          (case header_hash (env_ops env) (env_gh env) False h of Inl e \<Rightarrow> Inl e
           | Inr (hh, _) \<Rightarrow>
               if ph = hh then Inr (Some (i, h, diff')) else find_attachment env block (i + 1) diff' hs))"

definition manager_add_block ::
  "('c, 'p) node_env \<Rightarrow> 'c block \<Rightarrow> bool \<Rightarrow> 'c manager \<Rightarrow> (bool \<times> 'c manager) result" where
  "manager_add_block env block is_main_and_valid m =
     (if is_main_and_valid then add_to_main env block True m
      else case can_attach env (main_chain m) (blk_header block) of Inl e \<Rightarrow> Inl e
      | Inr True \<Rightarrow> add_to_main env block False m
      | Inr False \<Rightarrow>
          (case find_fork env block 0 (forks m) of Inl e \<Rightarrow> Inl e
           | Inr (Some fi) \<Rightarrow>
               (case fork_append_block env block (forks m ! fi) (m_stores m) of Inl e \<Rightarrow> Inl e
                | Inr (added, fk, st) \<Rightarrow>
                    (let m1 = m\<lparr>forks := (forks m)[fi := fk], m_stores := st\<rparr>
                     in if \<not> added then Inr (False, m1)
                        else if total_difficulty (main_chain m) < total_difficulty (f_chain fk)
                        then map_sum id (\<lambda>m'. (True, m')) (reorg env fi m1)
                        else Inr (True, m1)))
           | Inr None \<Rightarrow>
               (case find_attachment env block 0 0 (header_chain (main_chain m)) of Inl e \<Rightarrow> Inl e
                | Inr None \<Rightarrow> Inr (False, m)
                | Inr (Some (i, h, diff)) \<Rightarrow>
                    (case fork_append_block env block (Fork i h diff) (m_stores m) of Inl e \<Rightarrow> Inl e
                     | Inr (added, fk, st) \<Rightarrow>
                         if \<not> added then Inr (False, m\<lparr>m_stores := st\<rparr>)
                         else Inr (True, m\<lparr>forks := forks m @ [fk], m_stores := st\<rparr>)))))"

text \<open>
  Mining on the main chain; \<open>now\<close> is the time of the clock.  The miner works on the objects of the
  computation store, which takes them from its front, so they are put back as mining leaves them.
\<close>

definition put_back :: "'c list \<Rightarrow> 'c compstore \<Rightarrow> 'c compstore" where
  "put_back comps st = zip (map fst st) (comps @ map snd (drop (length comps) st))"

definition start_mining :: "('c, 'p) node_env \<Rightarrow> u64 \<Rightarrow> 'c manager \<Rightarrow> 'c manager result" where
  "start_mining env now m0 =
     (let m = m0\<lparr>m_result := None\<rparr>; ch = main_chain m; st = m_stores m; h = current_height ch + 1
      in case get_top (cfg_tx_per_block (env_cfg env)) (st_pool st) of Inl e \<Rightarrow> Inl e
      | Inr tx_to_mine \<Rightarrow>
      (case get_difficulty_for_height (env_fl env) (env_cfg env) ch h of Inl e \<Rightarrow> Inl e
      | Inr diff_target \<Rightarrow>
      (case reward_for_height (env_cfg env) h of Inl e \<Rightarrow> Inl e
      | Inr reward \<Rightarrow>
          (let comps = collect_computations (co_difficulty (env_ops env)) diff_target (st_comps st)
           in if comps = [] then Inr m
              else case head_header ch of Inl e \<Rightarrow> Inl e
              | Inr head \<Rightarrow>
                  map_sum id (\<lambda>(r, comps'). m\<lparr>m_result := r, m_stores := st\<lparr>st_comps := put_back comps' (st_comps st)\<rparr>\<rparr>)
                    (mine env now (w_public_key (m_wallet m)) head h diff_target reward tx_to_mine comps)))))"

definition get_mined_block :: "'c manager \<Rightarrow> 'c block option" where
  "get_mined_block m = m_result m"

definition have_mined_block :: "'c manager \<Rightarrow> bool" where
  "have_mined_block m \<longleftrightarrow> m_result m \<noteq> None"

text \<open>Admission of a transaction to the pool.\<close>

fun fund_inputs :: "chainstate \<Rightarrow> tx_input list \<Rightarrow> (bytes list \<times> tx_input list) option" where
  "fund_inputs cs [] = Some ([], [])"
| "fund_inputs cs (inp # inps) =
     (if \<not> utxo_exists cs (in_TXID inp) (in_vout inp) then None
      else case (utxo_pubkey cs (in_TXID inp) (in_vout inp), utxo_amount cs (in_TXID inp) (in_vout inp)) of
             (Inr pk, Inr am) \<Rightarrow>
               (case fund_inputs cs inps of None \<Rightarrow> None
                | Some (pks, inps') \<Rightarrow> Some (pk # pks, set_amount am inp # inps'))
           | _ \<Rightarrow> None)"

definition add_tx :: "('c, 'p) node_env \<Rightarrow> tx \<Rightarrow> 'c manager \<Rightarrow> (bool \<times> 'c manager) result" where
  "add_tx env t m =
     (let st = m_stores m
      in case fund_inputs (st_chainstate st) (tx_inputs t) of None \<Rightarrow> Inr (False, m)
      | Some (pubkeys, inps) \<Rightarrow>
          (let t' = t\<lparr>tx_inputs := inps\<rparr>
           in case validate_transaction (env_verify env) pubkeys t' of Inl e \<Rightarrow> Inl e
           | Inr valid \<Rightarrow>
               if \<not> valid then Inr (False, m)
               else case add_valid_tx (env_gh env) t' (st_pool st) of Inl e \<Rightarrow> Inl e
               | Inr (added, pool) \<Rightarrow> Inr (added, m\<lparr>m_stores := st\<lparr>st_pool := pool\<rparr>\<rparr>)))"

definition add_computation :: "('c, 'p) node_env \<Rightarrow> 'c \<Rightarrow> 'c manager \<Rightarrow> bool \<times> 'c manager" where
  "add_computation env c m =
     (case store_computation (co_hash (env_ops env)) c (st_comps (m_stores m)) of
        (added, comps) \<Rightarrow> (added, m\<lparr>m_stores := (m_stores m)\<lparr>st_comps := comps\<rparr>\<rparr>))"

definition manager_block_exists :: "bytes \<Rightarrow> 'c manager \<Rightarrow> bool" where
  "manager_block_exists h m = block_exists h (st_blocks (m_stores m))"

definition manager_get_block :: "bytes \<Rightarrow> 'c manager \<Rightarrow> 'c block result" where
  "manager_get_block h m = get_block h (st_blocks (m_stores m))"

definition manager_tx_exists :: "bytes \<Rightarrow> 'c manager \<Rightarrow> bool" where
  "manager_tx_exists txid m = tx_in_pool txid (st_pool (m_stores m))"

definition manager_get_tx :: "bytes \<Rightarrow> 'c manager \<Rightarrow> tx result" where
  "manager_get_tx txid m = get_tx txid (st_pool (m_stores m))"

definition set_wallet :: "wallet \<Rightarrow> 'c manager \<Rightarrow> 'c manager" where
  "set_wallet w m = m\<lparr>m_wallet := w\<rparr>"

definition manager_computation_exists :: "bytes \<Rightarrow> 'c manager \<Rightarrow> bool" where
  "manager_computation_exists h m = computation_exists h (st_comps (m_stores m))"

definition manager_get_computation :: "bytes \<Rightarrow> 'c manager \<Rightarrow> 'c result" where
  "manager_get_computation h m = get_computation h (st_comps (m_stores m))"

definition mempool_list_txid :: "'c manager \<Rightarrow> bytes list" where
  "mempool_list_txid m = list_txids (st_pool (m_stores m))"

definition compstore_list_comp_hashes :: "'c manager \<Rightarrow> bytes list" where
  "compstore_list_comp_hashes m = list_comp_hashes (st_comps (m_stores m))"

end
