(* ===== verification/ManagerCorrect.thy ===== *)
theory ManagerCorrect
  imports Manager WalletCorrect
begin

text \<open>
  The rule of the heaviest chain, what is admitted to the pool, that the miner makes what the
  validator asks for, and where a switch to an invalid fork ends.
\<close>

subsection \<open>The heaviest chain\<close>

lemma accept_block_total:
  "accept_block env b head ch st = Inr (ch', st') \<Longrightarrow> \<exists>d :: u32. total_difficulty ch' = total_difficulty ch + ucast d"
  by (auto simp: accept_block_def Let_def split: sum.splits intro!: exI)

lemma append_block_total:
  assumes "append_block env b v ch st = Inr (ok, ch', st')"
  shows "total_difficulty ch' = total_difficulty ch \<or> (\<exists>d :: u32. total_difficulty ch' = total_difficulty ch + ucast d)"
proof (cases ok)
  case True
  with assms have "append_block env b v ch st = Inr (True, ch', st')" by simp
  from append_block_accepted [OF this] accept_block_total show ?thesis by blast
next
  case False
  with assms show ?thesis
    by (auto simp: append_block_def Let_def map_sum_Inr_iff split: sum.splits if_splits)
qed

lemma find_fork_bound: "find_fork env b i fks = Inr (Some fi) \<Longrightarrow> i \<le> fi \<and> fi < i + length fks"
  by (induction fks arbitrary: i) (fastforce split: sum.splits if_splits)+

lemma reorg_total:
  assumes "reorg env fi m = Inr m'"
  shows "total_difficulty (main_chain m') = total_difficulty (main_chain m)
    \<or> total_difficulty (main_chain m') = total_difficulty (f_chain (forks m ! fi))"
  using assms
  by (auto simp: reorg_def Let_def map_sum_Inr_iff split: if_splits sum.splits bool.splits prod.splits)

lemma no_wrap:
  assumes "unat (t :: u64) + 2 ^ 32 \<le> 2 ^ 64"
  shows "t \<le> t + ucast (d :: u32)"
proof -
  have "unat d < 2 ^ 32" using unsigned_less [of d, where ?'a = nat] by simp
  moreover from this have "unat (ucast d :: u64) = unat d" by (simp add: unsigned_ucast_eq take_bit_nat_eq_self)
  ultimately have "unat t + unat (ucast d :: u64) < 2 ^ 64" using assms by simp
  then have "unat (t + ucast d) = unat t + unat (ucast d :: u64)"
    by (simp add: unat_word_ariths)
  then show ?thesis by (simp add: word_le_nat_alt)
qed

lemma manager_add_block_total:
  assumes "manager_add_block env b v m = Inr (ok, m')"
    and "unat (total_difficulty (main_chain m)) + 2 ^ 32 \<le> 2 ^ 64"
  shows "total_difficulty (main_chain m) \<le> total_difficulty (main_chain m')"
proof -
  have main: ?thesis if "add_to_main env b v' m = Inr (ok, m')" for v'
  proof -
    from that obtain ok' ch st where "append_block env b v' (main_chain m) (m_stores m) = Inr (ok', ch, st)"
        "main_chain m' = ch"
      by (auto simp: add_to_main_def Let_def split: sum.splits if_splits)
    with append_block_total no_wrap [OF assms(2)] show ?thesis by fastforce
  qed
  consider (valid) "add_to_main env b True m = Inr (ok, m')" | (main) "add_to_main env b False m = Inr (ok, m')"
    | (fork) fi fk st where "find_fork env b 0 (forks m) = Inr (Some fi)"
        "total_difficulty (main_chain m) < total_difficulty (f_chain fk)"
        "reorg env fi (m\<lparr>forks := (forks m)[fi := fk], m_stores := st\<rparr>) = Inr m'"
    | (same) "main_chain m' = main_chain m"
    using assms(1)
    by (auto simp: manager_add_block_def Let_def map_sum_Inr_iff split: if_splits sum.splits bool.splits option.splits prod.splits)
  then show ?thesis
  proof cases
    case fork
    from find_fork_bound [OF fork(1)] have "fi < length (forks m)" by simp
    with reorg_total [OF fork(3)] fork(2) show ?thesis by auto
  qed (use main in auto)
qed

text \<open>C8. Whatever block arrives, and whatever becomes of it, the main chain never gets lighter: it grows
  by the block, is replaced by a fork of strictly greater total difficulty, or keeps its total, also
  when a switch is undone (as long as the 64-bit total has room for one more block).\<close>

theorem main_chain_never_lighter:
  assumes "manager_add_block env b v m = Inr (ok, m')"
    and "unat (total_difficulty (main_chain m)) + 2 ^ 32 \<le> 2 ^ 64"
  shows "total_difficulty (main_chain m) \<le> total_difficulty (main_chain m')"
  using manager_add_block_total [OF assms] .

lemma demo_filter:
  "\<exists>w'. wallet_filter_block (env_gh demo_env) (blk_transactions (demo_block am)) w = Inr w'"
  by (simp add: wallet_filter_block_def filter_transaction_def demo_block_def sample_output_def txid_of_def TXID_def)

theorem main_chain_never_lighter_witness:
  "\<exists>ok m'. manager_add_block demo_env (demo_block (- 1)) False
      \<lparr>main_chain = demo_chain, forks = [], m_stores = demo_stores, m_wallet = sample_wallet, m_result = None\<rparr> = Inr (ok, m')
    \<and> 5 \<le> total_difficulty (main_chain m')"
proof -
  let ?m = "\<lparr>main_chain = demo_chain, forks = [], m_stores = demo_stores, m_wallet = sample_wallet, m_result = None\<rparr>"
  obtain ch' st' where a: "append_block demo_env (demo_block (- 1)) False demo_chain demo_stores = Inr (True, ch', st')"
    using demo_append by blast
  have c: "can_attach demo_env demo_chain (blk_header (demo_block (- 1))) = Inr True"
    by (simp add: can_attach_def demo_defs header_hash.simps(1))
  obtain w where w: "wallet_filter_block (env_gh demo_env) (blk_transactions (demo_block (- 1))) sample_wallet = Inr w"
    using demo_filter by blast
  have "manager_add_block demo_env (demo_block (- 1)) False ?m = Inr (True, ?m\<lparr>main_chain := ch', m_stores := st',
      m_wallet := wallet_spend_block (blk_transactions (demo_block (- 1))) w\<rparr>)"
    using a c w by (simp add: manager_add_block_def add_to_main_def)
  with main_chain_never_lighter [OF this] show ?thesis by (auto simp: \<open>manager_add_block demo_env (demo_block (- 1)) False ?m = _\<close> demo_chain_def)
qed

subsection \<open>Miner and validator agree\<close>

text \<open>
  A computation whose proof, bound to the data, verifies; \<open>s\<close> is its serialisation without the
  output and \<open>n\<close> its difficulty.  A computation is ready when the copy that a peer makes of its
  message is such a computation.
\<close>

definition proves :: "('c, 'p) computation_ops \<Rightarrow> bytes \<Rightarrow> bytes \<Rightarrow> u32 \<Rightarrow> 'c \<Rightarrow> bool" where
  "proves ops data s n c \<longleftrightarrow> co_serialize ops False c = Inr (s, c) \<and> co_difficulty ops c = n
     \<and> (\<exists>c1 p c2. co_bind_to_data ops data c = Inr c1 \<and> co_proof ops c1 = Inr p
          \<and> co_verify_proof ops p c1 = Inr (True, c2))"

definition ready :: "('c, 'p) computation_ops \<Rightarrow> bytes \<Rightarrow> bytes \<Rightarrow> u32 \<Rightarrow> 'c \<Rightarrow> bool" where
  "ready ops data s n c \<longleftrightarrow> (\<exists>e. co_create ops (co_to_proto ops c) = Inr e \<and> proves ops data s n e)"

text \<open>
  What mining relies on: serialising without the output changes nothing, a fresh computation that is
  then bound and proved is ready for the same data, and serialising it with the output keeps it so.
\<close>

definition lawful :: "('c, 'p) computation_ops \<Rightarrow> ('c \<Rightarrow> bool) \<Rightarrow> bool" where
  "lawful ops fresh \<longleftrightarrow> (\<forall>c s c'. co_serialize ops False c = Inr (s, c') \<longrightarrow> c' = c)
     \<and> (\<forall>c s data c1 c2. fresh c \<longrightarrow> co_serialize ops False c = Inr (s, c) \<longrightarrow> co_bind_to_data ops data c = Inr c1 \<longrightarrow>
          co_generate_proof ops c1 = Inr c2 \<longrightarrow> ready ops data s (co_difficulty ops c) c2)
     \<and> (\<forall>c data s n t c'. ready ops data s n c \<longrightarrow> co_serialize ops True c = Inr (t, c') \<longrightarrow> ready ops data s n c')"

lemma serialize_unbound:
  assumes "lawful ops fresh" and "serialize_computations ops False cs = Inr (cser, ds)"
  shows "ds = cs \<and> (\<exists>ss. list_all2 (\<lambda>c s. co_serialize ops False c = Inr (s, c)) cs ss \<and> cser = concat (map sized ss))"
  using assms(2)
proof (induction cs arbitrary: cser ds)
  case (Cons c cs)
  then obtain s c' rest es where c: "co_serialize ops False c = Inr (s, c')"
      "serialize_computations ops False cs = Inr (rest, es)" "cser = sized s @ rest" "ds = c' # es"
    by (auto split: sum.splits)
  moreover have "c' = c" using assms(1) c(1) unfolding lawful_def by blast
  moreover from Cons.IH [OF c(2)] obtain ss where "es = cs"
    "list_all2 (\<lambda>c s. co_serialize ops False c = Inr (s, c)) cs ss" "rest = concat (map sized ss)" by blast
  ultimately show ?case by (intro conjI exI [of _ "s # ss"]) auto
qed simp

lemma serialize_ready:
  assumes "list_all2 (\<lambda>c s. co_serialize ops False c = Inr (s, c)) cs ss"
  shows "serialize_computations ops False cs = Inr (concat (map sized ss), cs)"
  using assms by (induction rule: list_all2_induct) auto

lemma prove_computations_ready:
  assumes "lawful ops fresh" and "prove_computations ops ser n cs = Inr (True, cs')"
    and "list_all2 (\<lambda>c s. co_serialize ops False c = Inr (s, c)) cs ss" and "\<forall>c \<in> set cs. fresh c"
  shows "length cs' = length cs \<and> (\<forall>i < length cs. ready ops (ser @ uint64_to_vector_big_endian (n + word_of_nat i))
    (ss ! i) (co_difficulty ops (cs ! i)) (cs' ! i))"
  using assms(3,2,4)
proof (induction arbitrary: n cs' rule: list_all2_induct)
  case (Cons c cs s ss)
  then obtain c1 c2 ds where c: "co_bind_to_data ops (ser @ uint64_to_vector_big_endian n) c = Inr c1"
      "co_generate_proof ops c1 = Inr c2" "prove_computations ops ser (n + 1) cs = Inr (True, ds)" "cs' = c2 # ds"
    by (auto split: sum.splits option.splits if_splits)
  have r: "ready ops (ser @ uint64_to_vector_big_endian n) s (co_difficulty ops c) c2"
    using assms(1) Cons.hyps(1) Cons.prems(2) c(1,2) unfolding lawful_def by simp
  from Cons.IH [OF c(3)] Cons.prems(2) have "ready ops (ser @ uint64_to_vector_big_endian (n + word_of_nat i)) ((s # ss) ! i)
      (co_difficulty ops ((c # cs) ! i)) ((c2 # ds) ! i)" if "i < length (c # cs)" for i
    using that r by (cases i) (auto simp: add.assoc)
  with Cons.IH [OF c(3)] Cons.prems(2) c(4) show ?case by auto
qed simp

lemma all_nth_Cons:
  "(\<forall>i < length (x # xs). P i) \<longleftrightarrow> P 0 \<and> (\<forall>i < length xs. P (Suc i))"
  by (simp add: All_less_Suc2)

lemma serialize_output_ready:
  assumes "lawful ops fresh" and "serialize_computations ops True cs = Inr (cser, ds)"
    and "\<forall>i < length cs. ready ops (f i) (ss i) (g i) (cs ! i)"
  shows "length ds = length cs \<and> (\<forall>i < length cs. ready ops (f i) (ss i) (g i) (ds ! i))"
  using assms(2,3)
proof (induction cs arbitrary: cser ds ss f g)
  case (Cons c cs)
  then obtain s c' rest es where c: "co_serialize ops True c = Inr (s, c')"
      "serialize_computations ops True cs = Inr (rest, es)" "ds = c' # es"
    by (auto split: sum.splits)
  note r = Cons.prems(2) [unfolded all_nth_Cons nth_Cons_0 nth_Cons_Suc]
  have "ready ops (f 0) (ss 0) (g 0) c'"
    using assms(1) c(1) r unfolding lawful_def by blast
  moreover have "length es = length cs \<and> (\<forall>i < length cs. ready ops (f (Suc i)) (ss (Suc i)) (g (Suc i)) (es ! i))"
    using Cons.IH [OF c(2), of "\<lambda>i. f (Suc i)" "\<lambda>i. ss (Suc i)" "\<lambda>i. g (Suc i)"] r by blast
  ultimately show ?case unfolding c(3) all_nth_Cons by simp
qed simp

lemma check_proofs_proves:
  assumes "\<forall>i < length cs. proves ops (ser @ uint64_to_vector_big_endian (n + word_of_nat i)) (ss i) (g i) (cs ! i)"
  shows "\<exists>cs'. check_proofs ops ser n cs = Inr (True, cs')"
  using assms
proof (induction cs arbitrary: n ss g)
  case (Cons c cs)
  note r = Cons.prems [unfolded all_nth_Cons nth_Cons_0 nth_Cons_Suc]
  from r obtain c1 p c2 where
    "co_bind_to_data ops (ser @ uint64_to_vector_big_endian n) c = Inr c1" "co_proof ops c1 = Inr p"
    "co_verify_proof ops p c1 = Inr (True, c2)" by (auto simp: proves_def)
  moreover have "\<exists>cs'. check_proofs ops ser (n + 1) cs = Inr (True, cs')"
    using Cons.IH [of "n + 1" "\<lambda>i. ss (Suc i)" "\<lambda>i. g (Suc i)"] r by (simp add: add.assoc)
  ultimately show ?case by auto
qed simp

lemma peer_copies:
  assumes "\<forall>i < length cs. ready ops (f i) (ss i) (g i) (cs ! i)"
  shows "\<exists>es. map_res (co_create ops) (map (co_to_proto ops) cs) = Inr es \<and> length es = length cs
    \<and> (\<forall>i < length es. proves ops (f i) (ss i) (g i) (es ! i))"
  using assms
proof (induction cs arbitrary: f ss g)
  case (Cons c cs)
  note r = Cons.prems [unfolded all_nth_Cons nth_Cons_0 nth_Cons_Suc]
  from r obtain e where e: "co_create ops (co_to_proto ops c) = Inr e" "proves ops (f 0) (ss 0) (g 0) e"
    by (auto simp: ready_def)
  from Cons.IH [of "\<lambda>i. f (Suc i)" "\<lambda>i. ss (Suc i)" "\<lambda>i. g (Suc i)"] r obtain es where
    "map_res (co_create ops) (map (co_to_proto ops) cs) = Inr es" "length es = length cs"
    "\<forall>i < length es. proves ops (f (Suc i)) (ss (Suc i)) (g (Suc i)) (es ! i)" by blast
  with e show ?case by (intro exI [of _ "e # es"]) (simp only: all_nth_Cons nth_Cons_0 nth_Cons_Suc, simp)
qed simp

lemma mine_steps:
  assumes "mine env now pk p height diff reward txs comps = Inr (Some b, left_over)"
  obtains mroot ser hdr comps' cb_txs h where
    "header_serialize (env_ops env) (env_gh env) False (BlockHeader_after (Some p) mroot now diff comps) = Inr (ser, hdr)"
    "prove_computations (env_ops env) ser 0 (computations hdr) = Inr (True, comps')"
    "block_hash (env_ops env) (env_gh env) True
       \<lparr>blk_header = with_computations comps' hdr, blk_transactions = cb_txs\<rparr> = Inr (h, b)"
proof -
  from assms obtain fees cb block ser hdr comps' h where
    "new_block (env_gh env) now (Some p) diff comps (cb # txs) = Inr block"
    and rest: "header_serialize (env_ops env) (env_gh env) False (blk_header block) = Inr (ser, hdr)"
      "prove_computations (env_ops env) ser 0 (computations hdr) = Inr (True, comps')"
      "block_hash (env_ops env) (env_gh env) True (block\<lparr>blk_header := with_computations comps' hdr\<rparr>) = Inr (h, b)"
    by (auto simp: mine_def map_sum_Inr_iff split: sum.splits option.splits bool.splits prod.splits)
  then obtain mroot where m: "blk_header block = BlockHeader_after (Some p) mroot now diff comps"
    by (auto simp: new_block_def split: sum.splits)
  show ?thesis
  proof (rule that [OF _ rest(2)])
    show "header_serialize (env_ops env) (env_gh env) False (BlockHeader_after (Some p) mroot now diff comps) = Inr (ser, hdr)"
      using rest(1) by (simp add: m)
    show "block_hash (env_ops env) (env_gh env) True
       \<lparr>blk_header = with_computations comps' hdr, blk_transactions = blk_transactions block\<rparr> = Inr (h, b)"
      using rest(3) by (cases block) simp
  qed
qed

lemma mined_header_passes:
  assumes law: "lawful (env_ops env) fresh"
    and m: "mine env now pk p height diff reward txs comps = Inr (Some b, left_over)"
    and p: "hdr_hash_cache p = Some ph" "ph \<noteq> []"
    and ch: "get_difficulty_for_height (env_fl env) (env_cfg env) ch height = Inr diff"
    and c: "\<forall>c \<in> set comps. fresh c" "comps \<noteq> []" "diff \<le> sum_list (map (co_difficulty (env_ops env)) comps)"
  shows "\<exists>msg hdr hdr'. header_to_proto (env_ops env) (env_gh env) (blk_header b) = Inr msg
    \<and> header_from_proto (env_ops env) msg = Inr hdr \<and> validate_header_unsafe env ch hdr height = Inr (True, hdr')"
proof -
  let ?ops = "env_ops env"
  from m obtain mroot ser hdr comps' cb_txs h where
    ser: "header_serialize ?ops (env_gh env) False (BlockHeader_after (Some p) mroot now diff comps) = Inr (ser, hdr)"
    and proved: "prove_computations ?ops ser 0 (computations hdr) = Inr (True, comps')"
    and hashed: "block_hash ?ops (env_gh env) True
       \<lparr>blk_header = with_computations comps' hdr, blk_transactions = cb_txs\<rparr> = Inr (h, b)"
    by (rule mine_steps)
  have prev: "header_hash ?ops (env_gh env) False p = Inr (ph, p)" using p(1) by (simp add: header_hash.simps(1))
  from ser prev obtain cser cs where cs: "serialize_computations ?ops False comps = Inr (cser, cs)"
    and ser_eq: "ser = ph @ mroot @ uint64_to_vector_big_endian now @ uint32_to_vector_big_endian diff @
      uint64_to_vector_big_endian (word_of_nat (length comps)) @ cser"
    and hdr_eq: "hdr = BlockHeader (Some p) mroot now diff cs None []"
    by (auto simp: header_serialize.simps BlockHeader_after_def split: sum.splits)
  from serialize_unbound [OF law cs] obtain ss where ss: "cs = comps"
      "list_all2 (\<lambda>c s. co_serialize ?ops False c = Inr (s, c)) comps ss" "cser = concat (map sized ss)"
    by blast
  from hashed prev obtain t ds where ds: "serialize_computations ?ops True comps' = Inr (t, ds)"
    and b: "blk_header b = BlockHeader (Some p) mroot now diff ds (Some h) []"
    by (auto simp: block_hash_def map_sum_Inr_iff header_hash.simps(1) header_serialize.simps hdr_eq
        split: sum.splits)
  let ?f = "\<lambda>i. ser @ uint64_to_vector_big_endian (0 + word_of_nat i)"
  from prove_computations_ready [OF law proved, of ss] ss hdr_eq c(1) have len: "length comps' = length comps"
    and r: "\<forall>i < length comps'. ready ?ops (?f i) (ss ! i) (co_difficulty ?ops (comps ! i)) (comps' ! i)"
    by auto
  from serialize_output_ready [OF law ds r] have ds_ready: "length ds = length comps"
      "\<forall>i < length ds. ready ?ops (?f i) (ss ! i) (co_difficulty ?ops (comps ! i)) (ds ! i)"
    using len by auto
  from peer_copies [OF this(2)] obtain es where es: "map_res (co_create ?ops) (map (co_to_proto ?ops) ds) = Inr es"
      "length es = length ds"
      "\<forall>i < length es. proves ?ops (?f i) (ss ! i) (co_difficulty ?ops (comps ! i)) (es ! i)" by blast
  let ?e = "BlockHeader None mroot now diff es None ph"
  have "list_all2 (\<lambda>c s. co_serialize ?ops False c = Inr (s, c)) es ss"
    using es(3) list_all2_lengthD [OF ss(2)] ds_ready(1) es(2) by (auto simp: list_all2_conv_all_nth proves_def)
  from serialize_ready [OF this] have ser_es: "header_serialize ?ops (env_gh env) False ?e = Inr (ser, ?e)"
    using p(2) ds_ready(1) es(2) by (simp add: header_serialize.simps ser_eq ss(3))
  have "map (co_difficulty ?ops) es = map (co_difficulty ?ops) comps"
    using es(2,3) ds_ready(1) by (auto intro!: nth_equalityI simp: proves_def)
  moreover obtain es' where "check_proofs ?ops ser 0 es = Inr (True, es')"
    using check_proofs_proves [OF es(3)] by blast
  moreover have "es \<noteq> []" using c(2) es(2) ds_ready(1) by auto
  ultimately have "validate_header_unsafe env ch ?e height = Inr (True, with_computations es' ?e)"
    using ch c(3) ser_es by (auto simp: validate_header_unsafe_def)
  moreover have "header_to_proto ?ops (env_gh env) (blk_header b) = Inr
      \<lparr>ph_prev_block_hash = ph, ph_merkle_root = mroot, ph_timestamp = now, ph_difficulty = diff,
        ph_computations = map (co_to_proto ?ops) ds\<rparr>"
    using prev by (simp add: header_to_proto_def b)
  ultimately show ?thesis using es(1) by (auto simp: header_from_proto_def)
qed

lemma miner_validator_agree:
  assumes "lawful (env_ops env) fresh" and "start_mining env now m = Inr m'" and "m_result m' = Some b"
    and "\<forall>c \<in> snd ` set (st_comps (m_stores m)). fresh c"
    and "\<And>p. head_header (main_chain m) = Inr p \<Longrightarrow> \<exists>ph. hdr_hash_cache p = Some ph \<and> ph \<noteq> []"
  shows "\<exists>msg hdr hdr'. header_to_proto (env_ops env) (env_gh env) (blk_header b) = Inr msg
    \<and> header_from_proto (env_ops env) msg = Inr hdr
    \<and> validate_header_unsafe env (main_chain m) hdr (current_height (main_chain m) + 1) = Inr (True, hdr')"
proof -
  let ?st = "m_stores m" and ?h = "current_height (main_chain m) + 1"
  from assms(2,3) obtain txs diff reward p comps left_over where
    d: "get_difficulty_for_height (env_fl env) (env_cfg env) (main_chain m) ?h = Inr diff"
    and comps: "comps = collect_computations (co_difficulty (env_ops env)) diff (st_comps ?st)" "comps \<noteq> []"
    and p: "head_header (main_chain m) = Inr p"
    and mine: "mine env now (w_public_key (m_wallet m)) p ?h diff reward txs comps = Inr (Some b, left_over)"
    by (auto simp: start_mining_def Let_def map_sum_Inr_iff split: sum.splits if_splits)
  from assms(5) [OF p] obtain ph where ph: "hdr_hash_cache p = Some ph" "ph \<noteq> []" by blast
  have "diff \<le> sum_list (map (co_difficulty (env_ops env)) comps)"
    using collect_from_spec [of "co_difficulty (env_ops env)" diff 0 "[]" "map snd (st_comps ?st)" comps] comps
    by (auto simp: collect_computations_def)
  moreover have "\<forall>c \<in> set comps. fresh c"
    using collect_from_spec [of "co_difficulty (env_ops env)" diff 0 "[]" "map snd (st_comps ?st)" comps] comps assms(4)
    by (fastforce simp: collect_computations_def dest: in_set_takeD)
  ultimately show ?thesis using mined_header_passes [OF assms(1) mine ph d _ comps(2)] by blast
qed

text \<open>C9. Miner and validator agree: when \<open>start_mining\<close> leaves a block, its header, sent to a peer whose
  chain has the same headers, passes the header check of that peer for the next height, with every
  computation bound to the data it was proved for.  Asked of the computations: \<open>lawful\<close>, and that
  those in the store are fresh, which an interrupted attempt at mining does not leave them.\<close>

theorem mined_header_is_valid:
  assumes "lawful (env_ops env) fresh" and "start_mining env now m = Inr m'" and "m_result m' = Some b"
    and "\<forall>c \<in> snd ` set (st_comps (m_stores m)). fresh c"
    and "\<And>p. head_header (main_chain m) = Inr p \<Longrightarrow> \<exists>ph. hdr_hash_cache p = Some ph \<and> ph \<noteq> []"
  shows "\<exists>msg hdr hdr'. header_to_proto (env_ops env) (env_gh env) (blk_header b) = Inr msg
    \<and> header_from_proto (env_ops env) msg = Inr hdr
    \<and> validate_header_unsafe env (main_chain m) hdr (current_height (main_chain m) + 1) = Inr (True, hdr')"
  using assms by (rule miner_validator_agree)

definition demo_manager :: "bytes manager" where
  "demo_manager = \<lparr>main_chain = demo_chain, forks = [], m_stores = demo_stores\<lparr>st_comps := [([8, 9], [8, 9])]\<rparr>,
     m_wallet = sample_wallet, m_result = None\<rparr>"

lemma demo_lawful: "lawful (env_ops demo_env) (\<lambda>_. True)"
  by (simp add: lawful_def ready_def proves_def demo_env_def demo_ops_def)

lemma coinbase_made:
  assumes "32 \<le> length pk"
  shows "\<exists>cb. CoinbaseTransaction pk am h = Inr cb \<and> list_all wf_input (tx_inputs cb)
    \<and> list_all in_signed (tx_inputs cb) \<and> tx_id_cache cb = None
    \<and> tx_outputs cb = [\<lparr>out_amount = am, out_public_key = take 32 pk, out_hash_cache = None\<rparr>]"
  using assms by (simp add: CoinbaseTransaction_def set_signature_def set_temp_sig_size_def TransactionInput_def
      TransactionOutput_def sodium_sizes add_input_def add_output_def wf_input_def)

lemma signed_TXID:
  "list_all wf_input (tx_inputs t) \<Longrightarrow> list_all in_signed (tx_inputs t) \<Longrightarrow> tx_id_cache t = None
    \<Longrightarrow> \<exists>t'. TXID gh t = Inr (gh (tx_layout t), t')"
  by (simp add: TXID_def compute_txid_def tx_serialize_layout)

lemma demo_mine:
  "\<exists>b cs. mine demo_env 7 (replicate 32 5) demo_genesis 1 5 50 [] [[8, 9]] = Inr (Some b, cs)"
proof -
  obtain cb where cb: "CoinbaseTransaction (replicate 32 5) 50 1 = Inr cb" "list_all wf_input (tx_inputs cb)"
      "list_all in_signed (tx_inputs cb)" "tx_id_cache cb = None"
    using coinbase_made [of "replicate 32 5" 50 1] by auto
  moreover obtain t where "TXID zero_hash cb = Inr (replicate 32 0, t)"
    using signed_TXID [OF cb(2-4), of zero_hash] by (auto simp: zero_hash_def)
  ultimately show ?thesis
    by (simp add: mine_def demo_env_def demo_cfg_def new_block_def root_of_def compute_root.simps BlockHeader_after_def
        header_serialize.simps header_hash.simps(1) block_hash_def serialize_proofs_def demo_ops_def demo_genesis_def)
qed

lemma demo_mining: "\<exists>m' b. start_mining demo_env 7 demo_manager = Inr m' \<and> m_result m' = Some b"
proof -
  have "get_difficulty_for_height (env_fl demo_env) (env_cfg demo_env) demo_chain 1 = Inr 5"
      "reward_for_height (env_cfg demo_env) 1 = Inr 50"
    by (simp_all add: get_difficulty_for_height_def get_epoch_def reward_for_height_def demo_defs)
  moreover have "get_top (cfg_tx_per_block (env_cfg demo_env)) empty_mempool = Inr []"
    by (simp add: get_top_def empty_mempool_def demo_defs)
  moreover have "collect_computations (co_difficulty (env_ops demo_env)) 5 [([8, 9], [8, 9])] = [[8, 9]]"
    by (simp add: collect_computations_def demo_defs)
  moreover have "current_height demo_chain = 0" "head_header demo_chain = Inr demo_genesis"
    by (simp_all add: current_height_def head_header_def demo_chain_def)
  ultimately show ?thesis
    using demo_mine by (auto simp: start_mining_def demo_manager_def demo_stores_def sample_wallet_def)
qed

theorem mined_header_is_valid_witness:
  "\<exists>m' b msg hdr hdr'. start_mining demo_env 7 demo_manager = Inr m' \<and> m_result m' = Some b
    \<and> header_to_proto (env_ops demo_env) (env_gh demo_env) (blk_header b) = Inr msg
    \<and> validate_header_unsafe demo_env (main_chain demo_manager) hdr (current_height (main_chain demo_manager) + 1) = Inr (True, hdr')"
proof -
  obtain m' b where m: "start_mining demo_env 7 demo_manager = Inr m'" "m_result m' = Some b"
    using demo_mining by blast
  have "\<exists>ph. hdr_hash_cache p = Some ph \<and> ph \<noteq> []" if "head_header (main_chain demo_manager) = Inr p" for p
    using that by (auto simp: head_header_def demo_manager_def demo_chain_def demo_genesis_def)
  from mined_header_is_valid [OF demo_lawful m _ this] m show ?thesis by blast
qed

subsection \<open>Admission to the pool\<close>

lemma fund_inputs_spec:
  "fund_inputs cs inps = Some (pks, inps') \<Longrightarrow> list_all2 (funds cs) inps' pks \<and> map in_key inps' = map in_key inps"
proof (induction inps arbitrary: pks inps')
  case (Cons inp inps)
  then obtain pk am pks1 inps1 where i: "utxo_pubkey cs (in_TXID inp) (in_vout inp) = Inr pk"
      "utxo_amount cs (in_TXID inp) (in_vout inp) = Inr am" "fund_inputs cs inps = Some (pks1, inps1)"
      "pks = pk # pks1" "inps' = set_amount am inp # inps1"
    by (auto split: if_splits sum.splits option.splits)
  then have "funds cs (set_amount am inp) pk" by (simp add: funds_def set_amount_def)
  with i Cons.IH [OF i(3)] show ?case by (simp add: in_key_set_amount)
qed simp

lemma add_valid_tx_new:
  "add_valid_tx gh t p = Inr (True, p') \<Longrightarrow> \<exists>k. txid_of gh t = Inr k \<and> tx_in_pool k p' \<and> \<not> tx_in_pool k p"
  by (auto simp: add_valid_tx_def tx_in_pool_def update_conv' split: sum.splits option.splits if_splits)

text \<open>C19. A transaction is admitted to the pool only when every input spends an output of the chain state,
  with the key and the amount found there, when it pays out no more than it takes in and every
  signature verifies; it then was new, is found in the pool under its id, the pool stays consistent,
  and nothing else of the node changes.\<close>

theorem add_tx_admits_spendable:
  assumes "add_tx env t m = Inr (True, m')"
  shows "\<exists>u k. map in_key (tx_inputs u) = map in_key (tx_inputs t) \<and> tx_outputs u = tx_outputs t
    \<and> spendable (env_verify env) (st_chainstate (m_stores m)) u \<and> out_total u \<le> in_total u
    \<and> txid_of (env_gh env) u = Inr k \<and> \<not> manager_tx_exists k m \<and> manager_tx_exists k m'
    \<and> m' = m\<lparr>m_stores := (m_stores m)\<lparr>st_pool := st_pool (m_stores m')\<rparr>\<rparr>
    \<and> (\<forall>F. pool_ok (env_gh env) F (st_pool (m_stores m)) \<and> fee u = Inr (F k)
        \<longrightarrow> pool_ok (env_gh env) F (st_pool (m_stores m')))"
proof -
  let ?cs = "st_chainstate (m_stores m)" and ?p = "st_pool (m_stores m)"
  from assms obtain pks inps p' where f: "fund_inputs ?cs (tx_inputs t) = Some (pks, inps)"
    and v: "validate_transaction (env_verify env) pks (t\<lparr>tx_inputs := inps\<rparr>) = Inr True"
    and a: "add_valid_tx (env_gh env) (t\<lparr>tx_inputs := inps\<rparr>) ?p = Inr (True, p')"
    and m': "m' = m\<lparr>m_stores := (m_stores m)\<lparr>st_pool := p'\<rparr>\<rparr>"
    by (auto simp: add_tx_def Let_def split: option.splits sum.splits if_splits)
  let ?u = "t\<lparr>tx_inputs := inps\<rparr>"
  from fund_inputs_spec [OF f] have "list_all2 (funds ?cs) inps pks" "map in_key inps = map in_key (tx_inputs t)" by auto
  with v have "spendable (env_verify env) ?cs ?u" by (auto simp: spendable_def)
  moreover have "out_total ?u \<le> in_total ?u"
    using v by (auto simp: validate_transaction_def not_less split: if_splits)
  moreover obtain k where k: "txid_of (env_gh env) ?u = Inr k" "tx_in_pool k p'" "\<not> tx_in_pool k ?p"
    using add_valid_tx_new [OF a] by blast
  moreover have "pool_ok (env_gh env) F p'" if "pool_ok (env_gh env) F ?p" "fee ?u = Inr (F k)" for F
    using add_valid_tx_ok [OF that(1), of k ?u] that(2) k(1) a by (auto simp: priced_def)
  ultimately show ?thesis
    using m' \<open>map in_key inps = _\<close>
    by (intro exI [of _ ?u] exI [of _ k]) (auto simp: manager_tx_exists_def)
qed

subsection \<open>One output spent twice\<close>

lemma spend_input_keys:
  "spend_input inp cs = Inr cs' \<Longrightarrow> in_key inp \<in> dom (map_of (storage cs))
    \<and> dom (map_of (storage cs')) = dom (map_of (storage cs)) - {in_key inp}"
  by (auto simp: spend_input_def remove_utxo_def in_key_def Let_def delete_conv' split: option.splits if_splits)

lemma spend_inputs_distinct:
  "fold_res spend_input inps cs = Inr cs' \<Longrightarrow> distinct (map in_key inps) \<and> in_key ` set inps \<subseteq> dom (map_of (storage cs))"
proof (induction inps arbitrary: cs)
  case (Cons inp inps)
  then obtain cs1 where c: "spend_input inp cs = Inr cs1" "fold_res spend_input inps cs1 = Inr cs'"
    unfolding fold_res_Cons_Inr by blast
  from spend_input_keys [OF c(1)] Cons.IH [OF c(2)] show ?case by auto
qed simp

lemma add_txs_distinct:
  "add_txs gh h cb ts cs = Inr cs' \<Longrightarrow> t \<in> set (if cb then drop 1 ts else ts) \<Longrightarrow> distinct (map in_key (tx_inputs t))"
proof (induction ts arbitrary: cb cs)
  case (Cons u ts)
  from Cons.prems(1) obtain cs1 cs2 where c:
      "(if cb then Inr cs1 else fold_res spend_input (tx_inputs u) cs1) = Inr cs2" "add_txs gh h False ts cs2 = Inr cs'"
    by (auto split: sum.splits)
  show ?case
  proof (cases "t \<in> set ts")
    case True
    with Cons.IH [OF c(2)] show ?thesis by simp
  next
    case False
    with Cons.prems(2) have "\<not> cb" "t = u" by (auto split: if_splits)
    with c(1) spend_inputs_distinct show ?thesis by simp
  qed
qed simp

text \<open>A payment of 100 that names one output of 50 twice.\<close>

definition double_tx :: tx where
  "double_tx = (let i = (TransactionInput (replicate 32 7) 1)\<lparr>in_sig := replicate 64 9, in_signed := True\<rparr>
     in \<lparr>tx_inputs = [i, i], tx_outputs = [\<lparr>out_amount = 100, out_public_key = replicate 32 5, out_hash_cache = Some [1]\<rparr>],
         tx_id_cache = Some (replicate 32 2)\<rparr>)"

lemma double_tx_admitted:
  "\<exists>m'. add_tx demo_env double_tx (demo_manager\<lparr>m_stores := demo_stores\<lparr>st_chainstate := sample_chainstate\<rparr>\<rparr>) = Inr (True, m')
      \<and> manager_tx_exists (replicate 32 2) m'"
proof -
  let ?m = "demo_manager\<lparr>m_stores := demo_stores\<lparr>st_chainstate := sample_chainstate\<rparr>\<rparr>"
  let ?i = "(TransactionInput_with_amount (replicate 32 7) 1 50)\<lparr>in_sig := replicate 64 9, in_signed := True\<rparr>"
  let ?u = "double_tx\<lparr>tx_inputs := [?i, ?i]\<rparr>"
  have "fund_inputs sample_chainstate (tx_inputs double_tx) = Some ([replicate 32 5, replicate 32 5], [?i, ?i])"
    by (simp add: sample_chainstate_def double_tx_def utxo_exists_def utxo_pubkey_def utxo_amount_def utxo_at_def
        keys_agree set_amount_def TransactionInput_def TransactionInput_with_amount_def Let_def)
  moreover have "validate_transaction (env_verify demo_env) [replicate 32 5, replicate 32 5] ?u = Inr True"
    by (subst validate_transaction_spec) (auto simp: wire_input_def TransactionInput_with_amount_def
        in_total_def out_total_def double_tx_def demo_env_def Let_def)
  moreover have "\<exists>p'. add_valid_tx (env_gh demo_env) ?u empty_mempool = Inr (True, p') \<and> tx_in_pool (replicate 32 2) p'"
    by (simp add: add_valid_tx_def txid_of_def TXID_def fee_def in_total_def out_total_def double_tx_def out_hash_def
        output_hash_def empty_mempool_def tx_in_pool_def TransactionInput_with_amount_def Let_def)
  ultimately show ?thesis
    by (auto simp: add_tx_def manager_tx_exists_def demo_stores_def)
qed

text \<open>C25. Admission to the pool does not look for repeated inputs: a payment of 100 that names one
  output of 50 twice is admitted; and no block with such a payment can be added to any chain state, so a
  miner that takes it from the pool, and appends its own block without validation, stops at an
  assertion.\<close>

theorem pooled_double_input_blocks_miner:
  "(\<exists>m'. add_tx demo_env double_tx (demo_manager\<lparr>m_stores := demo_stores\<lparr>st_chainstate := sample_chainstate\<rparr>\<rparr>) = Inr (True, m')
      \<and> manager_tx_exists (replicate 32 2) m')
   \<and> (\<forall>gh ts h cs cs'. double_tx \<in> set (drop 1 ts) \<longrightarrow> add_block gh ts h cs \<noteq> Inr cs')"
proof (intro conjI double_tx_admitted)
  have "\<not> distinct (map in_key (tx_inputs double_tx))" by (simp add: double_tx_def Let_def)
  then show "\<forall>gh ts h cs cs'. double_tx \<in> set (drop 1 ts) \<longrightarrow> add_block gh ts h cs \<noteq> Inr cs'"
    using add_txs_distinct [of _ _ True] unfolding add_block_def by (metis (full_types))
qed

theorem pooled_double_input_blocks_miner_witness:
  "\<nexists>cs'. add_block id [double_tx, double_tx] 1 sample_chainstate = Inr cs'"
  using pooled_double_input_blocks_miner by simp

text \<open>The admission theorem on that payment.\<close>

theorem add_tx_admits_spendable_witness:
  "\<exists>m' u k. add_tx demo_env double_tx (demo_manager\<lparr>m_stores := demo_stores\<lparr>st_chainstate := sample_chainstate\<rparr>\<rparr>) = Inr (True, m')
    \<and> spendable (env_verify demo_env) sample_chainstate u \<and> manager_tx_exists k m'"
  proof -
  obtain m' where a: "add_tx demo_env double_tx
      (demo_manager\<lparr>m_stores := demo_stores\<lparr>st_chainstate := sample_chainstate\<rparr>\<rparr>) = Inr (True, m')"
    using double_tx_admitted by blast
  from add_tx_admits_spendable [OF this] a show ?thesis by auto
qed

subsection \<open>Switching to a fork\<close>

lemma append_block_rejected: "append_block env b v ch st = Inr (False, ch', st') \<Longrightarrow> ch' = ch \<and> st' = st"
  by (auto simp: append_block_def Let_def map_sum_Inr_iff split: sum.splits if_splits)

lemma accept_block_headers:
  "accept_block env b head ch st = Inr (ch', st') \<Longrightarrow> \<exists>new. header_chain ch' = butlast (header_chain ch) @ [head, new]"
  by (auto simp: accept_block_def Let_def split: sum.splits)

lemma append_block_length:
  assumes "append_block env b v ch st = Inr (True, ch', st')" and "header_chain ch \<noteq> []"
  shows "length (header_chain ch') = Suc (length (header_chain ch))
    \<and> (\<forall>n < length (header_chain ch). take n (header_chain ch') = take n (header_chain ch))"
proof -
  from append_block_accepted [OF assms(1)] obtain b1 head where "accept_block env b1 head ch st = Inr (ch', st')"
    by blast
  from accept_block_headers [OF this] obtain new where "header_chain ch' = butlast (header_chain ch) @ [head, new]"
    by blast
  then show ?thesis using assms(2) by (auto simp: take_butlast Suc_leI)
qed

lemma replay_length:
  assumes "replay env hs idx ch st = Inr (ok, idx', ch', st')" and "header_chain ch \<noteq> []"
  shows "idx \<le> idx' \<and> idx' \<le> idx + length hs \<and> (ok \<longleftrightarrow> idx' = idx + length hs)
    \<and> length (header_chain ch') = length (header_chain ch) + (idx' - idx)
    \<and> (\<forall>n < length (header_chain ch). take n (header_chain ch') = take n (header_chain ch))"
  using assms
proof (induction hs arbitrary: idx ch st)
  case (Cons h hs)
  from Cons.prems obtain block added ch1 st1 where a: "append_block env block False ch st = Inr (added, ch1, st1)"
      and r: "if added then replay env hs (idx + 1) ch1 st1 = Inr (ok, idx', ch', st')
        else (ok, idx', ch', st') = (False, idx, ch1, st1)"
    by (auto split: sum.splits if_splits)
  show ?case
  proof (cases added)
    case True
    with append_block_length [of env block False ch st ch1 st1] a Cons.prems(2)
    have l: "length (header_chain ch1) = Suc (length (header_chain ch))"
        "\<forall>n < length (header_chain ch). take n (header_chain ch1) = take n (header_chain ch)" by auto
    then have "header_chain ch1 \<noteq> []" by auto
    with Cons.IH [of "idx + 1" ch1 st1] r True l show ?thesis by auto
  next
    case False
    with a append_block_rejected [of env block False ch st ch1 st1] r show ?thesis by auto
  qed
qed simp

lemma reorg_steps:
  assumes "reorg env fi m = Inr m'" and "fk = forks m ! fi" and "src = unat (chain_src fk)"
    and "hs = header_chain (main_chain m)"
  obtains (switched) st1 idx ch2 st2 old where "src < length hs"
      "replay env (header_chain (f_chain fk)) 0 ((main_chain m)\<lparr>header_chain := take (src + 1) hs\<rparr>) st1 = Inr (True, idx, ch2, st2)"
      "main_chain m' = ch2\<lparr>total_difficulty := total_difficulty (f_chain fk)\<rparr>"
      "forks m' = take fi (forks m) @ drop (fi + 1) (forks m) @ [old]" "chain_src old = chain_src fk"
      "f_chain old = \<lparr>header_chain = drop (src + 1) hs, total_difficulty = total_difficulty (main_chain m)\<rparr>"
    | (undone) st1 idx ch2 st2 st3 n ch4 st4 fk' where "src < length hs"
      "replay env (header_chain (f_chain fk)) 0 ((main_chain m)\<lparr>header_chain := take (src + 1) hs\<rparr>) st1 = Inr (False, idx, ch2, st2)"
      "replay env (drop (src + 1) hs) 0 (ch2\<lparr>header_chain := take (src + 1) (header_chain ch2)\<rparr>) st3 = Inr (True, n, ch4, st4)"
      "0 < idx" "main_chain m' = ch4\<lparr>total_difficulty := total_difficulty (main_chain m)\<rparr>"
      "forks m' = (forks m)[fi := fk']" "header_chain (f_chain fk') = take idx (header_chain (f_chain fk))"
  using assms
  by (auto simp: reorg_def Let_def map_sum_Inr_iff Fork_def not_le split: if_splits sum.splits bool.splits prod.splits)


text \<open>A fork of one block from the genesis block.\<close>

definition demo_fork :: "bytes fork" where
  "demo_fork = \<lparr>f_chain = \<lparr>header_chain = [blk_header (demo_block (- 1))], total_difficulty = 10\<rparr>, chain_src = 0,
     chain_src_header = demo_genesis\<rparr>"

definition forked_manager :: "bytes manager" where
  "forked_manager = demo_manager\<lparr>forks := [demo_fork], m_stores := demo_stores\<lparr>st_blocks := [(replicate 32 0, demo_block (- 1))]\<rparr>\<rparr>"

lemma demo_append_stored:
  "\<exists>cs pool comps new. append_block demo_env (demo_block (- 1)) False demo_chain
        (demo_stores\<lparr>st_blocks := [(replicate 32 0, demo_block (- 1))]\<rparr>)
      = Inr (True, \<lparr>header_chain = [demo_genesis, new], total_difficulty = 10\<rparr>,
          \<lparr>st_chainstate = cs, st_blocks = [(replicate 32 0, demo_block (- 1))], st_pool = pool, st_comps = comps\<rparr>)
    \<and> hdr_hash_cache new = Some (replicate 32 0)"
proof -
  have "validate_block demo_env empty_chainstate demo_chain (demo_block (- 1)) 1 = Inr (True, demo_block (- 1))"
    by (simp add: demo_validate)
  then show ?thesis
    by (simp add: append_block_def accept_block_def demo_defs header_hash.simps(1) header_serialize.simps
        block_hash_def add_block_def txid_of_def TXID_def add_utxo_def UTXORecord_def sodium_sizes
        empty_chainstate_def pool_spend_block_def serialize_proofs_def sample_output_def store_block_def
        word_sle_eq)
qed

lemma demo_reorg: "\<exists>m'. reorg demo_env 0 forked_manager = Inr m'"
proof -
  let ?bs = "[(replicate 32 0, demo_block (- 1))] :: bytes block blockstore"
  obtain cs pool comps new where a: "append_block demo_env (demo_block (- 1)) False demo_chain (demo_stores\<lparr>st_blocks := ?bs\<rparr>)
      = Inr (True, \<lparr>header_chain = [demo_genesis, new], total_difficulty = 10\<rparr>,
          \<lparr>st_chainstate = cs, st_blocks = ?bs, st_pool = pool, st_comps = comps\<rparr>)"
    and h: "hdr_hash_cache new = Some (replicate 32 0)"
    using demo_append_stored by blast
  have step: "\<exists>w'. rescan_header demo_env ?bs hdr w = Inr w'" if "hdr_hash_cache hdr = Some (replicate 32 0)" for hdr w
    using demo_filter that by (simp add: rescan_header_def header_hash.simps(1) get_block_def)
  obtain w1 where w1: "rescan_header demo_env ?bs demo_genesis (sample_wallet\<lparr>coins := []\<rparr>) = Inr w1"
    using step [of demo_genesis] by (auto simp: demo_genesis_def)
  moreover obtain w2 where "rescan_header demo_env ?bs new w1 = Inr w2" using step [OF h] by blast
  ultimately have w: "rescan demo_env [demo_genesis, new] ?bs sample_wallet = Inr w2"
    by (simp add: rescan_def)
  have b: "\<exists>hh. header_hash (env_ops demo_env) (env_gh demo_env) False (blk_header (demo_block (- 1))) = Inr (replicate 32 0, hh)"
    by (simp add: demo_defs header_hash.simps(1) header_serialize.simps serialize_proofs_def)
  have "demo_chain\<lparr>header_chain := [demo_genesis]\<rparr> = demo_chain" by (simp add: demo_chain_def)
  with a b have "replay demo_env (header_chain (f_chain demo_fork)) 0 (demo_chain\<lparr>header_chain := [demo_genesis]\<rparr>)
      (demo_stores\<lparr>st_blocks := ?bs\<rparr>) = Inr (True, 1, \<lparr>header_chain = [demo_genesis, new], total_difficulty = 10\<rparr>,
          \<lparr>st_chainstate = cs, st_blocks = ?bs, st_pool = pool, st_comps = comps\<rparr>)"
    by (auto simp: demo_fork_def get_block_def demo_stores_def)
  moreover have "header_chain demo_chain = [demo_genesis]" by (simp add: demo_chain_def)
  moreover have "chain_src demo_fork = 0" by (simp add: demo_fork_def)
  ultimately show ?thesis
    using w by (simp add: reorg_def forked_manager_def demo_manager_def rewind_headers_def Let_def)
qed



definition misled_manager :: "bytes manager" where
  "misled_manager = forked_manager\<lparr>m_stores := demo_stores\<lparr>st_blocks :=
     [(replicate 32 0, (demo_block (- 1))\<lparr>blk_transactions := []\<rparr>)]\<rparr>\<rparr>"


end
