(* ===== verification/R1cs.thy ===== *)
theory R1cs
  imports Prelude "HOL-Library.Log_Nat"
begin

text \<open>
  \<^verbatim>\<open>src/incl/conv/conv.tcc\<close>: a rank-1 constraint system of libsnark is converted to one of
  libiop and padded to the sizes that the Aurora prover asks for.

  The two libraries are represented by the fields that the code reads and writes; sizes and indices
  are 64-bit.  \<open>log2\<close> is \<open>libff::log2\<close>, which rounds up, and \<open>lc_const\<close> the constructor
  of a constant linear combination.  Theorem: padding changes no solution, and the sizes are right.
\<close>

subsection \<open>The two representations\<close>

record 'f ls_term =
  ls_index :: u64
  ls_coeff :: 'f

record 'f ls_constraint =
  ls_a :: "'f ls_term list"
  ls_b :: "'f ls_term list"
  ls_c :: "'f ls_term list"

record 'f ls_system =
  ls_primary_input_size :: u64
  ls_auxiliary_input_size :: u64
  ls_constraints :: "'f ls_constraint list"

record 'f liop_term =
  li_index :: u64
  li_coeff :: 'f

record 'f liop_constraint =
  li_a :: "'f liop_term list"
  li_b :: "'f liop_term list"
  li_c :: "'f liop_term list"

record 'f liop_system =
  li_primary_input_size :: u64
  li_auxiliary_input_size :: u64
  li_constraints :: "'f liop_constraint list"

definition num_inputs :: "'f liop_system \<Rightarrow> u64" where
  "num_inputs cs = li_primary_input_size cs"

definition num_variables :: "'f liop_system \<Rightarrow> u64" where
  "num_variables cs = li_primary_input_size cs + li_auxiliary_input_size cs"

definition num_constraints :: "'f liop_system \<Rightarrow> u64" where
  "num_constraints cs = word_of_nat (length (li_constraints cs))"

subsection \<open>Conversion\<close>

definition libsnark_to_libiop_linear_term :: "'f ls_term \<Rightarrow> 'f liop_term" where
  "libsnark_to_libiop_linear_term ls_lt = \<lparr>li_index = ls_index ls_lt, li_coeff = ls_coeff ls_lt\<rparr>"

definition libsnark_to_libiop_linear_combination :: "'f ls_term list \<Rightarrow> 'f liop_term list \<Rightarrow> 'f liop_term list" where
  "libsnark_to_libiop_linear_combination ls_lc liop_lc =
     fold (\<lambda>p lc. lc @ [libsnark_to_libiop_linear_term p]) ls_lc liop_lc"

definition libsnark_to_libiop_r1cs_constraint :: "'f ls_constraint \<Rightarrow> 'f liop_constraint \<Rightarrow> 'f liop_constraint" where
  "libsnark_to_libiop_r1cs_constraint ls_cons liop_cons =
     \<lparr>li_a = libsnark_to_libiop_linear_combination (ls_a ls_cons) (li_a liop_cons),
      li_b = libsnark_to_libiop_linear_combination (ls_b ls_cons) (li_b liop_cons),
      li_c = libsnark_to_libiop_linear_combination (ls_c ls_cons) (li_c liop_cons)\<rparr>"

definition add_constraint :: "'f liop_constraint \<Rightarrow> 'f liop_system \<Rightarrow> 'f liop_system" where
  "add_constraint c cs = cs\<lparr>li_constraints := li_constraints cs @ [c]\<rparr>"

definition libsnark_to_libiop_r1cs_constraint_system :: "'f ls_system \<Rightarrow> 'f liop_system \<Rightarrow> 'f liop_system" where
  "libsnark_to_libiop_r1cs_constraint_system ls cs =
     fold (\<lambda>c. add_constraint (libsnark_to_libiop_r1cs_constraint c \<lparr>li_a = [], li_b = [], li_c = []\<rparr>)) (ls_constraints ls)
       (cs\<lparr>li_primary_input_size := ls_primary_input_size ls, li_auxiliary_input_size := ls_auxiliary_input_size ls\<rparr>)"

subsection \<open>Padding\<close>

definition power_of_two :: "(nat \<Rightarrow> nat) \<Rightarrow> u64 \<Rightarrow> u64" where
  "power_of_two log2 n = push_bit (log2 (unat n)) 1"

definition pad_constraints_to_next_power_of_two ::
  "(nat \<Rightarrow> nat) \<Rightarrow> (int \<Rightarrow> 'f liop_term list) \<Rightarrow> 'f liop_system \<Rightarrow> 'f liop_system" where
  "pad_constraints_to_next_power_of_two log2 lc_const cs =
     (let pad_amount = power_of_two log2 (num_constraints cs) - num_constraints cs;
          new_c = \<lparr>li_a = lc_const 0, li_b = lc_const 0, li_c = lc_const 0\<rparr>
      in (add_constraint new_c ^^ unat pad_amount) cs)"

definition move_term :: "u64 \<Rightarrow> u64 \<Rightarrow> 'f liop_term \<Rightarrow> 'f liop_term" where
  "move_term old_primary_input_size input_pad_amount lt =
     (if old_primary_input_size < li_index lt then lt\<lparr>li_index := li_index lt + input_pad_amount\<rparr> else lt)"

definition move_constraint :: "u64 \<Rightarrow> u64 \<Rightarrow> 'f liop_constraint \<Rightarrow> 'f liop_constraint" where
  "move_constraint old_primary_input_size input_pad_amount c =
     (let move = map (move_term old_primary_input_size input_pad_amount)
      in c\<lparr>li_a := move (li_a c), li_b := move (li_b c), li_c := move (li_c c)\<rparr>)"

definition pad_constraint_system_for_aurora ::
  "(nat \<Rightarrow> nat) \<Rightarrow> (int \<Rightarrow> 'f liop_term list) \<Rightarrow> 'f liop_system \<Rightarrow> 'f liop_system" where
  "pad_constraint_system_for_aurora log2 lc_const cs =
     (let old_primary_input_size = num_inputs cs;
          input_pad_amount = power_of_two log2 (old_primary_input_size + 1) - (old_primary_input_size + 1);
          cs1 = (if 0 < input_pad_amount
                 then cs\<lparr>li_primary_input_size := li_primary_input_size cs + input_pad_amount,
                         li_constraints := map (move_constraint old_primary_input_size input_pad_amount) (li_constraints cs)\<rparr>
                 else cs);
          cs2 = pad_constraints_to_next_power_of_two log2 lc_const cs1;
          var_pad_amount = power_of_two log2 (num_variables cs2 + 1) - (num_variables cs2 + 1)
      in cs2\<lparr>li_auxiliary_input_size := li_auxiliary_input_size cs2 + var_pad_amount\<rparr>)"

definition pad_primary_input_to_match_cs :: "'f :: zero liop_system \<Rightarrow> 'f list \<Rightarrow> 'f list" where
  "pad_primary_input_to_match_cs cs prim = prim @ replicate (unat (num_inputs cs - word_of_nat (length prim))) 0"

definition pad_auxiliary_input_to_match_cs :: "'f :: zero liop_system \<Rightarrow> 'f list \<Rightarrow> 'f list" where
  "pad_auxiliary_input_to_match_cs cs aux =
     aux @ replicate (unat (li_auxiliary_input_size cs - word_of_nat (length aux))) 0"

subsection \<open>Solutions\<close>

text \<open>
  The meaning of both systems: variable 0 is the constant one, then come the primary and the
  auxiliary inputs.
\<close>

definition variable :: "'f :: comm_ring_1 list \<Rightarrow> 'f list \<Rightarrow> nat \<Rightarrow> 'f" where
  "variable prim aux i =
     (if i = 0 then 1
      else if i \<le> length prim then prim ! (i - 1)
      else if i \<le> length prim + length aux then aux ! (i - 1 - length prim)
      else 0)"

definition ls_value :: "'f :: comm_ring_1 list \<Rightarrow> 'f list \<Rightarrow> 'f ls_term list \<Rightarrow> 'f" where
  "ls_value prim aux lc = sum_list (map (\<lambda>t. ls_coeff t * variable prim aux (unat (ls_index t))) lc)"

definition ls_satisfied :: "'f :: comm_ring_1 ls_system \<Rightarrow> 'f list \<Rightarrow> 'f list \<Rightarrow> bool" where
  "ls_satisfied cs prim aux \<longleftrightarrow>
     list_all (\<lambda>c. ls_value prim aux (ls_a c) * ls_value prim aux (ls_b c) = ls_value prim aux (ls_c c)) (ls_constraints cs)"

definition liop_value :: "'f :: comm_ring_1 list \<Rightarrow> 'f list \<Rightarrow> 'f liop_term list \<Rightarrow> 'f" where
  "liop_value prim aux lc = sum_list (map (\<lambda>t. li_coeff t * variable prim aux (unat (li_index t))) lc)"

definition liop_satisfied :: "'f :: comm_ring_1 liop_system \<Rightarrow> 'f list \<Rightarrow> 'f list \<Rightarrow> bool" where
  "liop_satisfied cs prim aux \<longleftrightarrow>
     list_all (\<lambda>c. liop_value prim aux (li_a c) * liop_value prim aux (li_b c) = liop_value prim aux (li_c c)) (li_constraints cs)"

lemma liop_combination_map:
  "libsnark_to_libiop_linear_combination lc acc = acc @ map libsnark_to_libiop_linear_term lc"
  by (induction lc arbitrary: acc) (simp_all add: libsnark_to_libiop_linear_combination_def)

definition to_liop :: "'f ls_constraint \<Rightarrow> 'f liop_constraint" where
  "to_liop c = \<lparr>li_a = map libsnark_to_libiop_linear_term (ls_a c), li_b = map libsnark_to_libiop_linear_term (ls_b c),
     li_c = map libsnark_to_libiop_linear_term (ls_c c)\<rparr>"

lemma add_constraints: "fold (\<lambda>c. add_constraint (f c)) cs s = s\<lparr>li_constraints := li_constraints s @ map f cs\<rparr>"
  by (induction cs arbitrary: s) (simp_all add: add_constraint_def)

lemma add_copies: "(add_constraint c ^^ n) s = s\<lparr>li_constraints := li_constraints s @ replicate n c\<rparr>"
  by (induction n) (simp_all add: add_constraint_def replicate_append_same)

lemma converted_system:
  "libsnark_to_libiop_r1cs_constraint_system ls \<lparr>li_primary_input_size = p, li_auxiliary_input_size = x, li_constraints = []\<rparr> =
     \<lparr>li_primary_input_size = ls_primary_input_size ls, li_auxiliary_input_size = ls_auxiliary_input_size ls,
      li_constraints = map to_liop (ls_constraints ls)\<rparr>"
  by (simp add: libsnark_to_libiop_r1cs_constraint_system_def add_constraints
      libsnark_to_libiop_r1cs_constraint_def liop_combination_map to_liop_def)

subsection \<open>Padding and solutions\<close>

text \<open>What \<open>libff::log2\<close> and a constant linear combination are documented to be.\<close>

definition rounds_up :: "(nat \<Rightarrow> nat) \<Rightarrow> bool" where
  "rounds_up log2 \<longleftrightarrow> (\<forall>n > 0. n \<le> 2 ^ log2 n \<and> 2 ^ log2 n < 2 * n)"

definition constant_lc :: "(int \<Rightarrow> 'f :: comm_ring_1 liop_term list) \<Rightarrow> bool" where
  "constant_lc lc_const \<longleftrightarrow> (\<forall>k prim aux. liop_value prim aux (lc_const k) = of_int k)"

text \<open>The indices of a system that are in use, and sizes far from the end of the 64-bit range.\<close>

definition ls_wf :: "'f ls_system \<Rightarrow> 'f list \<Rightarrow> 'f list \<Rightarrow> bool" where
  "ls_wf cs prim aux \<longleftrightarrow> length prim = unat (ls_primary_input_size cs) \<and> length aux = unat (ls_auxiliary_input_size cs)
     \<and> ls_constraints cs \<noteq> [] \<and> length (ls_constraints cs) < 2 ^ 60 \<and> length prim + length aux < 2 ^ 60
     \<and> (\<forall>c \<in> set (ls_constraints cs). \<forall>t \<in> set (ls_a c) \<union> set (ls_b c) \<union> set (ls_c c).
          unat (ls_index t) \<le> length prim + length aux)"

lemma power_of_two_unat:
  assumes "rounds_up log2" and "0 < unat n" "unat n < 2 ^ 62"
  shows "unat (power_of_two log2 n) = 2 ^ log2 (unat n) \<and> unat n \<le> unat (power_of_two log2 n)
    \<and> unat (power_of_two log2 n - n) = unat (power_of_two log2 n) - unat n
    \<and> unat (power_of_two log2 n) < 2 * unat n"
proof -
  let ?k = "log2 (unat n)"
  have k: "unat n \<le> 2 ^ ?k" "2 ^ ?k < 2 * unat n" using assms by (auto simp: rounds_up_def)
  with assms(3) have lim: "(2 :: nat) ^ ?k < 2 ^ 64" by simp
  then have "?k < 64" by (rule power_less_imp_less_exp [rotated]) simp
  then have "unat (push_bit ?k (1 :: u64)) = 2 ^ ?k"
    using lim by (simp only: unsigned_push_bit_eq unsigned_1) (simp add: push_bit_eq_mult take_bit_nat_eq_self)
  with k show ?thesis by (simp add: power_of_two_def unat_sub word_le_nat_alt)
qed

lemma variable_padded:
  assumes "i \<le> length prim + length aux"
  shows "variable (prim @ replicate k 0) (aux @ replicate m 0) (if length prim < i then i + k else i) = variable prim aux i"
  using assms by (auto simp: variable_def nth_append)

lemma moved_term:
  fixes t :: "'a :: comm_ring_1 ls_term" and prim aux :: "'a list"
  assumes "unat (ls_index t) \<le> length prim + length aux" and "length prim + length aux < 2 ^ 60"
    and "length prim = unat p" and "unat k < 2 ^ 62"
  shows "variable (prim @ replicate (unat k) 0) (aux @ replicate m 0)
      (unat (li_index (move_term p k (libsnark_to_libiop_linear_term t)))) = variable prim aux (unat (ls_index t))"
proof -
  have "unat (ls_index t + k) = unat (ls_index t) + unat k"
    using assms by (simp add: unat_word_ariths)
  with variable_padded [OF assms(1), of "unat k" m] assms(3) show ?thesis
    by (auto simp: move_term_def libsnark_to_libiop_linear_term_def word_less_nat_alt split: if_splits)
qed

lemma moved_value:
  fixes prim aux :: "'a :: comm_ring_1 list"
  assumes "\<forall>t \<in> set lc. unat (ls_index t) \<le> length prim + length aux" and "length prim + length aux < 2 ^ 60"
    and "length prim = unat p" and "unat k < 2 ^ 62"
  shows "liop_value (prim @ replicate (unat k) 0) (aux @ replicate m 0)
      (map (move_term p k) (map libsnark_to_libiop_linear_term lc)) = ls_value prim aux lc"
proof -
  have "li_coeff (move_term p k (libsnark_to_libiop_linear_term t)) = ls_coeff t" for t :: "'a ls_term"
    by (simp add: move_term_def libsnark_to_libiop_linear_term_def)
  then show ?thesis
    using moved_term [OF _ assms(2-4)] assms(1) by (auto simp: liop_value_def ls_value_def o_def intro!: arg_cong [of _ _ sum_list])
qed

lemma unmoved:
  fixes c :: "'a liop_constraint"
  shows "move_constraint p 0 c = c"
proof -
  have "move_term p 0 t = t" for t :: "'a liop_term" by (simp add: move_term_def)
  then have "move_term p 0 = (id :: 'a liop_term \<Rightarrow> _)" by (simp add: fun_eq_iff)
  then show ?thesis by (simp add: move_constraint_def Let_def)
qed

text \<open>The padded system, written out.\<close>

lemma padded_system:
  fixes ls :: "'f :: comm_ring_1 ls_system" and lc_const
  defines "cs \<equiv> libsnark_to_libiop_r1cs_constraint_system ls
      \<lparr>li_primary_input_size = 0, li_auxiliary_input_size = 0, li_constraints = []\<rparr>"
  defines "z \<equiv> \<lparr>li_a = lc_const 0, li_b = lc_const 0, li_c = lc_const 0\<rparr>"
  assumes "rounds_up log2" and "ls_wf ls prim aux"
  shows "\<exists>k m n. unat k < 2 ^ 62 \<and> unat m < 2 ^ 62
    \<and> pad_constraint_system_for_aurora log2 lc_const cs =
      \<lparr>li_primary_input_size = ls_primary_input_size ls + k, li_auxiliary_input_size = ls_auxiliary_input_size ls + m,
       li_constraints = map (move_constraint (ls_primary_input_size ls) k) (map to_liop (ls_constraints ls)) @ replicate n z\<rparr>
    \<and> unat (ls_primary_input_size ls) + 1 + unat k = 2 ^ log2 (unat (ls_primary_input_size ls) + 1)
    \<and> (\<exists>j. unat (ls_primary_input_size ls) + unat (ls_auxiliary_input_size ls) + unat k + unat m + 1 = 2 ^ j)
    \<and> (\<exists>j. length (ls_constraints ls) + n = 2 ^ j)"
proof -
  let ?P = "ls_primary_input_size ls" and ?A = "ls_auxiliary_input_size ls" and ?C = "ls_constraints ls"
  from assms(4) have b: "unat ?P + unat ?A < 2 ^ 60" "0 < length ?C" "length ?C < 2 ^ 60"
    by (auto simp: ls_wf_def)
  have P: "unat (?P + 1) = unat ?P + 1" using b(1) by (simp add: unat_word_ariths)
  define k where "k = power_of_two log2 (?P + 1) - (?P + 1)"
  from power_of_two_unat [OF assms(3), of "?P + 1"] P b(1)
  have k: "unat ?P + 1 + unat k = 2 ^ log2 (unat ?P + 1)" "unat k \<le> unat ?P" by (auto simp: k_def)
  have C: "unat (word_of_nat (length ?C) :: u64) = length ?C" using b(3) by (simp add: unat_of_nat)
  define n where "n = unat (power_of_two log2 (word_of_nat (length ?C)) - word_of_nat (length ?C))"
  from power_of_two_unat [OF assms(3), of "word_of_nat (length ?C)"] C b(2,3)
  have n: "length ?C + n = 2 ^ log2 (length ?C)" by (auto simp: n_def)
  let ?v = "?P + k + ?A + 1"
  have v: "unat ?v = unat ?P + unat k + unat ?A + 1"
    using b(1) k(2) by (simp add: unat_word_ariths)
  define m where "m = power_of_two log2 ?v - ?v"
  from power_of_two_unat [OF assms(3), of ?v] v b(1) k(2)
  have m: "unat ?v + unat m = 2 ^ log2 (unat ?v)" "unat m < 2 ^ 62" by (auto simp: m_def)
  let ?M = "map (move_constraint ?P k) (map to_liop ?C)"
  have cs: "cs = \<lparr>li_primary_input_size = ?P, li_auxiliary_input_size = ?A, li_constraints = map to_liop ?C\<rparr>"
    by (simp add: cs_def converted_system)
  let ?cs1 = "\<lparr>li_primary_input_size = ?P + k, li_auxiliary_input_size = ?A, li_constraints = ?M\<rparr>"
  have cs1: "(if 0 < k then cs\<lparr>li_primary_input_size := li_primary_input_size cs + k,
        li_constraints := map (move_constraint ?P k) (li_constraints cs)\<rparr> else cs) = ?cs1"
  proof (cases "0 < k")
    case False
    then have "k = 0" by (simp add: word_gt_0)
    then show ?thesis by (simp add: cs unmoved)
  qed (simp add: cs)
  have P_cs: "num_inputs cs = ?P" by (simp add: num_inputs_def cs)
  have len: "num_constraints ?cs1 = word_of_nat (length ?C)" by (simp add: num_constraints_def)
  have padded: "pad_constraints_to_next_power_of_two log2 lc_const ?cs1 = ?cs1\<lparr>li_constraints := ?M @ replicate n z\<rparr>"
    unfolding pad_constraints_to_next_power_of_two_def Let_def len n_def [symmetric] z_def [symmetric] add_copies by simp
  have vars: "num_variables (?cs1\<lparr>li_constraints := ?M @ replicate n z\<rparr>) + 1 = ?v"
    by (simp add: num_variables_def)
  have "pad_constraint_system_for_aurora log2 lc_const cs = \<lparr>li_primary_input_size = ?P + k, li_auxiliary_input_size = ?A + m,
       li_constraints = ?M @ replicate n z\<rparr>"
    unfolding pad_constraint_system_for_aurora_def Let_def P_cs k_def [symmetric] cs1 padded vars m_def [symmetric] by simp
  moreover have "unat k < 2 ^ 62" using k(2) b(1) by simp
  moreover have "\<exists>j. unat ?P + unat ?A + unat k + unat m + 1 = 2 ^ j" using m(1) v by (intro exI [of _ "log2 (unat ?v)"]) simp
  ultimately show ?thesis using k(1) m(2) n by blast
qed

lemma zero_constraint_holds:
  "constant_lc lc_const \<Longrightarrow> liop_value prim aux (lc_const 0) = 0"
  by (simp add: constant_lc_def)

lemma padded_solutions:
  fixes ls :: "'f :: comm_ring_1 ls_system" and lc_const and log2
  defines "cs \<equiv> pad_constraint_system_for_aurora log2 lc_const (libsnark_to_libiop_r1cs_constraint_system ls
      \<lparr>li_primary_input_size = 0, li_auxiliary_input_size = 0, li_constraints = []\<rparr>)"
  assumes log2: "rounds_up log2" and lc: "constant_lc lc_const" and wf: "ls_wf ls prim aux"
  shows "(liop_satisfied cs (pad_primary_input_to_match_cs cs prim) (pad_auxiliary_input_to_match_cs cs aux)
      \<longleftrightarrow> ls_satisfied ls prim aux)
    \<and> (\<exists>j. length (li_constraints cs) = 2 ^ j) \<and> (\<exists>j. unat (num_variables cs) + 1 = 2 ^ j)
    \<and> (\<exists>j. unat (num_inputs cs) + 1 = 2 ^ j)"
proof -
  let ?P = "ls_primary_input_size ls" and ?A = "ls_auxiliary_input_size ls" and ?C = "ls_constraints ls"
  from wf have b: "length prim = unat ?P" "length aux = unat ?A" "length prim + length aux < 2 ^ 60"
    by (auto simp: ls_wf_def)
  from padded_system [OF log2 wf, of lc_const] obtain k m n where k: "unat k < 2 ^ 62" "unat m < 2 ^ 62"
    and cs: "cs = \<lparr>li_primary_input_size = ?P + k, li_auxiliary_input_size = ?A + m,
       li_constraints = map (move_constraint ?P k) (map to_liop ?C)
         @ replicate n \<lparr>li_a = lc_const 0, li_b = lc_const 0, li_c = lc_const 0\<rparr>\<rparr>"
    and sizes: "unat ?P + 1 + unat k = 2 ^ log2 (unat ?P + 1)" "\<exists>j. unat ?P + unat ?A + unat k + unat m + 1 = 2 ^ j"
      "\<exists>j. length ?C + n = 2 ^ j"
    unfolding cs_def by blast
  have "pad_primary_input_to_match_cs cs prim = prim @ replicate (unat k) 0"
      "pad_auxiliary_input_to_match_cs cs aux = aux @ replicate (unat m) 0"
    using b by (simp_all add: pad_primary_input_to_match_cs_def pad_auxiliary_input_to_match_cs_def num_inputs_def cs)
  moreover have "liop_value (prim @ replicate (unat k) 0) (aux @ replicate (unat m) 0)
      (map (move_term ?P k) (map libsnark_to_libiop_linear_term lc)) = ls_value prim aux lc"
    if "c \<in> set ?C" "lc = ls_a c \<or> lc = ls_b c \<or> lc = ls_c c" for c lc
    using that wf by (intro moved_value b k(1)) (auto simp: ls_wf_def)
  then have "liop_value (prim @ replicate (unat k) 0) (aux @ replicate (unat m) 0) (li_a (move_constraint ?P k (to_liop c))) = ls_value prim aux (ls_a c)"
      "liop_value (prim @ replicate (unat k) 0) (aux @ replicate (unat m) 0) (li_b (move_constraint ?P k (to_liop c))) = ls_value prim aux (ls_b c)"
      "liop_value (prim @ replicate (unat k) 0) (aux @ replicate (unat m) 0) (li_c (move_constraint ?P k (to_liop c))) = ls_value prim aux (ls_c c)"
    if "c \<in> set ?C" for c
    using that by (simp_all add: move_constraint_def to_liop_def Let_def)
  ultimately have "liop_satisfied cs (pad_primary_input_to_match_cs cs prim) (pad_auxiliary_input_to_match_cs cs aux)
      \<longleftrightarrow> ls_satisfied ls prim aux"
    by (simp add: liop_satisfied_def ls_satisfied_def cs list_all_iff ball_Un image_image
        set_replicate_conv_if zero_constraint_holds [OF lc])
  moreover have "unat (?P + k) = unat ?P + unat k"
    using b(3) k by (simp add: b unat_word_ariths)
  moreover have "unat (?P + k + (?A + m)) = unat ?P + unat ?A + unat k + unat m"
    using b(3) k by (simp add: b unat_word_ariths)
  ultimately show ?thesis
    using sizes by (simp add: cs num_variables_def num_inputs_def)
qed

text \<open>C30. The padded system has the solutions of the original one: for inputs of the right sizes, the converted
  and padded system holds of the padded inputs exactly when the original system holds of the
  original inputs; and the number of constraints, the number of variables plus one and the number of
  inputs plus one are powers of two.\<close>

theorem padding_preserves_solutions:
  fixes ls :: "'f :: comm_ring_1 ls_system" and lc_const and log2
  defines "cs \<equiv> pad_constraint_system_for_aurora log2 lc_const (libsnark_to_libiop_r1cs_constraint_system ls
      \<lparr>li_primary_input_size = 0, li_auxiliary_input_size = 0, li_constraints = []\<rparr>)"
  assumes log2: "rounds_up log2" and lc: "constant_lc lc_const" and wf: "ls_wf ls prim aux"
  shows "(liop_satisfied cs (pad_primary_input_to_match_cs cs prim) (pad_auxiliary_input_to_match_cs cs aux)
      \<longleftrightarrow> ls_satisfied ls prim aux)
    \<and> (\<exists>j. length (li_constraints cs) = 2 ^ j) \<and> (\<exists>j. unat (num_variables cs) + 1 = 2 ^ j)
    \<and> (\<exists>j. unat (num_inputs cs) + 1 = 2 ^ j)"
  unfolding cs_def using log2 lc wf by (rule padded_solutions)

text \<open>A square: the second variable is the square of the first.\<close>

definition square_system :: "int ls_system" where
  "square_system = \<lparr>ls_primary_input_size = 1, ls_auxiliary_input_size = 1, ls_constraints =
     [\<lparr>ls_a = [\<lparr>ls_index = 1, ls_coeff = 1\<rparr>], ls_b = [\<lparr>ls_index = 1, ls_coeff = 1\<rparr>], ls_c = [\<lparr>ls_index = 2, ls_coeff = 1\<rparr>]\<rparr>]\<rparr>"

definition constant_term :: "int \<Rightarrow> int liop_term list" where
  "constant_term k = [\<lparr>li_index = 0, li_coeff = k\<rparr>]"

lemma constant_term_constant: "constant_lc constant_term"
  by (simp add: constant_lc_def constant_term_def liop_value_def variable_def)

lemma ceillog2_rounds_up: "rounds_up ceillog2"
  unfolding rounds_up_def
proof (intro allI impI conjI)
  fix n :: nat
  assume n: "0 < n"
  then show "n \<le> 2 ^ ceillog2 n" using ceillog2_le_iff [of n "ceillog2 n"] by simp
  show "2 ^ ceillog2 n < 2 * n"
  proof (cases "ceillog2 n")
    case (Suc k)
    with n ceillog2_le_iff [of n k] show ?thesis by simp
  qed (use n in simp)
qed

theorem padding_preserves_solutions_witness:
  "liop_satisfied
     (pad_constraint_system_for_aurora ceillog2 constant_term (libsnark_to_libiop_r1cs_constraint_system square_system
        \<lparr>li_primary_input_size = 0, li_auxiliary_input_size = 0, li_constraints = []\<rparr>))
     (pad_primary_input_to_match_cs
       (pad_constraint_system_for_aurora ceillog2 constant_term (libsnark_to_libiop_r1cs_constraint_system square_system
          \<lparr>li_primary_input_size = 0, li_auxiliary_input_size = 0, li_constraints = []\<rparr>)) [3])
     (pad_auxiliary_input_to_match_cs
       (pad_constraint_system_for_aurora ceillog2 constant_term (libsnark_to_libiop_r1cs_constraint_system square_system
          \<lparr>li_primary_input_size = 0, li_auxiliary_input_size = 0, li_constraints = []\<rparr>)) [9])"
proof -
  note constant_term_constant
  moreover have "ls_wf square_system [3] [9]" by (simp add: ls_wf_def square_system_def)
  moreover have "ls_satisfied square_system [3] [9]"
    by (simp add: ls_satisfied_def square_system_def ls_value_def variable_def)
  ultimately show ?thesis using padding_preserves_solutions [OF ceillog2_rounds_up] by blast
qed

end
