(* ===== verification/Shunt.thy ===== *)
theory Shunt
  imports Prelude "HOL-Library.Multiset"
begin

text \<open>
  \<^verbatim>\<open>ASTree::shunt\<close> in \<^verbatim>\<open>src/src/computer/ast.cpp\<close>: an arithmetic expression in infix
  notation becomes a queue of op_tokens in postfix notation.

  The operators on the stack are strings of one character, kept as characters with the top first.
  Theorems: every printed expression is translated to its postfix form, no character of a number or
  an operator is lost or added, and what the syntax checks let through or refuse.
\<close>

subsection \<open>The algorithm\<close>

record shunt_state =
  output_q :: "string list"
  operator_stack :: "char list"
  found_num :: bool
  found_operation_operator :: bool

definition precedence :: "char \<Rightarrow> nat" where
  "precedence c = (if c = CHR ''+'' \<or> c = CHR ''-'' then 2 else if c = CHR ''*'' then 3 else 0)"

definition is_digit :: "char \<Rightarrow> bool" where
  "is_digit c \<longleftrightarrow> c \<in> set ''0123456789''"

definition is_operator :: "char \<Rightarrow> bool" where
  "is_operator c \<longleftrightarrow> c \<in> set ''+-*''"

text \<open>Moving operators to the output while they pass a test; returns output and stack.\<close>

fun pop_while :: "(char \<Rightarrow> bool) \<Rightarrow> string list \<Rightarrow> char list \<Rightarrow> string list \<times> char list" where
  "pop_while p out [] = (out, [])"
| "pop_while p out (c # cs) = (if p c then pop_while p (out @ [[c]]) cs else (out, c # cs))"

text \<open>One character; \<open>i\<close> is its index and \<open>n\<close> the length of the expression.\<close>

definition shunt_step :: "nat \<Rightarrow> nat \<Rightarrow> char \<Rightarrow> shunt_state \<Rightarrow> shunt_state result" where
  "shunt_step n i token st =
     (if is_digit token then
        Inr (let st' = st\<lparr>found_operation_operator := False\<rparr>
             in if found_num st then st'\<lparr>output_q := butlast (output_q st) @ [last (output_q st) @ [token]]\<rparr>
                else st'\<lparr>output_q := output_q st @ [[token]], found_num := True\<rparr>)
      else let st = st\<lparr>found_num := False\<rparr> in
      if token = CHR '' '' then Inr st
      else if token = CHR ''('' then
        Inr (st\<lparr>operator_stack := token # operator_stack st, found_operation_operator := True\<rparr>)
      else if token = CHR '')'' then
        (case pop_while (\<lambda>c. c \<noteq> CHR ''('') (output_q st) (operator_stack st) of
           (out, []) \<Rightarrow> Inl (Invalid_argument (''Invalid expression syntax: mismatched '' @ [CHR 0x27, CHR '')'', CHR 0x27]))
         | (out, _ # ops) \<Rightarrow> Inr (st\<lparr>output_q := out, operator_stack := ops, found_operation_operator := False\<rparr>))
      else if is_operator token then
        (if found_operation_operator st
         then Inl (Invalid_argument ''Invalid expression syntax: cannot have consecutive operations'')
         else if i = 0 \<or> i = n - 1
         then Inl (Invalid_argument ''Invalid expression syntax: cannot start or end with operator.'')
         else case pop_while (\<lambda>c. c \<noteq> CHR ''('' \<and> precedence token \<le> precedence c) (output_q st) (operator_stack st) of
                (out, ops) \<Rightarrow> Inr (st\<lparr>output_q := out, operator_stack := token # ops, found_operation_operator := True\<rparr>))
      else Inl (Invalid_argument ''Invalid expression syntax.''))"

fun shunt_loop :: "nat \<Rightarrow> nat \<Rightarrow> string \<Rightarrow> shunt_state \<Rightarrow> shunt_state result" where
  "shunt_loop n i [] st = Inr st"
| "shunt_loop n i (c # cs) st =
     (case shunt_step n i c st of Inl e \<Rightarrow> Inl e | Inr st' \<Rightarrow> shunt_loop n (i + 1) cs st')"

definition shunt_start :: shunt_state where
  "shunt_start = \<lparr>output_q = [], operator_stack = [], found_num = False, found_operation_operator = False\<rparr>"

text \<open>The operators that are left are moved to the output; a parenthesis among them is an error.\<close>

fun flush :: "string list \<Rightarrow> char list \<Rightarrow> string list result" where
  "flush out [] = Inr out"
| "flush out (c # cs) =
     (if c = CHR ''('' then Inl (Invalid_argument (''Invalid expression syntax: mismatched '' @ [CHR 0x27, CHR ''('', CHR 0x27]))
      else flush (out @ [[c]]) cs)"

definition shunt :: "string \<Rightarrow> string list result" where
  "shunt expression =
     (case shunt_loop (length expression) 0 expression shunt_start of Inl e \<Rightarrow> Inl e
      | Inr st \<Rightarrow>
          if operator_stack st = [] then Inl (Invalid_argument ''Invalid expression syntax: no operators found'')
          else flush (output_q st) (operator_stack st))"

subsection \<open>Printing and translating\<close>

text \<open>Expressions as trees, their postfix form, and their infix form with the parentheses they need.\<close>

datatype expr = Num string | Bin char expr expr

fun postfix :: "expr \<Rightarrow> string list" where
  "postfix (Num ds) = [ds]"
| "postfix (Bin c l r) = postfix l @ postfix r @ [[c]]"

fun written :: "nat \<Rightarrow> expr \<Rightarrow> string" where
  "written p (Num ds) = ds"
| "written p (Bin c l r) =
     (let body = written (precedence c) l @ c # written (precedence c + 1) r
      in if precedence c < p then CHR ''('' # body @ [CHR '')''] else body)"

fun wf_expr :: "expr \<Rightarrow> bool" where
  "wf_expr (Num ds) \<longleftrightarrow> ds \<noteq> [] \<and> list_all is_digit ds"
| "wf_expr (Bin c l r) \<longleftrightarrow> is_operator c \<and> wf_expr l \<and> wf_expr r"

abbreviation shunt_at :: "string list \<Rightarrow> char list \<Rightarrow> bool \<Rightarrow> bool \<Rightarrow> shunt_state" where
  "shunt_at out ops fnum fop \<equiv>
     \<lparr>output_q = out, operator_stack = ops, found_num = fnum, found_operation_operator = fop\<rparr>"

abbreviation op_tokens :: "char list \<Rightarrow> string list" where
  "op_tokens \<equiv> map (\<lambda>c. [c])"

lemma pop_while_eq: "pop_while p out ops = (out @ op_tokens (takeWhile p ops), dropWhile p ops)"
  by (induction ops arbitrary: out) auto

lemma flush_eq:
  "CHR ''('' \<notin> set ops \<Longrightarrow> flush out ops = Inr (out @ op_tokens ops)"
  by (induction ops arbitrary: out) auto

lemma shunt_loop_append:
  "shunt_loop n i (xs @ ys) st =
     (case shunt_loop n i xs st of Inl e \<Rightarrow> Inl e | Inr st' \<Rightarrow> shunt_loop n (i + length xs) ys st')"
  by (induction xs arbitrary: i st) (auto split: sum.splits)

lemma operator_kinds: "is_operator c \<Longrightarrow> \<not> is_digit c \<and> c \<noteq> CHR '' '' \<and> c \<noteq> CHR ''('' \<and> c \<noteq> CHR '')''"
  by (auto simp: is_operator_def is_digit_def)

lemma shunt_digits_more:
  "list_all is_digit ds \<Longrightarrow> shunt_loop n i ds (shunt_at (out @ [w]) ops True False) = Inr (shunt_at (out @ [w @ ds]) ops True False)"
  by (induction ds arbitrary: i w) (auto simp: shunt_step_def)

lemma shunt_digits:
  assumes "ds \<noteq> []" and "list_all is_digit ds"
  shows "shunt_loop n i ds (shunt_at out ops False fop) = Inr (shunt_at (out @ [ds]) ops True False)"
  using assms shunt_digits_more [of "tl ds" n "i + 1" out "[hd ds]" ops]
  by (cases ds) (auto simp: shunt_step_def)

lemma written_nonempty: "wf_expr e \<Longrightarrow> written p e \<noteq> []"
  by (cases e) (auto simp: Let_def)

text \<open>The stack below an expression that is printed at level \<open>p\<close>.\<close>

definition below :: "nat \<Rightarrow> char list \<Rightarrow> bool" where
  "below p ops \<longleftrightarrow> (case ops of [] \<Rightarrow> True | c # _ \<Rightarrow> c = CHR ''('' \<or> precedence c < p)"

text \<open>
  What reading the expression leaves: its postfix form, with the last operators still on the stack,
  at least one of them if \<open>op\<close>.
\<close>

definition reads :: "bool \<Rightarrow> nat \<Rightarrow> nat \<Rightarrow> nat \<Rightarrow> string \<Rightarrow> string list \<Rightarrow> bool" where
  "reads op n i p s out \<longleftrightarrow> (\<forall>out0 ops fop. below p ops \<longrightarrow>
     (\<exists>out1 pend fnum. shunt_loop n i s (shunt_at out0 ops False fop) = Inr (shunt_at out1 (pend @ ops) fnum False)
       \<and> (\<forall>c\<in>set pend. c \<noteq> CHR ''('' \<and> p \<le> precedence c) \<and> out1 @ op_tokens pend = out0 @ out
       \<and> (op \<longrightarrow> pend \<noteq> [])))"

lemma readsD:
  assumes "reads op n i p s out" and "below p ops"
  obtains out1 pend fnum where "shunt_loop n i s (shunt_at out0 ops False fop) = Inr (shunt_at out1 (pend @ ops) fnum False)"
    "\<forall>c\<in>set pend. c \<noteq> CHR ''('' \<and> p \<le> precedence c" "out1 @ op_tokens pend = out0 @ out" "op \<longrightarrow> pend \<noteq> []"
proof -
  from assms have "\<exists>out1 pend fnum. shunt_loop n i s (shunt_at out0 ops False fop) = Inr (shunt_at out1 (pend @ ops) fnum False)
      \<and> (\<forall>c\<in>set pend. c \<noteq> CHR ''('' \<and> p \<le> precedence c) \<and> out1 @ op_tokens pend = out0 @ out \<and> (op \<longrightarrow> pend \<noteq> [])"
    by (simp only: reads_def)
  then show ?thesis using that by (elim exE conjE)
qed

lemma while_split:
  assumes "\<forall>d\<in>set pend. P d" and "case ops of [] \<Rightarrow> True | d # _ \<Rightarrow> \<not> P d"
  shows "takeWhile P (pend @ ops) = pend \<and> dropWhile P (pend @ ops) = ops"
  using assms by (induction pend) (auto split: list.splits)

lemma step_open: "shunt_step n i CHR ''('' (shunt_at out ops fnum fop) = Inr (shunt_at out (CHR ''('' # ops) False True)"
  by (simp add: shunt_step_def is_digit_def)

lemma step_close:
  assumes "\<forall>d\<in>set pend. d \<noteq> CHR ''(''"
  shows "shunt_step n i CHR '')'' (shunt_at out (pend @ CHR ''('' # ops) fnum fop) = Inr (shunt_at (out @ op_tokens pend) ops False False)"
proof -
  have "takeWhile (\<lambda>c. c \<noteq> CHR ''('') (pend @ CHR ''('' # ops) = pend
      \<and> dropWhile (\<lambda>c. c \<noteq> CHR ''('') (pend @ CHR ''('' # ops) = CHR ''('' # ops"
    using assms by (intro while_split) simp_all
  then show ?thesis by (simp add: shunt_step_def is_digit_def pop_while_eq)
qed

lemma step_operator:
  assumes "is_operator c" and "\<forall>d\<in>set pend. d \<noteq> CHR ''('' \<and> precedence c \<le> precedence d" and "below (precedence c) ops"
    and "0 < i" "i < n - 1"
  shows "shunt_step n i c (shunt_at out (pend @ ops) fnum False) = Inr (shunt_at (out @ op_tokens pend) (c # ops) False True)"
proof -
  let ?p = "\<lambda>d. d \<noteq> CHR ''('' \<and> precedence c \<le> precedence d"
  have "case ops of [] \<Rightarrow> True | d # _ \<Rightarrow> \<not> ?p d"
    using assms(3) by (cases ops) (auto simp: below_def)
  with assms(2) have "takeWhile ?p (pend @ ops) = pend \<and> dropWhile ?p (pend @ ops) = ops" by (rule while_split)
  then show ?thesis
    using operator_kinds [OF assms(1)] assms(1,4,5) by (simp add: shunt_step_def pop_while_eq)
qed

lemma reads_operation:
  assumes c: "is_operator c" and l: "reads a n i (precedence c) s out"
    and r: "reads b n (i + length s + 1) (precedence c + 1) s' out'"
    and i: "s \<noteq> []" "i + length s + 1 < n"
  shows "reads True n i (precedence c) (s @ c # s') (out @ out' @ [[c]])"
  unfolding reads_def
proof (intro allI impI)
  fix out0 ops fop
  assume b: "below (precedence c) ops"
  obtain out1 pend fnum where 1: "shunt_loop n i s (shunt_at out0 ops False fop) = Inr (shunt_at out1 (pend @ ops) fnum False)"
      "\<forall>d\<in>set pend. d \<noteq> CHR ''('' \<and> precedence c \<le> precedence d" "out1 @ op_tokens pend = out0 @ out"
    by (rule readsD [OF l b])
  have 2: "shunt_step n (i + length s) c (shunt_at out1 (pend @ ops) fnum False) = Inr (shunt_at (out0 @ out) (c # ops) False True)"
    using step_operator [OF c 1(2) b, of "i + length s" n out1 fnum] i 1(3) by simp
  have "below (precedence c + 1) (c # ops)" by (simp add: below_def)
  with r obtain out2 pend2 fnum2 where 3:
      "shunt_loop n (i + length s + 1) s' (shunt_at (out0 @ out) (c # ops) False True) = Inr (shunt_at out2 (pend2 @ c # ops) fnum2 False)"
      "\<forall>d\<in>set pend2. d \<noteq> CHR ''('' \<and> precedence c + 1 \<le> precedence d" "out2 @ op_tokens pend2 = (out0 @ out) @ out'"
    by (rule readsD)
  have "shunt_loop n i (s @ c # s') (shunt_at out0 ops False fop) = Inr (shunt_at out2 ((pend2 @ [c]) @ ops) fnum2 False)"
    using 1(1) 2 3(1) by (simp add: shunt_loop_append)
  moreover have "\<forall>d\<in>set (pend2 @ [c]). d \<noteq> CHR ''('' \<and> precedence c \<le> precedence d"
    using 3(2) conjunct1 [OF conjunct2 [OF conjunct2 [OF operator_kinds [OF c]]]] by (simp add: Suc_le_eq less_imp_le)
  moreover have "out2 @ op_tokens (pend2 @ [c]) = out0 @ out @ out' @ [[c]]" using 3(3) by simp
  ultimately show "\<exists>out1 pend fnum. shunt_loop n i (s @ c # s') (shunt_at out0 ops False fop) = Inr (shunt_at out1 (pend @ ops) fnum False)
      \<and> (\<forall>c'\<in>set pend. c' \<noteq> CHR ''('' \<and> precedence c \<le> precedence c') \<and> out1 @ op_tokens pend = out0 @ out @ out' @ [[c]]
      \<and> (True \<longrightarrow> pend \<noteq> [])"
    by blast
qed

lemma reads_parenthesised:
  assumes "reads op n (i + 1) q s out"
  shows "reads False n i p (CHR ''('' # s @ [CHR '')'']) out"
  unfolding reads_def
proof (intro allI impI)
  fix out0 ops fop
  have "below q (CHR ''('' # ops)" by (simp add: below_def)
  with assms obtain out1 pend fnum where 1:
      "shunt_loop n (i + 1) s (shunt_at out0 (CHR ''('' # ops) False True) = Inr (shunt_at out1 (pend @ CHR ''('' # ops) fnum False)"
      "\<forall>d\<in>set pend. d \<noteq> CHR ''('' \<and> q \<le> precedence d" "out1 @ op_tokens pend = out0 @ out"
    by (rule readsD)
  have "shunt_step n (i + 1 + length s) CHR '')'' (shunt_at out1 (pend @ CHR ''('' # ops) fnum False)
      = Inr (shunt_at (out0 @ out) ops False False)"
    using step_close [of pend n _ out1 ops fnum False] 1(2,3) by auto
  with 1(1) step_open [of n i out0 ops False fop]
  have "shunt_loop n i (CHR ''('' # s @ [CHR '')'']) (shunt_at out0 ops False fop) = Inr (shunt_at (out0 @ out) ([] @ ops) False False)"
    by (simp add: shunt_loop_append)
  then show "\<exists>out1 pend fnum. shunt_loop n i (CHR ''('' # s @ [CHR '')'']) (shunt_at out0 ops False fop)
      = Inr (shunt_at out1 (pend @ ops) fnum False) \<and> (\<forall>c\<in>set pend. c \<noteq> CHR ''('' \<and> p \<le> precedence c)
      \<and> out1 @ op_tokens pend = out0 @ out \<and> (False \<longrightarrow> pend \<noteq> [])"
    by (intro exI [of _ "out0 @ out"] exI [of _ "[]"] exI [of _ False]) simp
qed

lemma reads_weaken:
  assumes "reads op n i q s out" and "p \<le> q"
  shows "reads op n i p s out"
  unfolding reads_def
proof (intro allI impI)
  fix out0 ops fop
  assume "below p ops"
  with assms(2) have "below q ops" by (auto simp: below_def split: list.splits)
  with assms(1) obtain out1 pend fnum where "shunt_loop n i s (shunt_at out0 ops False fop) = Inr (shunt_at out1 (pend @ ops) fnum False)"
      "\<forall>c\<in>set pend. c \<noteq> CHR ''('' \<and> q \<le> precedence c" "out1 @ op_tokens pend = out0 @ out" "op \<longrightarrow> pend \<noteq> []"
    by (rule readsD)
  moreover from this(2) assms(2) have "\<forall>c\<in>set pend. c \<noteq> CHR ''('' \<and> p \<le> precedence c" by (meson order.trans)
  ultimately show "\<exists>out1 pend fnum. shunt_loop n i s (shunt_at out0 ops False fop) = Inr (shunt_at out1 (pend @ ops) fnum False)
      \<and> (\<forall>c\<in>set pend. c \<noteq> CHR ''('' \<and> p \<le> precedence c) \<and> out1 @ op_tokens pend = out0 @ out \<and> (op \<longrightarrow> pend \<noteq> [])"
    by blast
qed

definition open_operation :: "nat \<Rightarrow> expr \<Rightarrow> bool" where
  "open_operation p e \<longleftrightarrow> (case e of Num _ \<Rightarrow> False | Bin c _ _ \<Rightarrow> p \<le> precedence c)"

lemma reads_written:
  "wf_expr e \<Longrightarrow> i + length (written p e) \<le> n \<Longrightarrow> reads (open_operation p e) n i p (written p e) (postfix e)"
proof (induction e arbitrary: i p)
  case (Num ds)
  then show ?case
    unfolding reads_def using shunt_digits [of ds n i]
    by (auto simp: open_operation_def intro!: exI [of _ "_ @ [ds]"] exI [of _ "[]"] exI [of _ True])
next
  case (Bin c l r)
  let ?q = "precedence c"
  have body: "reads True n j ?q (written ?q l @ c # written (?q + 1) r) (postfix (Bin c l r))"
    if "j + length (written ?q l @ c # written (?q + 1) r) \<le> n" for j
  proof -
    from Bin.prems(1) have wf: "is_operator c" "wf_expr l" "wf_expr r" by simp_all
    have "reads (open_operation ?q l) n j ?q (written ?q l) (postfix l)"
      using Bin.IH(1) [OF wf(2), of j ?q] that by simp
    moreover have "reads (open_operation (?q + 1) r) n (j + length (written ?q l) + 1) (?q + 1) (written (?q + 1) r) (postfix r)"
      using Bin.IH(2) [OF wf(3), of "j + length (written ?q l) + 1" "?q + 1"] that by simp
    moreover have "j + length (written ?q l) + 1 < n"
      using written_nonempty [OF wf(3), of "?q + 1"] that by (cases "written (?q + 1) r") auto
    ultimately show ?thesis
      using reads_operation [OF wf(1)] written_nonempty [OF wf(2)] by simp
  qed
  show ?case
  proof (cases "?q < p")
    case True
    with Bin.prems(2) reads_parenthesised [OF body, of i p] show ?thesis
      by (simp add: Let_def open_operation_def)
  next
    case False
    with Bin.prems(2) body [of i] have "reads True n i ?q (written p (Bin c l r)) (postfix (Bin c l r))"
      by (simp add: Let_def)
    with False reads_weaken [of True n i ?q _ _ p] show ?thesis by (simp add: open_operation_def)
  qed
qed

lemma shunt_translates:
  assumes "wf_expr (Bin c l r)"
  shows "shunt (written 0 (Bin c l r)) = Inr (postfix (Bin c l r))"
proof -
  let ?s = "written 0 (Bin c l r)"
  have "reads True (length ?s) 0 0 ?s (postfix (Bin c l r))"
    using reads_written [OF assms, of 0 0] by (simp add: open_operation_def)
  moreover have "below 0 []" by (simp add: below_def)
  ultimately obtain out1 pend fnum where
      "shunt_loop (length ?s) 0 ?s (shunt_at [] [] False False) = Inr (shunt_at out1 (pend @ []) fnum False)"
      "\<forall>c\<in>set pend. c \<noteq> CHR ''('' \<and> 0 \<le> precedence c" "out1 @ op_tokens pend = [] @ postfix (Bin c l r)" "True \<longrightarrow> pend \<noteq> []"
    by (rule readsD)
  moreover from this(2) have "CHR ''('' \<notin> set pend" by blast
  ultimately show ?thesis by (simp add: shunt_def shunt_start_def flush_eq)
qed

text \<open>C31. The translation is correct on every printed expression: an expression with at least one
  operation, written with the parentheses that precedence and left associativity ask for, is
  translated to its postfix form.\<close>

theorem shunt_written:
  assumes "wf_expr (Bin c l r)"
  shows "shunt (written 0 (Bin c l r)) = Inr (postfix (Bin c l r))"
  using shunt_translates [OF assms] .

theorem shunt_written_witness:
  "shunt ''2-(3-4)*50'' = Inr [''2'', ''3'', ''4'', ''-'', ''50'', ''*'', ''-'']"
  using shunt_written [of "CHR ''-''" "Num ''2''" "Bin (CHR ''*'') (Bin (CHR ''-'') (Num ''3'') (Num ''4'')) (Num ''50'')"]
  by (simp add: is_operator_def is_digit_def precedence_def)

subsection \<open>Nothing is lost\<close>

definition kept :: "shunt_state \<Rightarrow> char multiset" where
  "kept st = mset (concat (output_q st)) + mset (filter (\<lambda>c. c \<noteq> CHR ''('') (operator_stack st))"

definition counted :: "char \<Rightarrow> bool" where
  "counted c \<longleftrightarrow> is_digit c \<or> is_operator c"

lemma concat_tokens: "concat (op_tokens cs) = cs"
  by (induction cs) auto

lemma mset_split: "mset (filter P (takeWhile Q cs)) + mset (filter P (dropWhile Q cs)) = mset (filter P cs)"
  by (metis filter_append mset_append takeWhile_dropWhile_id)

lemma filter_takeWhile: "(\<And>c. Q c \<Longrightarrow> P c) \<Longrightarrow> filter P (takeWhile Q cs) = takeWhile Q cs"
  by (induction cs) auto

lemma pops_keep:
  assumes "\<And>c. p c \<Longrightarrow> c \<noteq> CHR ''(''"
  shows "mset (concat (out @ op_tokens (takeWhile p ops))) + mset (filter (\<lambda>c. c \<noteq> CHR ''('') (dropWhile p ops))
    = mset (concat out) + mset (filter (\<lambda>c. c \<noteq> CHR ''('') ops)"
  using mset_split [of "\<lambda>c. c \<noteq> CHR ''(''" p ops] filter_takeWhile [of p "\<lambda>c. c \<noteq> CHR ''(''" ops] assms
  by (simp add: concat_tokens)

definition num_ok :: "shunt_state \<Rightarrow> bool" where
  "num_ok st \<longleftrightarrow> (found_num st \<longrightarrow> output_q st \<noteq> [])"

lemma close_keeps:
  assumes "shunt_step n i (CHR '')'') st = Inr st'"
  shows "kept st' = kept st \<and> num_ok st'"
proof -
  let ?p = "\<lambda>c. c \<noteq> CHR ''(''"
  from assms obtain d ops where d: "dropWhile ?p (operator_stack st) = d # ops"
      "st' = st\<lparr>found_num := False, output_q := output_q st @ op_tokens (takeWhile ?p (operator_stack st)), operator_stack := ops,
        found_operation_operator := False\<rparr>"
    by (auto simp: shunt_step_def is_digit_def pop_while_eq Let_def split: list.splits)
  from hd_dropWhile [of ?p "operator_stack st"] d(1) have "d = CHR ''(''" by simp
  with d pops_keep [of ?p "output_q st" "operator_stack st"] show ?thesis by (simp add: kept_def num_ok_def)
qed

lemma step_keeps:
  assumes "shunt_step n i c st = Inr st'" and "num_ok st"
  shows "kept st' = kept st + (if counted c then {#c#} else {#}) \<and> num_ok st'"
proof -
  consider (digit) "is_digit c" | (space) "c = CHR '' ''" | (opens) "c = CHR ''(''" | (closes) "c = CHR '')''"
    | (operates) "\<not> is_digit c" "is_operator c"
    using assms(1) by (auto simp: shunt_step_def Let_def split: if_splits)
  then show ?thesis
  proof cases
    case digit
    have "mset (concat (output_q st)) = mset (concat (butlast (output_q st))) + mset (last (output_q st))" if "found_num st"
      using that assms(2) by (metis append_butlast_last_id concat.simps concat_append mset_append num_ok_def append_Nil2)
    with digit assms show ?thesis by (auto simp: shunt_step_def kept_def num_ok_def counted_def Let_def split: if_splits)
  next
    case closes
    with close_keeps [of n i st st'] assms(1) show ?thesis by (simp add: counted_def is_digit_def is_operator_def)
  next
    case operates
    let ?p = "\<lambda>d. d \<noteq> CHR ''('' \<and> precedence c \<le> precedence d"
    from operates assms(1) operator_kinds [of c] have
      "st' = st\<lparr>found_num := False, output_q := output_q st @ op_tokens (takeWhile ?p (operator_stack st)),
        operator_stack := c # dropWhile ?p (operator_stack st), found_operation_operator := True\<rparr>"
      by (auto simp add: shunt_step_def pop_while_eq Let_def split: if_splits)
    with pops_keep [of ?p "output_q st" "operator_stack st"] operates operator_kinds [of c] show ?thesis
      by (simp add: kept_def num_ok_def counted_def)
  qed (use assms in \<open>auto simp: shunt_step_def kept_def num_ok_def counted_def is_digit_def is_operator_def\<close>)
qed

lemma loop_keeps:
  "shunt_loop n i cs st = Inr st' \<Longrightarrow> num_ok st \<Longrightarrow> kept st' = kept st + mset (filter counted cs)"
proof (induction cs arbitrary: i st)
  case (Cons c cs)
  then obtain st1 where s: "shunt_step n i c st = Inr st1" "shunt_loop n (i + 1) cs st1 = Inr st'"
    by (auto split: sum.splits)
  with step_keeps [OF s(1) Cons.prems(2)] Cons.IH [OF s(2)] show ?case by auto
qed simp

lemma flush_keeps: "flush out ops = Inr out' \<Longrightarrow> mset (concat out') = mset (concat out) + mset ops \<and> CHR ''('' \<notin> set ops"
  by (induction ops arbitrary: out) (auto split: if_splits)

text \<open>Whatever expression is accepted, valid or not, its postfix queue consists of exactly the digits and
  operators of the expression: no character is dropped, doubled or invented, and no parenthesis is left.\<close>

theorem shunt_keeps_characters:
  assumes "shunt expression = Inr out"
  shows "mset (concat out) = mset (filter (\<lambda>c. is_digit c \<or> is_operator c) expression)"
proof -
  from assms obtain st where st: "shunt_loop (length expression) 0 expression shunt_start = Inr st"
      "flush (output_q st) (operator_stack st) = Inr out"
    by (auto simp: shunt_def split: sum.splits if_splits)
  have f: "filter (\<lambda>c. c \<noteq> CHR ''('') (operator_stack st) = operator_stack st"
    using flush_keeps [OF st(2)] by (auto simp: filter_id_conv)
  have "kept st = mset (filter counted expression)"
    using loop_keeps [OF st(1)] by (simp add: num_ok_def shunt_start_def kept_def)
  with flush_keeps [OF st(2)] f show ?thesis by (simp add: kept_def counted_def)
qed

theorem shunt_keeps_characters_witness:
  "mset (concat [''1'', ''+'']) = mset ''1+''"
  using shunt_keeps_characters [of "''1+ ''" "[''1'', ''+'']"]
  by (simp add: shunt_def shunt_start_def shunt_step_def is_digit_def is_operator_def precedence_def)

subsection \<open>What the syntax checks do\<close>

text \<open>The syntax checks refuse a valid expression and accept an invalid one: a sum in parentheses is
  refused, with the message that it has no operators, since the closing parenthesis has emptied the operator stack;
  and an operator before a trailing space passes without its right operand.\<close>

theorem shunt_syntax_gaps:
  "shunt ''(1+2)'' = Inl (Invalid_argument ''Invalid expression syntax: no operators found'')
   \<and> shunt ''1+ '' = Inr [''1'', ''+'']"
  by (simp add: shunt_def shunt_start_def shunt_step_def is_digit_def is_operator_def precedence_def)

end
