(* ===== verification/Ast.thy ===== *)
theory Ast
  imports Shunt
begin

text \<open>
  \<^verbatim>\<open>ASTNode\<close> and \<^verbatim>\<open>ASTree\<close> in \<^verbatim>\<open>src/src/computer/ast.cpp\<close>: the tree of an
  expression, rotated while it is built so that its multiplicative depth stays small.

  The nodes live in a heap; a pointer to a node is its \<open>node_id_\<close>, which is fresh for every node,
  and a null pointer is \<open>None\<close>.  The walk to the root in \<open>reorg_from\<close> follows parent pointers,
  which rotations do not keep up to date, so it is a partial function.
\<close>

subsection \<open>Nodes\<close>

record ast_node =
  is_leaf :: bool
  val_of :: int
  parent :: "nat option"
  left_child :: "nat option"
  right_child :: "nat option"
  op_of :: string
  node_depth :: int
  counts_for_depth :: bool

type_synonym ast_heap = "nat \<Rightarrow> ast_node"

definition op_node :: "bool \<Rightarrow> nat option \<Rightarrow> string \<Rightarrow> ast_node" where
  "op_node counts par op =
     \<lparr>is_leaf = False, val_of = 0, parent = par, left_child = None, right_child = None, op_of = op,
      node_depth = (if counts then 1 else 0), counts_for_depth = counts\<rparr>"

definition leaf_node :: "int \<Rightarrow> nat option \<Rightarrow> ast_node" where
  "leaf_node v par =
     \<lparr>is_leaf = True, val_of = v, parent = par, left_child = None, right_child = None, op_of = [],
      node_depth = 0, counts_for_depth = False\<rparr>"

definition is_full :: "ast_node \<Rightarrow> bool" where
  "is_full n \<longleftrightarrow> right_child n \<noteq> None \<and> left_child n \<noteq> None"

definition notify_child_change :: "nat \<Rightarrow> nat \<Rightarrow> ast_node \<Rightarrow> ast_node" where
  "notify_child_change new_child old_child_id n =
     (if right_child n = Some old_child_id then n\<lparr>right_child := Some new_child\<rparr>
      else if left_child n = Some old_child_id then n\<lparr>left_child := Some new_child\<rparr>
      else n)"

definition insert_child :: "nat \<Rightarrow> ast_node \<Rightarrow> bool \<times> ast_node" where
  "insert_child child n =
     (if right_child n = None then (False, n\<lparr>right_child := Some child\<rparr>)
      else (True, n\<lparr>left_child := Some child\<rparr>))"

definition can_rotate_left :: "ast_heap \<Rightarrow> nat \<Rightarrow> bool" where
  "can_rotate_left h n = (case right_child (h n) of None \<Rightarrow> False | Some r \<Rightarrow> op_of (h r) = ''*'' \<and> op_of (h n) = ''*'')"

definition can_rotate_right :: "ast_heap \<Rightarrow> nat \<Rightarrow> bool" where
  "can_rotate_right h n = (case left_child (h n) of None \<Rightarrow> False | Some l \<Rightarrow> op_of (h l) = ''*'' \<and> op_of (h n) = ''*'')"

subsection \<open>Depths and rotations\<close>

definition get_depth :: "ast_heap \<Rightarrow> nat option \<Rightarrow> int" where
  "get_depth h p = (case p of None \<Rightarrow> 0 | Some n \<Rightarrow> node_depth (h n))"

definition get_balance :: "ast_heap \<Rightarrow> nat option \<Rightarrow> int" where
  "get_balance h p = (case p of None \<Rightarrow> 0
     | Some n \<Rightarrow> get_depth h (left_child (h n)) - get_depth h (right_child (h n)))"

definition update_depth :: "nat \<Rightarrow> ast_heap \<Rightarrow> ast_heap" where
  "update_depth n h = h(n := (h n)\<lparr>node_depth :=
     1 + max (get_depth h (left_child (h n))) (get_depth h (right_child (h n)))\<rparr>)"

text \<open>
  The pointers of the parents are assigned, then the parent of \<open>node\<close> is told, then the depths are
  computed; returns the new root of the subtree.
\<close>

definition relink :: "nat \<Rightarrow> nat \<Rightarrow> ast_heap \<Rightarrow> ast_heap" where
  "relink node x h =
     (let h1 = h(x := (h x)\<lparr>parent := parent (h node)\<rparr>);
          h2 = (case parent (h1 node) of None \<Rightarrow> h1 | Some p \<Rightarrow> h1(p := notify_child_change x node (h1 p)));
          h3 = h2(node := (h2 node)\<lparr>parent := Some x\<rparr>)
      in update_depth x (update_depth node h3))"

definition right_rotate :: "nat \<Rightarrow> ast_heap \<Rightarrow> (nat \<times> ast_heap) result" where
  "right_rotate node h =
     (case left_child (h node) of None \<Rightarrow> Inl (Undefined ''null left child'')
      | Some x \<Rightarrow>
          (let x_r = right_child (h x);
               h1 = h(x := (h x)\<lparr>right_child := Some node\<rparr>);
               h2 = h1(node := (h1 node)\<lparr>left_child := x_r\<rparr>)
           in Inr (x, relink node x h2)))"

definition left_rotate :: "nat \<Rightarrow> ast_heap \<Rightarrow> (nat \<times> ast_heap) result" where
  "left_rotate node h =
     (case right_child (h node) of None \<Rightarrow> Inl (Undefined ''null right child'')
      | Some x \<Rightarrow>
          (let x_l = left_child (h x);
               h1 = h(x := (h x)\<lparr>left_child := Some node\<rparr>);
               h2 = h1(node := (h1 node)\<lparr>right_child := x_l\<rparr>)
           in Inr (x, relink node x h2)))"

subsection \<open>Building the tree\<close>

record ast =
  node_counter :: nat
  ast_root :: "nat option"
  ast_nodes :: ast_heap
  node_stack :: "nat list"

text \<open>One level of \<open>reorg_from\<close>: returns the root of the subtree.\<close>

definition balance_node :: "nat \<Rightarrow> ast \<Rightarrow> (nat \<times> ast) result" where
  "balance_node node t =
     (let h0 = ast_nodes t; n = h0 node in
      if \<not> counts_for_depth n
      then Inr (node, t\<lparr>ast_nodes := h0(node := n\<lparr>node_depth :=
             max (get_depth h0 (left_child n)) (get_depth h0 (right_child n))\<rparr>)\<rparr>)
      else let h = update_depth node h0; balance = get_balance h (Some node);
               l = left_child (h node); r = right_child (h node) in
        if can_rotate_right h node \<and> balance > 1 \<and> get_balance h l > 0
        then map_sum id (\<lambda>(c, h'). (c, t\<lparr>ast_nodes := h'\<rparr>)) (right_rotate node h)
        else if can_rotate_left h node \<and> balance < -1 \<and> get_balance h r < 0
        then map_sum id (\<lambda>(c, h'). (c, t\<lparr>ast_nodes := h'\<rparr>)) (left_rotate node h)
        else if can_rotate_right h node \<and> balance > 1 \<and> get_balance h l < 0 \<and> can_rotate_left h (the l)
        then (case left_rotate (the l) h of Inl e \<Rightarrow> Inl e
              | Inr (c, h1) \<Rightarrow>
                  map_sum id (\<lambda>(c', h'). (c', t\<lparr>ast_nodes := h', node_stack := node # node_stack t\<rparr>))
                    (right_rotate node (h1(node := (h1 node)\<lparr>left_child := Some c\<rparr>))))
        else if can_rotate_left h node \<and> balance < -1 \<and> get_balance h r > 0 \<and> can_rotate_right h (the r)
        then (case right_rotate (the r) h of Inl e \<Rightarrow> Inl e
              | Inr (c, h1) \<Rightarrow>
                  map_sum id (\<lambda>(c', h'). (c', t\<lparr>ast_nodes := h', node_stack := the r # node_stack t\<rparr>))
                    (left_rotate node (h1(node := (h1 node)\<lparr>right_child := Some c\<rparr>))))
        else Inr (node, t\<lparr>ast_nodes := h\<rparr>))"

partial_function (option) reorg_from :: "nat \<Rightarrow> ast \<Rightarrow> (nat \<times> ast) result option" where
  "reorg_from node t =
     (case balance_node node t of
        Inl e \<Rightarrow> Some (Inl e)
      | Inr (cur, t') \<Rightarrow>
          (case parent (ast_nodes t' cur) of
             None \<Rightarrow> Some (Inr (cur, t'))
           | Some p \<Rightarrow> reorg_from p t'))"

declare reorg_from.simps [code]

text \<open>\<open>std::stoi\<close>: optional white space and sign, at least one digit, the rest is ignored.\<close>

definition digits_value :: "string \<Rightarrow> int" where
  "digits_value ds = fold (\<lambda>c v. 10 * v + (int (of_char c) - 48)) ds 0"

definition stoi :: "string \<Rightarrow> int result" where
  "stoi s =
     (let s1 = dropWhile (\<lambda>c. c = CHR '' '' \<or> (9 :: nat) \<le> of_char c \<and> of_char c \<le> (13 :: nat)) s;
          (neg, s2) = (case s1 of c # cs \<Rightarrow> (if c = CHR ''-'' then (True, cs) else if c = CHR ''+'' then (False, cs) else (False, s1))
                       | [] \<Rightarrow> (False, []));
          ds = takeWhile is_digit s2;
          v = (if neg then - digits_value ds else digits_value ds)
      in if ds = [] then Inl (Invalid_argument ''stoi'')
         else if v < - (2 ^ 31) \<or> 2 ^ 31 \<le> v then Inl Out_of_range
         else Inr v)"

text \<open>Full nodes are popped; the stack must not run out.\<close>

fun skip_full :: "ast_heap \<Rightarrow> nat list \<Rightarrow> (nat \<times> nat list) result" where
  "skip_full h [] = Inl (Undefined ''top of an empty stack'')"
| "skip_full h (n # ns) = (if is_full (h n) then skip_full h ns else Inr (n, n # ns))"

definition new_node :: "string \<Rightarrow> ast_node result" where
  "new_node token =
     (if token = ''+'' \<or> token = ''*'' \<or> token = ''-'' then Inr (op_node (token = ''*'') None token)
      else map_sum id (\<lambda>v. leaf_node v None) (stoi token))"

text \<open>One token; the pointer to the node that receives it survives from token to token.\<close>

definition build_step :: "string \<Rightarrow> nat option \<Rightarrow> ast \<Rightarrow> (nat option \<times> ast) result option" where
  "build_step token cur0 t0 =
     (case (if node_stack t0 = [] then Inr (cur0, t0)
            else map_sum id (\<lambda>(c, st). (Some c, t0\<lparr>node_stack := st\<rparr>)) (skip_full (ast_nodes t0) (node_stack t0))) of
        Inl e \<Rightarrow> Some (Inl e)
      | Inr (cur, t) \<Rightarrow>
     (case new_node token of Inl e \<Rightarrow> Some (Inl e)
      | Inr nn \<Rightarrow>
          (let k = node_counter t;
               t1 = t\<lparr>node_counter := k + 1, ast_nodes := (ast_nodes t)(k := nn)\<rparr>;
               push = (\<lambda>t. if is_leaf nn then t else t\<lparr>node_stack := k # node_stack t\<rparr>)
           in case ast_root t1 of
                None \<Rightarrow> Some (Inr (cur, push (t1\<lparr>ast_root := Some k\<rparr>)))
              | Some _ \<Rightarrow>
                  (case cur of None \<Rightarrow> Some (Inl (Undefined ''null current node''))
                   | Some c \<Rightarrow>
                       (let h1 = (ast_nodes t1)(k := nn\<lparr>parent := Some c\<rparr>);
                            (full, cn) = insert_child k (h1 c);
                            t2 = t1\<lparr>ast_nodes := h1(c := cn)\<rparr>;
                            finish = (\<lambda>t. if \<not> full then Inr (cur, push t)
                                          else case node_stack t of [] \<Rightarrow> Inl (Undefined ''pop of an empty stack'')
                                          | _ # st \<Rightarrow> Inr (cur, push (t\<lparr>node_stack := st\<rparr>)))
                        in if counts_for_depth nn
                           then (case reorg_from c t2 of None \<Rightarrow> None
                                 | Some (Inl e) \<Rightarrow> Some (Inl e)
                                 | Some (Inr (r, t3)) \<Rightarrow> Some (finish (t3\<lparr>ast_root := Some r\<rparr>)))
                           else Some (finish t2))))))"

fun build_from :: "string list \<Rightarrow> nat option \<Rightarrow> ast \<Rightarrow> ast result option" where
  "build_from [] cur t = Some (Inr t)"
| "build_from (token # tokens) cur t =
     (case build_step token cur t of None \<Rightarrow> None
      | Some (Inl e) \<Rightarrow> Some (Inl e)
      | Some (Inr (cur', t')) \<Rightarrow> build_from tokens cur' t')"

definition empty_ast :: ast where
  "empty_ast = \<lparr>node_counter = 0, ast_root = None, ast_nodes = (\<lambda>_. leaf_node 0 None), node_stack = []\<rparr>"

definition build_tree :: "string list \<Rightarrow> ast result option" where
  "build_tree input = build_from (rev input) None empty_ast"

definition ASTree :: "string \<Rightarrow> ast result option" where
  "ASTree expression = (case shunt expression of Inl e \<Rightarrow> Some (Inl e) | Inr input \<Rightarrow> build_tree input)"

end
