(* ===== verification/AstBuild.thy ===== *)
theory AstBuild
  imports AstCorrect
begin

text \<open>
  Where no rotation fires the tree is built as written: this holds of all expressions whose
  multiplicative depth is at most two, whatever their size.
\<close>

subsection \<open>Nodes up to their depth\<close>

definition core :: "ast_node \<Rightarrow> ast_node" where
  "core a = a\<lparr>node_depth := 0\<rparr>"

lemma core_depth [simp]: "core (a\<lparr>node_depth := d\<rparr>) = core a"
  by (simp add: core_def)

lemma coreD:
  "core a = core b \<Longrightarrow> links a = links b \<and> parent a = parent b \<and> counts_for_depth a = counts_for_depth b
     \<and> left_child a = left_child b \<and> right_child a = right_child b \<and> is_leaf a = is_leaf b \<and> is_full a = is_full b"
  by (cases a, cases b) (simp add: core_def links_def is_full_def)

lemma core_update: "core (f a) = core (f b)" if "core a = core b" "f = (\<lambda>n. n\<lparr>right_child := c\<rparr>) \<or> f = (\<lambda>n. n\<lparr>left_child := c\<rparr>)"
  using that by (cases a, cases b) (auto simp: core_def)

subsection \<open>Trees under construction\<close>

text \<open>
  Ids grow from the root, so the parent pointers lead to the root; \<open>B\<close> bounds the depths that
  nodes may reach, at most two, and a factor of a product stays below its product.
\<close>

definition weight :: "ast_node \<Rightarrow> int" where
  "weight n = (if counts_for_depth n then 1 else 0)"

definition kid :: "ast_node \<Rightarrow> nat \<Rightarrow> bool" where
  "kid n j \<longleftrightarrow> left_child n = Some j \<or> right_child n = Some j"

definition node_ok :: "(nat \<Rightarrow> int) \<Rightarrow> nat \<Rightarrow> nat \<Rightarrow> ast_node \<Rightarrow> bool" where
  "node_ok B k i n \<longleftrightarrow> (i \<noteq> 0 \<longrightarrow> (\<exists>p < i. parent n = Some p)) \<and> (\<forall>j. kid n j \<longrightarrow> j < k \<and> B j + weight n \<le> B i)
     \<and> 0 \<le> node_depth n \<and> node_depth n \<le> B i \<and> weight n \<le> B i \<and> B i \<le> 2"

definition growing :: "(nat \<Rightarrow> int) \<Rightarrow> ast \<Rightarrow> bool" where
  "growing B t \<longleftrightarrow> 0 < node_counter t \<and> ast_root t = Some 0 \<and> parent (ast_nodes t 0) = None
     \<and> (\<forall>i < node_counter t. node_ok B (node_counter t) i (ast_nodes t i))"

lemma growing_node: "growing B t \<Longrightarrow> i < node_counter t \<Longrightarrow> node_ok B (node_counter t) i (ast_nodes t i)"
  by (simp add: growing_def)

lemma node_okD:
  assumes "node_ok B k i n"
  shows "weight n \<le> B i" "B i \<le> 2" "0 \<le> node_depth n" "node_depth n \<le> B i"
    and "i \<noteq> 0 \<Longrightarrow> \<exists>p < i. parent n = Some p" and "kid n j \<Longrightarrow> j < k \<and> B j + weight n \<le> B i"
  using assms by (simp_all add: node_ok_def)

lemma weight_core: "core a = core b \<Longrightarrow> weight a = weight b"
  by (drule coreD) (simp add: weight_def)

lemma kid_core: "core a = core b \<Longrightarrow> kid a j = kid b j"
  by (drule coreD) (simp add: kid_def)

lemma weight_depth [simp]: "weight (n\<lparr>node_depth := d\<rparr>) = weight n" and kid_depth [simp]: "kid (n\<lparr>node_depth := d\<rparr>) = kid n"
  by (simp_all add: weight_def kid_def fun_eq_iff)

lemma node_ok_depth: "node_ok B k i n \<Longrightarrow> 0 \<le> d \<Longrightarrow> d \<le> B i \<Longrightarrow> node_ok B k i (n\<lparr>node_depth := d\<rparr>)"
  by (simp add: node_ok_def)

lemma kid_depth_bound:
  assumes "growing B t" and "i < node_counter t" and "kid (ast_nodes t i) j"
  shows "0 \<le> node_depth (ast_nodes t j) \<and> node_depth (ast_nodes t j) + weight (ast_nodes t i) \<le> B i"
proof -
  from node_okD(6) [OF growing_node [OF assms(1,2)] assms(3)] have j: "j < node_counter t" "B j + weight (ast_nodes t i) \<le> B i"
    by auto
  from node_okD(3,4) [OF growing_node [OF assms(1) j(1)]] j(2) show ?thesis by linarith
qed

lemma depth_bound:
  assumes "growing B t" and "i < node_counter t" and "\<And>j. p = Some j \<Longrightarrow> kid (ast_nodes t i) j"
  shows "0 \<le> get_depth (ast_nodes t) p \<and> get_depth (ast_nodes t) p + weight (ast_nodes t i) \<le> B i"
proof (cases p)
  case None
  with node_okD(1) [OF growing_node [OF assms(1,2)]] show ?thesis by (simp add: get_depth_def)
next
  case (Some j)
  with kid_depth_bound [OF assms(1,2) assms(3) [OF Some]] show ?thesis by (simp add: get_depth_def)
qed

lemma growing_depths:
  assumes g: "growing B t" and i: "i < node_counter t"
  shows "0 \<le> get_depth (ast_nodes t) (left_child (ast_nodes t i))"
    and "get_depth (ast_nodes t) (left_child (ast_nodes t i)) + weight (ast_nodes t i) \<le> B i"
    and "0 \<le> get_depth (ast_nodes t) (right_child (ast_nodes t i))"
    and "get_depth (ast_nodes t) (right_child (ast_nodes t i)) + weight (ast_nodes t i) \<le> B i"
  using depth_bound [OF g i, of "left_child (ast_nodes t i)"] depth_bound [OF g i, of "right_child (ast_nodes t i)"]
  by (simp_all add: kid_def)

lemma growing_depth_update:
  assumes "growing B t" and "0 \<le> d" and "d \<le> B i"
  shows "growing B (t\<lparr>ast_nodes := (ast_nodes t)(i := (ast_nodes t i)\<lparr>node_depth := d\<rparr>)\<rparr>)"
  using assms node_ok_depth by (auto simp: growing_def)

text \<open>No rotation fires.\<close>

lemma balance_node_keeps:
  assumes g: "growing B t" and i: "node < node_counter t"
  shows "\<exists>d. balance_node node t = Inr (node, t\<lparr>ast_nodes := (ast_nodes t)(node := (ast_nodes t node)\<lparr>node_depth := d\<rparr>)\<rparr>)
    \<and> 0 \<le> d \<and> d \<le> B node"
proof (cases "counts_for_depth (ast_nodes t node)")
  case False
  let ?h = "ast_nodes t" and ?n = "ast_nodes t node"
  from False growing_depths [OF g i] show ?thesis
    by (intro exI [of _ "max (get_depth ?h (left_child ?n)) (get_depth ?h (right_child ?n))"])
       (simp add: balance_node_def weight_def Let_def)
next
  case True
  let ?h = "ast_nodes t" and ?n = "ast_nodes t node"
  let ?d = "1 + max (get_depth ?h (left_child ?n)) (get_depth ?h (right_child ?n))"
  let ?h' = "update_depth node ?h"
  from True have w: "weight ?n = 1" by (simp add: weight_def)
  have other: "j \<noteq> node" if "kid ?n j" for j
    using node_okD(6) [OF growing_node [OF g i] that] w by auto
  have kids: "left_child (?h' node) = left_child ?n" "right_child (?h' node) = right_child ?n"
    by (simp_all add: update_depth_def)
  have "get_depth ?h' p = get_depth ?h p" if "p \<noteq> Some node" for p
    using that by (cases p) (simp_all add: get_depth_def update_depth_def)
  moreover have "left_child ?n \<noteq> Some node" "right_child ?n \<noteq> Some node"
    using other [of node] by (auto simp: kid_def)
  ultimately have bal: "get_balance ?h' (Some node) = get_depth ?h (left_child ?n) - get_depth ?h (right_child ?n)"
    by (simp add: get_balance_def kids)
  have "\<not> get_balance ?h' (Some node) > 1" "\<not> get_balance ?h' (Some node) < - 1" "0 \<le> ?d" "?d \<le> B node"
    using growing_depths [OF g i] node_okD(2) [OF growing_node [OF g i]] w unfolding bal by linarith+
  moreover have "?h' = ?h(node := ?n\<lparr>node_depth := ?d\<rparr>)" by (simp add: update_depth_def)
  ultimately show ?thesis
    using True unfolding balance_node_def Let_def by (intro exI [of _ ?d]) simp
qed

lemma reorg_from_keeps:
  assumes "growing B t" and "node < node_counter t"
  shows "\<exists>h'. reorg_from node t = Some (Inr (0, t\<lparr>ast_nodes := h'\<rparr>)) \<and> growing B (t\<lparr>ast_nodes := h'\<rparr>)
    \<and> (\<forall>i. core (h' i) = core (ast_nodes t i))"
  using assms
proof (induction node arbitrary: t rule: less_induct)
  case (less node)
  obtain d where d: "balance_node node t = Inr (node, t\<lparr>ast_nodes := (ast_nodes t)(node := (ast_nodes t node)\<lparr>node_depth := d\<rparr>)\<rparr>)"
      "0 \<le> d" "d \<le> B node"
    using balance_node_keeps [OF less.prems] by blast
  let ?t = "t\<lparr>ast_nodes := (ast_nodes t)(node := (ast_nodes t node)\<lparr>node_depth := d\<rparr>)\<rparr>"
  have g: "growing B ?t" using growing_depth_update [OF less.prems(1) d(2,3)] .
  show ?case
  proof (cases "node = 0")
    case True
    with d(1) less.prems(1) g show ?thesis
      by (subst reorg_from.simps) (auto simp: growing_def intro!: exI [of _ "ast_nodes ?t"])
  next
    case False
    with node_okD(5) [OF growing_node [OF less.prems]] obtain p where p: "p < node" "parent (ast_nodes t node) = Some p"
      by blast
    with less.prems(2) have "p < node_counter ?t" by simp
    from less.IH [OF p(1) g this] obtain h' where
      "reorg_from p ?t = Some (Inr (0, ?t\<lparr>ast_nodes := h'\<rparr>))" "growing B (?t\<lparr>ast_nodes := h'\<rparr>)"
      "\<forall>i. core (h' i) = core (ast_nodes ?t i)" by blast
    moreover from this(3) have "\<forall>i. core (h' i) = core (ast_nodes t i)" by simp
    ultimately show ?thesis
      using d(1) p(2) by (subst reorg_from.simps) (auto intro!: exI [of _ h'])
  qed
qed

subsection \<open>One token\<close>

definition fresh :: "ast_node \<Rightarrow> bool" where
  "fresh n \<longleftrightarrow> left_child n = None \<and> right_child n = None \<and> node_depth n = weight n"

lemma insert_child_core: "core a = core b \<Longrightarrow> core (snd (insert_child k a)) = core (snd (insert_child k b))"
  by (cases a, cases b) (auto simp: insert_child_def core_def)

lemma insert_child_kid: "\<not> is_full n \<Longrightarrow> kid (snd (insert_child k n)) j \<longleftrightarrow> kid n j \<or> j = k"
  by (auto simp: insert_child_def kid_def is_full_def)

lemma insert_child_keeps:
  "node_depth (snd (insert_child k n)) = node_depth n" "parent (snd (insert_child k n)) = parent n"
  "weight (snd (insert_child k n)) = weight n" "fst (insert_child k n) \<longleftrightarrow> right_child n \<noteq> None"
  by (simp_all add: insert_child_def weight_def)

abbreviation inserted :: "nat \<Rightarrow> ast_node \<Rightarrow> nat list \<Rightarrow> ast \<Rightarrow> ast" where
  "inserted c nn st t \<equiv> \<lparr>node_counter = node_counter t + 1, ast_root = ast_root t,
     ast_nodes = (ast_nodes t)(node_counter t := nn\<lparr>parent := Some c\<rparr>,
       c := snd (insert_child (node_counter t) (ast_nodes t c))), node_stack = st\<rparr>"

lemma growing_insert:
  assumes g: "growing B t" and c: "c < node_counter t" "\<not> is_full (ast_nodes t c)" and f: "fresh nn"
    and b: "weight nn \<le> b" "b \<le> 2" "b + weight (ast_nodes t c) \<le> B c"
  shows "growing (B(node_counter t := b)) (inserted c nn st t)"
proof -
  let ?k = "node_counter t" and ?h = "ast_nodes (inserted c nn st t)"
  have "node_ok (B(?k := b)) (?k + 1) i (?h i)" if "i < ?k + 1" for i
  proof -
    consider (new) "i = ?k" | (owner) "i = c" "i < ?k" | (other) "i < ?k" "i \<noteq> c" using \<open>i < ?k + 1\<close> by linarith
    then show ?thesis
    proof cases
      case new
      with f b c(1) show ?thesis by (auto simp: node_ok_def fresh_def kid_def weight_def)
    next
      case owner
      note n = node_okD [OF growing_node [OF g c(1)]]
      have "kid (?h c) j \<longrightarrow> j < ?k + 1 \<and> (B(?k := b)) j + weight (?h c) \<le> B c" for j
        using n(6) [of j] b(3) insert_child_kid [OF c(2), of ?k j] by (auto simp: insert_child_keeps)
      with n owner c(1) show ?thesis by (simp add: node_ok_def insert_child_keeps)
    next
      case other
      note n = node_okD [OF growing_node [OF g other(1)]]
      have "kid (?h i) j \<longrightarrow> j < ?k + 1 \<and> (B(?k := b)) j + weight (?h i) \<le> B i" for j
        using n(6) [of j] other by auto
      with n other show ?thesis by (simp add: node_ok_def)
    qed
  qed
  moreover have "parent (?h 0) = None"
    using g c(1) by (auto simp: growing_def insert_child_keeps)
  ultimately show ?thesis using g by (simp add: growing_def)
qed

lemma build_step_insert:
  assumes g: "growing B t" and st: "node_stack t = c # st" and c: "c < node_counter t" "\<not> is_full (ast_nodes t c)"
    and nn: "new_node token = Inr nn" "fresh nn"
    and b: "weight nn \<le> b" "b \<le> 2" "b + weight (ast_nodes t c) \<le> B c"
  shows "\<exists>t'. build_step token cur t = Some (Inr (Some c, t')) \<and> growing (B(node_counter t := b)) t'
    \<and> node_counter t' = node_counter t + 1
    \<and> node_stack t' = (if is_leaf nn then [] else [node_counter t]) @ (if right_child (ast_nodes t c) = None then c # st else st)
    \<and> (\<forall>i. core (ast_nodes t' i) = core (ast_nodes (inserted c nn st t) i))"
proof -
  let ?k = "node_counter t"
  let ?t2 = "inserted c nn (c # st) t"
  let ?stk = "(if is_leaf nn then [] else [?k]) @ (if right_child (ast_nodes t c) = None then c # st else st)"
  have root: "ast_root t = Some 0" using g by (simp add: growing_def)
  have g2: "growing (B(?k := b)) ?t2" using growing_insert [OF g c nn(2) b] .
  obtain h' where h': "(if counts_for_depth nn then reorg_from c ?t2 else Some (Inr (0, ?t2))) = Some (Inr (0, ?t2\<lparr>ast_nodes := h'\<rparr>))"
      "growing (B(?k := b)) (?t2\<lparr>ast_nodes := h'\<rparr>)" "\<forall>i. core (h' i) = core (ast_nodes ?t2 i)"
  proof (cases "counts_for_depth nn")
    case True
    with reorg_from_keeps [OF g2, of c] c(1) that show ?thesis by auto
  next
    case False
    with g2 that [of "ast_nodes ?t2"] show ?thesis by simp
  qed
  let ?t' = "\<lparr>node_counter = ?k + 1, ast_root = Some 0, ast_nodes = h', node_stack = ?stk\<rparr>"
  have "build_step token cur t = Some (Inr (Some c, ?t'))"
  proof -
    obtain k h where t: "t = \<lparr>node_counter = k, ast_root = Some 0, ast_nodes = h, node_stack = c # st\<rparr>"
      using st root by (cases t) simp
    have skip: "skip_full h (c # st) = Inr (c, c # st)" using c(2) by (simp add: t)
    obtain cn where ins: "insert_child k (h c) = (right_child (h c) \<noteq> None, cn)" "cn = snd (insert_child k (h c))"
      by (simp add: insert_child_def)
    have ck: "c \<noteq> k" using c(1) by (simp add: t)
    let ?s = "\<lparr>node_counter = k + 1, ast_root = Some 0, ast_nodes = h(k := nn\<lparr>parent := Some c\<rparr>, c := cn), node_stack = c # st\<rparr>"
    have t2: "?t2 = ?s" by (simp add: t ins(2))
    have r: "(if counts_for_depth nn then reorg_from c ?s else Some (Inr (0, ?s))) = Some (Inr (0, ?s\<lparr>ast_nodes := h'\<rparr>))"
      using h'(1) unfolding t2 .
    show ?thesis
    proof (cases "counts_for_depth nn")
      case True
      with r have r: "reorg_from c ?s = Some (Inr (0, ?s\<lparr>ast_nodes := h'\<rparr>))" by simp
      show ?thesis
        using ck nn(1) True r ins(1) skip by (cases "right_child (h c)"; cases "is_leaf nn") (simp_all add: build_step_def t Let_def)
    next
      case False
      with r have "h' = h(k := nn\<lparr>parent := Some c\<rparr>, c := cn)" by simp
      then show ?thesis
        using ck nn(1) False ins(1) skip by (cases "right_child (h c)"; cases "is_leaf nn") (simp_all add: build_step_def t Let_def)
    qed
  qed
  moreover have "growing (B(?k := b)) ?t'" using h'(2) by (simp add: growing_def root)
  ultimately show ?thesis using h'(3) by (intro exI [of _ ?t']) simp
qed

subsection \<open>A whole expression\<close>

fun expr_depth :: "expr \<Rightarrow> int" where
  "expr_depth (Num ds) = 0"
| "expr_depth (Bin c l r) = (if c = CHR ''*'' then 1 else 0) + max (expr_depth l) (expr_depth r)"

text \<open>The numbers of an expression fit into an \<open>int\<close>; a tree in the heap is that expression.\<close>

fun numbers_fit :: "expr \<Rightarrow> bool" where
  "numbers_fit (Num ds) \<longleftrightarrow> (\<exists>v. stoi ds = Inr v)"
| "numbers_fit (Bin c l r) \<longleftrightarrow> numbers_fit l \<and> numbers_fit r"

fun matches :: "itree \<Rightarrow> expr \<Rightarrow> bool" where
  "matches (ILeaf n v) (Num ds) \<longleftrightarrow> stoi ds = Inr v"
| "matches (INode n c l r) (Bin d l' r') \<longleftrightarrow> c = [d] \<and> matches l l' \<and> matches r r'"
| "matches _ _ \<longleftrightarrow> False"

lemma expr_depth_nonneg: "0 \<le> expr_depth e"
  by (induction e) auto

lemma new_node_operator:
  "is_operator d \<Longrightarrow> new_node [d] = Inr (op_node (d = CHR ''*'') None [d])"
  by (auto simp: is_operator_def new_node_def)

lemma new_node_number:
  assumes "ds \<noteq> []" and "list_all is_digit ds" and "stoi ds = Inr v"
  shows "new_node ds = Inr (leaf_node v None)"
proof -
  from assms(1,2) have "is_digit (hd ds)" by (cases ds) auto
  then have "ds \<noteq> ''+''" "ds \<noteq> ''*''" "ds \<noteq> ''-''" by (auto simp: is_digit_def)
  with assms(3) show ?thesis by (simp add: new_node_def)
qed

lemma fresh_nodes: "fresh (op_node s None c)" "fresh (leaf_node v None)"
    "weight (op_node s p c) = (if s then 1 else 0)" "weight (leaf_node v p) = 0"
  by (simp_all add: fresh_def op_node_def leaf_node_def weight_def)

text \<open>What reading a subexpression does to the tree under construction.\<close>

definition grows :: "expr \<Rightarrow> nat \<Rightarrow> nat list \<Rightarrow> (nat \<Rightarrow> int) \<Rightarrow> ast \<Rightarrow> (nat \<Rightarrow> int) \<Rightarrow> ast \<Rightarrow> itree \<Rightarrow> bool" where
  "grows e c st B t B' t' T \<longleftrightarrow> growing B' t' \<and> (\<forall>i < node_counter t. B' i = B i) \<and> node_counter t < node_counter t'
     \<and> node_stack t' = (if right_child (ast_nodes t c) = None then c # st else st)
     \<and> in_heap (ast_nodes t') T \<and> root_id T = node_counter t \<and> matches T e
     \<and> set (ids T) \<subseteq> {node_counter t ..< node_counter t'}
     \<and> (\<forall>i < node_counter t. i \<noteq> c \<longrightarrow> core (ast_nodes t' i) = core (ast_nodes t i))
     \<and> core (ast_nodes t' c) = core (snd (insert_child (node_counter t) (ast_nodes t c)))"

lemma in_heap_core: "\<forall>n \<in> set (ids t). core (h n) = core (h' n) \<Longrightarrow> in_heap h t = in_heap h' t"
  by (rule in_heap_cong) (meson coreD)

lemma inserted_core:
  assumes "\<forall>i. core (ast_nodes t' i) = core (ast_nodes (inserted c nn st t) i)" and "c < node_counter t"
  shows "i < node_counter t \<Longrightarrow> i \<noteq> c \<Longrightarrow> core (ast_nodes t' i) = core (ast_nodes t i)"
    and "core (ast_nodes t' c) = core (snd (insert_child (node_counter t) (ast_nodes t c)))"
    and "core (ast_nodes t' (node_counter t)) = core (nn\<lparr>parent := Some c\<rparr>)"
  using assms by simp_all

text \<open>The operands of an operation: first the right one, then the left one, into the same node \<open>k\<close>.\<close>

lemma grows_operation:
  assumes r: "grows r k st B1 t1 B2 t2 Tr" and l: "grows l k st B2 t2 B3 t3 Tl"
    and k: "k < node_counter t1" "core (ast_nodes t1 k) = core (op_node s p [d])"
  shows "growing B3 t3 \<and> (\<forall>i < node_counter t1. B3 i = B1 i) \<and> node_counter t1 < node_counter t3 \<and> node_stack t3 = st
    \<and> in_heap (ast_nodes t3) (INode k [d] Tl Tr) \<and> matches (INode k [d] Tl Tr) (Bin d l r)
    \<and> set (ids (INode k [d] Tl Tr)) \<subseteq> {k ..< node_counter t3}
    \<and> (\<forall>i < node_counter t1. i \<noteq> k \<longrightarrow> core (ast_nodes t3 i) = core (ast_nodes t1 i))"
proof -
  note r' = r [unfolded grows_def] and l' = l [unfolded grows_def]
  have h1: "right_child (ast_nodes t1 k) = None" "left_child (ast_nodes t1 k) = None" "\<not> is_leaf (ast_nodes t1 k)" "op_of (ast_nodes t1 k) = [d]"
    using coreD [OF k(2)] by (simp_all add: op_node_def links_def)
  have "core (ast_nodes t2 k) = core ((ast_nodes t1 k)\<lparr>right_child := Some (root_id Tr)\<rparr>)"
    using r' h1 by (simp add: insert_child_def)
  from coreD [OF this] h1 have h2: "right_child (ast_nodes t2 k) = Some (root_id Tr)" "links (ast_nodes t2 k) = (False, val_of (ast_nodes t1 k), [d], None, Some (root_id Tr))"
    by (simp_all add: links_def)
  have "core (ast_nodes t3 k) = core ((ast_nodes t2 k)\<lparr>left_child := Some (root_id Tl)\<rparr>)"
    using l' h2 by (simp add: insert_child_def)
  from coreD [OF this] h2 have h3: "links (ast_nodes t3 k) = (False, val_of (ast_nodes t1 k), [d], Some (root_id Tl), Some (root_id Tr))"
    by (simp add: links_def)
  have "in_heap (ast_nodes t3) Tr = in_heap (ast_nodes t2) Tr"
    using r' l' k(1) by (intro in_heap_core) (auto simp: subset_eq)
  with r' l' h3 have "in_heap (ast_nodes t3) (INode k [d] Tl Tr)" by (simp add: links_def)
  moreover have "node_stack t3 = st" using l' h2(1) by simp
  moreover have "\<forall>i < node_counter t1. i \<noteq> k \<longrightarrow> core (ast_nodes t3 i) = core (ast_nodes t1 i)"
    using r' l' by simp
  moreover have "set (ids (INode k [d] Tl Tr)) \<subseteq> {k ..< node_counter t3}"
    using r' l' k(1) by (auto simp: subset_eq)
  ultimately show ?thesis using r' l' by simp
qed

lemma operator_node:
  assumes "core n = core ((op_node s None [d])\<lparr>parent := p\<rparr>)"
  shows "core n = core (op_node s p [d]) \<and> weight n = (if s then 1 else 0) \<and> \<not> is_full n \<and> right_child n = None"
proof -
  have "(op_node s None [d])\<lparr>parent := p\<rparr> = op_node s p [d]" by (simp add: op_node_def)
  with assms have c: "core n = core (op_node s p [d])" by simp
  from coreD [OF c] show ?thesis using c by (simp add: op_node_def is_full_def weight_def)
qed

text \<open>Both operands below a new operator node \<open>k\<close>, given what reading each of them does.\<close>

lemma build_operands:
  assumes IHr: "\<And>B t st cur. growing B t \<Longrightarrow> node_stack t = k # st \<Longrightarrow> k < node_counter t \<Longrightarrow> \<not> is_full (ast_nodes t k) \<Longrightarrow>
      expr_depth r + weight (ast_nodes t k) \<le> B k \<Longrightarrow>
      \<exists>cur' B' t' T. (\<forall>rest. build_from (rev (postfix r) @ rest) cur t = build_from rest cur' t') \<and> grows r k st B t B' t' T"
    and IHl: "\<And>B t st cur. growing B t \<Longrightarrow> node_stack t = k # st \<Longrightarrow> k < node_counter t \<Longrightarrow> \<not> is_full (ast_nodes t k) \<Longrightarrow>
      expr_depth l + weight (ast_nodes t k) \<le> B k \<Longrightarrow>
      \<exists>cur' B' t' T. (\<forall>rest. build_from (rev (postfix l) @ rest) cur t = build_from rest cur' t') \<and> grows l k st B t B' t' T"
    and g: "growing B t" "node_stack t = k # st" "k < node_counter t"
    and n: "core (ast_nodes t k) = core ((op_node (d = CHR ''*'') None [d])\<lparr>parent := p\<rparr>)"
    and b: "expr_depth (Bin d l r) \<le> B k"
  shows "\<exists>cur' B2 t2 B' t' Tr Tl. (\<forall>rest. build_from (rev (postfix r) @ rev (postfix l) @ rest) cur t = build_from rest cur' t')
    \<and> grows r k st B t B2 t2 Tr \<and> grows l k st B2 t2 B' t' Tl"
proof -
  note nk = operator_node [OF n]
  have "expr_depth r + weight (ast_nodes t k) \<le> B k" using b nk by simp
  then obtain cur2 B2 t2 Tr where r: "\<forall>rest. build_from (rev (postfix r) @ rest) cur t = build_from rest cur2 t2"
      "grows r k st B t B2 t2 Tr"
    using IHr [OF g(1,2,3), of cur] nk by blast
  note r' = r(2) [unfolded grows_def]
  have k2: "core (ast_nodes t2 k) = core ((ast_nodes t k)\<lparr>right_child := Some (node_counter t)\<rparr>)"
    using r' nk by (simp add: insert_child_def)
  have "left_child (ast_nodes t k) = None" using coreD [OF conjunct1 [OF nk]] by (simp add: op_node_def)
  with coreD [OF k2] have "\<not> is_full (ast_nodes t2 k)" by (simp add: is_full_def)
  moreover have "weight (ast_nodes t2 k) = weight (ast_nodes t k)" using coreD [OF k2] by (simp add: weight_def)
  with b nk r' g(3) have "expr_depth l + weight (ast_nodes t2 k) \<le> B2 k" by simp
  moreover have "growing B2 t2" "node_stack t2 = k # st" "k < node_counter t2" using r' nk g(3) by simp_all
  ultimately obtain cur' B' t' Tl where "\<forall>rest. build_from (rev (postfix l) @ rest) cur2 t2 = build_from rest cur' t'"
      "grows l k st B2 t2 B' t' Tl"
    using IHl [of B2 t2 st cur2] by blast
  moreover from this(1) r(1) have "\<forall>rest. build_from (rev (postfix r) @ rev (postfix l) @ rest) cur t = build_from rest cur' t'"
    by simp
  ultimately show ?thesis using r(2) by blast
qed

lemma build_subtree:
  assumes "wf_expr e" and "numbers_fit e" and "growing B t" and "node_stack t = c # st" and "c < node_counter t"
    and "\<not> is_full (ast_nodes t c)" and "expr_depth e + weight (ast_nodes t c) \<le> B c"
  shows "\<exists>cur' B' t' T. (\<forall>rest. build_from (rev (postfix e) @ rest) cur t = build_from rest cur' t') \<and> grows e c st B t B' t' T"
  using assms
proof (induction e arbitrary: B t c st cur)
  case (Num ds)
  then obtain v where v: "stoi ds = Inr v" by auto
  let ?k = "node_counter t"
  have "new_node ds = Inr (leaf_node v None)" using Num.prems(1) v by (intro new_node_number) simp_all
  from build_step_insert [OF Num.prems(3-6) this, of 0 cur] Num.prems(7) obtain t' where
    step: "build_step ds cur t = Some (Inr (Some c, t'))" "growing (B(?k := 0)) t'" "node_counter t' = ?k + 1"
      "node_stack t' = (if right_child (ast_nodes t c) = None then c # st else st)"
      and core: "\<forall>i. core (ast_nodes t' i) = core (ast_nodes (inserted c (leaf_node v None) st t) i)"
    by (auto simp: fresh_nodes) (simp_all add: leaf_node_def)
  note ins = inserted_core [OF core Num.prems(5)]
  from coreD [OF ins(3)] have "in_heap (ast_nodes t') (ILeaf ?k v)" by (simp add: leaf_node_def links_def)
  with step ins v have "grows (Num ds) c st B t (B(?k := 0)) t' (ILeaf ?k v)" by (simp add: grows_def)
  moreover have "\<forall>rest. build_from (rev (postfix (Num ds)) @ rest) cur t = build_from rest (Some c) t'" using step(1) by simp
  ultimately show ?case by blast
next
  case (Bin d l r)
  let ?k = "node_counter t" and ?s = "d = CHR ''*''" and ?b = "expr_depth (Bin d l r)"
  let ?st1 = "if right_child (ast_nodes t c) = None then c # st else st"
  from Bin.prems have d: "is_operator d" and wf: "wf_expr l" "wf_expr r" "numbers_fit l" "numbers_fit r" by simp_all
  have "0 \<le> weight (ast_nodes t c)" by (simp add: weight_def)
  with Bin.prems(7) node_okD(2) [OF growing_node [OF Bin.prems(3,5)]] have "?b \<le> 2" by linarith
  moreover have "weight (op_node ?s None [d]) \<le> ?b" using expr_depth_nonneg [of l] by (simp add: fresh_nodes)
  ultimately have nb: "weight (op_node ?s None [d]) \<le> ?b" "?b \<le> 2" by simp_all
  from build_step_insert [OF Bin.prems(3-6) new_node_operator [OF d] fresh_nodes(1) nb Bin.prems(7), of cur] obtain t1 where
    step: "build_step [d] cur t = Some (Inr (Some c, t1))" "growing (B(?k := ?b)) t1" "node_counter t1 = ?k + 1"
      "node_stack t1 = ?k # ?st1"
      and core: "\<forall>i. core (ast_nodes t1 i) = core (ast_nodes (inserted c (op_node ?s None [d]) st t) i)"
    by (auto simp: op_node_def)
  note ins = inserted_core [OF core Bin.prems(5)]
  have "\<exists>cur' B2 t2 B' t' Tr Tl. (\<forall>rest. build_from (rev (postfix r) @ rev (postfix l) @ rest) (Some c) t1 = build_from rest cur' t')
      \<and> grows r ?k ?st1 (B(?k := ?b)) t1 B2 t2 Tr \<and> grows l ?k ?st1 B2 t2 B' t' Tl"
    by (rule build_operands [OF Bin.IH(2) [OF wf(2,4)] Bin.IH(1) [OF wf(1,3)] step(2,4) _ ins(3)]) (simp_all add: step(3))
  then obtain cur' B2 t2 B' t' Tr Tl where
      run: "\<forall>rest. build_from (rev (postfix r) @ rev (postfix l) @ rest) (Some c) t1 = build_from rest cur' t'"
      and kids: "grows r ?k ?st1 (B(?k := ?b)) t1 B2 t2 Tr" "grows l ?k ?st1 B2 t2 B' t' Tl"
    by blast
  have k1: "core (ast_nodes t1 ?k) = core (op_node ?s (Some c) [d])" using operator_node [OF ins(3)] by simp
  from grows_operation [OF kids _ k1] step(3) have t': "growing B' t'" "\<forall>i < ?k + 1. B' i = (B(?k := ?b)) i" "?k + 1 < node_counter t'"
      "node_stack t' = ?st1" "in_heap (ast_nodes t') (INode ?k [d] Tl Tr)" "matches (INode ?k [d] Tl Tr) (Bin d l r)"
      "set (ids (INode ?k [d] Tl Tr)) \<subseteq> {?k ..< node_counter t'}"
      "\<forall>i < ?k + 1. i \<noteq> ?k \<longrightarrow> core (ast_nodes t' i) = core (ast_nodes t1 i)"
    by auto
  have "grows (Bin d l r) c st B t B' t' (INode ?k [d] Tl Tr)"
    unfolding grows_def using t' ins(1,2) Bin.prems(5) by (simp del: in_heap.simps matches.simps ids.simps)
  moreover have "\<forall>rest. build_from (rev (postfix (Bin d l r)) @ rest) cur t = build_from rest cur' t'"
    using step(1) run by simp
  ultimately show ?case by blast
qed

lemma built_as_written:
  assumes "wf_expr (Bin d l r)" and "numbers_fit (Bin d l r)" and "expr_depth (Bin d l r) \<le> 2"
  shows "\<exists>t T. ASTree (written 0 (Bin d l r)) = Some (Inr t) \<and> ast_root t = Some (root_id T)
    \<and> in_heap (ast_nodes t) T \<and> matches T (Bin d l r)"
proof -
  let ?s = "d = CHR ''*''" and ?b = "expr_depth (Bin d l r)" and ?n = "op_node (d = CHR ''*'') None [d]"
  let ?t1 = "\<lparr>node_counter = 1, ast_root = Some 0, ast_nodes = (ast_nodes empty_ast)(0 := ?n), node_stack = [0]\<rparr>"
  from assms have d: "is_operator d" and wf: "wf_expr l" "wf_expr r" "numbers_fit l" "numbers_fit r" by simp_all
  have step: "build_step [d] None empty_ast = Some (Inr (None, ?t1))"
    by (simp add: build_step_def empty_ast_def new_node_operator [OF d] Let_def) (simp add: op_node_def)
  have b: "weight ?n \<le> ?b" "0 \<le> ?b" using expr_depth_nonneg [of l] by (simp_all add: fresh_nodes)
  have "node_ok (\<lambda>_. ?b) 1 0 ?n"
    using b assms(3) fresh_nodes(1) [of ?s "[d]"] by (auto simp: node_ok_def fresh_def kid_def weight_def)
  then have g: "growing (\<lambda>_. ?b) ?t1" by (simp add: growing_def) (simp add: op_node_def)
  have "\<exists>cur' B2 t2 B' t' Tr Tl. (\<forall>rest. build_from (rev (postfix r) @ rev (postfix l) @ rest) None ?t1 = build_from rest cur' t')
      \<and> grows r 0 [] (\<lambda>_. ?b) ?t1 B2 t2 Tr \<and> grows l 0 [] B2 t2 B' t' Tl"
    by (rule build_operands [OF build_subtree [OF wf(2,4)] build_subtree [OF wf(1,3)] g, where d = d and p = None])
       (simp_all add: op_node_def)
  then obtain cur' B2 t2 B' t' Tr Tl where
      run: "build_from (rev (postfix r) @ rev (postfix l) @ []) None ?t1 = build_from [] cur' t'"
      and kids: "grows r 0 [] (\<lambda>_. ?b) ?t1 B2 t2 Tr" "grows l 0 [] B2 t2 B' t' Tl"
    by blast
  from grows_operation [OF kids, of ?s None d] have T: "growing B' t'" "in_heap (ast_nodes t') (INode 0 [d] Tl Tr)"
      "matches (INode 0 [d] Tl Tr) (Bin d l r)" by simp_all
  have "ASTree (written 0 (Bin d l r)) = Some (Inr t')"
    using shunt_translates [OF assms(1)] run step by (simp add: ASTree_def build_tree_def)
  with T show ?thesis by (intro exI [of _ t'] exI [of _ "INode 0 [d] Tl Tr"]) (simp add: growing_def)
qed

text \<open>C28. Expressions of multiplicative depth at most two are built as they are written: the tree in the
  heap is the expression, operand by operand and operator by operator, for sums and products of any
  number of operands.\<close>

theorem shallow_expressions_built:
  assumes "wf_expr (Bin d l r)" and "numbers_fit (Bin d l r)" and "expr_depth (Bin d l r) \<le> 2"
  shows "\<exists>t T. ASTree (written 0 (Bin d l r)) = Some (Inr t) \<and> ast_root t = Some (root_id T)
    \<and> in_heap (ast_nodes t) T \<and> matches T (Bin d l r)"
  using assms by (rule built_as_written)

fun numerals :: "expr \<Rightarrow> string list" where
  "numerals (Num ds) = [ds]"
| "numerals (Bin c l r) = numerals l @ numerals r"

lemma matches_operands: "matches T e \<Longrightarrow> map Inr (operands T) = map stoi (numerals e)"
  by (induction T e rule: matches.induct) auto

theorem shallow_expressions_built_witness:
  "\<exists>t T. ASTree ''12*3*(4-5)'' = Some (Inr t) \<and> ast_root t = Some (root_id T) \<and> in_heap (ast_nodes t) T
    \<and> operands T = [12, 3, 4, 5]"
proof -
  let ?e = "Bin (CHR ''*'') (Bin (CHR ''*'') (Num ''12'') (Num ''3'')) (Bin (CHR ''-'') (Num ''4'') (Num ''5''))"
  have n: "stoi ''12'' = Inr 12" "stoi ''3'' = Inr 3" "stoi ''4'' = Inr 4" "stoi ''5'' = Inr 5"
    by (code_simp)+
  have "written 0 ?e = ''12*3*(4-5)''" by (simp add: precedence_def)
  moreover have "wf_expr ?e" by (simp add: is_operator_def is_digit_def)
  moreover have "numbers_fit ?e" by (simp add: n)
  ultimately obtain t T where t: "ASTree ''12*3*(4-5)'' = Some (Inr t)" "ast_root t = Some (root_id T)" "in_heap (ast_nodes t) T"
      and m: "matches T ?e"
    using shallow_expressions_built [of "CHR ''*''"] by fastforce
  from matches_operands [OF m] n have "operands T = [12, 3, 4, 5]" by auto
  with t show ?thesis by blast
qed

end
