(* ===== verification/Base64.thy ===== *)
theory Base64
  imports Prelude "HOL-Library.Char_ord"
begin

text \<open>
  \<^verbatim>\<open>src/incl/base64.hpp\<close>: the encoding of ciphertexts, keys and outputs in JSON.

  Strings are lists of bytes.  The two loops collect groups of three bytes and of four symbols in
  arrays; here a group is taken off the list at once.  Theorem: decoding gets back what was
  encoded.
\<close>

unbundle bit_operations_syntax

definition chars :: bytes where
  "chars = map of_char ''ABCDEFGHIJKLMNOPQRSTUVWXYZabcdefghijklmnopqrstuvwxyz0123456789+/''"

definition pad_char :: byte where
  "pad_char = 61"

text \<open>\<open>isalnum\<close> of the default locale, or one of the two signs.\<close>

definition is_base64 :: "byte \<Rightarrow> bool" where
  "is_base64 c \<longleftrightarrow> 48 \<le> c \<and> c \<le> 57 \<or> 65 \<le> c \<and> c \<le> 90 \<or> 97 \<le> c \<and> c \<le> 122 \<or> c = 43 \<or> c = 47"

subsection \<open>Encoding\<close>

fun indices_of :: "bytes \<Rightarrow> bytes" where
  "indices_of (c0 # c1 # c2 # _) =
     [drop_bit 2 (c0 AND 0xfc),
      push_bit 4 (c0 AND 0x03) + drop_bit 4 (c1 AND 0xf0),
      push_bit 2 (c1 AND 0x0f) + drop_bit 6 (c2 AND 0xc0),
      c2 AND 0x3f]"
| "indices_of _ = []"

text \<open>The last one or two bytes are filled up with zeros; the symbols in excess become padding.\<close>

definition encode_rest :: "bytes \<Rightarrow> bytes" where
  "encode_rest bs =
     map (\<lambda>i. chars ! unat i) (take (length bs + 1) (indices_of (bs @ replicate (3 - length bs) 0)))
       @ replicate (3 - length bs) pad_char"

fun encode :: "bytes \<Rightarrow> bytes" where
  "encode (a # b # c # rest) = map (\<lambda>i. chars ! unat i) (indices_of [a, b, c]) @ encode rest"
| "encode [] = []"
| "encode bs = encode_rest bs"

subsection \<open>Decoding\<close>

text \<open>\<open>std::string::find\<close>, cast to a byte: the position, or \<open>npos\<close>.\<close>

fun find_from :: "byte \<Rightarrow> byte \<Rightarrow> bytes \<Rightarrow> byte" where
  "find_from i c [] = 0xff"
| "find_from i c (d # ds) = (if d = c then i else find_from (i + 1) c ds)"

definition find_char :: "byte \<Rightarrow> byte" where
  "find_char c = find_from 0 c chars"

fun bytes_of :: "bytes \<Rightarrow> bytes" where
  "bytes_of (i0 # i1 # i2 # i3 # _) =
     [push_bit 2 i0 + drop_bit 4 (i1 AND 0x30),
      push_bit 4 (i1 AND 0xf) + drop_bit 2 (i2 AND 0x3c),
      push_bit 6 (i2 AND 0x3) + i3]"
| "bytes_of _ = []"

text \<open>An incomplete last group is filled up with zero characters, which no symbol is.\<close>

definition decode_rest :: "bytes \<Rightarrow> bytes" where
  "decode_rest cs = take (length cs - 1) (bytes_of (map find_char (cs @ replicate (4 - length cs) 0)))"

fun decode_symbols :: "bytes \<Rightarrow> bytes" where
  "decode_symbols (a # b # c # d # rest) = bytes_of (map find_char [a, b, c, d]) @ decode_symbols rest"
| "decode_symbols [] = []"
| "decode_symbols cs = decode_rest cs"

text \<open>The first character that is padding or no symbol ends the input, silently.\<close>

definition decode :: "bytes \<Rightarrow> bytes" where
  "decode encoded_string = decode_symbols (takeWhile (\<lambda>c. c \<noteq> pad_char \<and> is_base64 c) encoded_string)"

subsection \<open>Bits as arithmetic\<close>

lemma unat_byte: "unat (a :: byte) < 256"
  using unsigned_less [of a] by simp

lemma unat_low: "unat ((a :: byte) AND mask n) = unat a mod 2 ^ n"
  unfolding take_bit_eq_mask [symmetric] unsigned_take_bit_eq by (rule take_bit_eq_mod)

lemma unat_high: "unat (drop_bit n (a :: byte)) = unat a div 2 ^ n"
  unfolding unsigned_drop_bit_eq using unat_byte [of a]
  by (simp add: drop_bit_eq_div [where 'a = nat] take_bit_nat_eq_self)

lemma byte_masks:
  "(0x03 :: byte) = mask 2" "(0x0f :: byte) = mask 4" "(0x3f :: byte) = mask 6"
  "drop_bit 2 (0xfc :: byte) = mask 6" "drop_bit 4 (0xf0 :: byte) = mask 4" "drop_bit 6 (0xc0 :: byte) = mask 2"
  "drop_bit 4 (0x30 :: byte) = mask 2" "drop_bit 2 (0x3c :: byte) = mask 4"
  by code_simp+

lemma unat_shift: "unat (push_bit n (a :: byte)) = unat a * 2 ^ n mod 256"
  unfolding unsigned_push_bit_eq by (simp add: push_bit_eq_mult [where 'a = nat] take_bit_eq_mod [where 'a = nat])

lemma unat_plus: "unat (a + b :: byte) = (unat a + unat b) mod 256"
  by (simp add: unat_word_ariths)

text \<open>The four indices of a group, and the three bytes of four indices.\<close>

lemma indices_arith:
  fixes a b c :: byte
  shows "map unat (indices_of [a, b, c]) =
    [unat a div 4, unat a mod 4 * 16 + unat b div 16, unat b mod 16 * 4 + unat c div 64, unat c mod 64]"
proof -
  have "unat a mod 4 * 16 + unat b div 16 < 256" "unat b mod 16 * 4 + unat c div 64 < 256"
      "unat a div 4 < 64" "unat b div 16 < 16" "unat c div 64 < 4"
    using unat_byte [of a] unat_byte [of b] unat_byte [of c] by auto
  then show ?thesis
    by (simp add: byte_masks unat_low unat_high unat_shift unat_plus del: push_bit_and)
qed

lemma bytes_arith:
  fixes i0 i1 i2 i3 :: byte
  assumes "unat i0 < 64" "unat i1 < 64" "unat i2 < 64" "unat i3 < 64"
  shows "map unat (bytes_of [i0, i1, i2, i3]) =
    [unat i0 * 4 + unat i1 div 16, unat i1 mod 16 * 16 + unat i2 div 4, unat i2 mod 4 * 64 + unat i3]"
proof -
  have "unat i0 * 4 + unat i1 div 16 < 256" "unat i1 mod 16 * 16 + unat i2 div 4 < 256" "unat i2 mod 4 * 64 + unat i3 < 256"
      "unat i1 div 16 < 4" "unat i2 div 4 < 16" "unat i0 * 4 < 256" "unat i1 mod 16 * 16 < 256" "unat i2 mod 4 * 64 < 256"
    using assms by auto
  then show ?thesis
    by (simp add: byte_masks unat_low unat_high unat_shift unat_plus del: push_bit_and)
qed

lemma indices_small: "i \<in> set (indices_of [a, b, c]) \<Longrightarrow> unat i < 64"
proof -
  assume i: "i \<in> set (indices_of [a, b, c])"
  have "unat b div 16 < 16" "unat c div 64 < 4" "unat a div 4 < 64" "unat a mod 4 < 4" "unat b mod 16 < 16"
    using unat_byte [of a] unat_byte [of b] unat_byte [of c] by auto
  then have "\<forall>n \<in> set (map unat (indices_of [a, b, c])). n < 64"
    unfolding indices_arith by auto
  moreover have "unat i \<in> set (map unat (indices_of [a, b, c]))" unfolding set_map by (rule imageI [OF i])
  ultimately show ?thesis by blast
qed

lemma split3:
  fixes x y z :: nat
  assumes "y < 256" "z < 256"
  shows "x div 4 * 4 + (x mod 4 * 16 + y div 16) div 16 = x"
    and "(x mod 4 * 16 + y div 16) mod 16 * 16 + (y mod 16 * 4 + z div 64) div 4 = y"
    and "(y mod 16 * 4 + z div 64) mod 4 * 64 + z mod 64 = z"
proof -
  have "y div 16 < 16" "z div 64 < 4" using assms by auto
  then have "(x mod 4 * 16 + y div 16) div 16 = x mod 4" "(x mod 4 * 16 + y div 16) mod 16 = y div 16"
      "(y mod 16 * 4 + z div 64) div 4 = y mod 16" "(y mod 16 * 4 + z div 64) mod 4 = z div 64"
    by simp_all
  then show "x div 4 * 4 + (x mod 4 * 16 + y div 16) div 16 = x"
    "(x mod 4 * 16 + y div 16) mod 16 * 16 + (y mod 16 * 4 + z div 64) div 4 = y"
    "(y mod 16 * 4 + z div 64) mod 4 * 64 + z mod 64 = z"
    by (simp_all only: div_mult_mod_eq)
qed

lemma group_roundtrip: "bytes_of (indices_of [a, b, c]) = [a, b, c]"
proof -
  obtain i0 i1 i2 i3 where i: "indices_of [a, b, c] = [i0, i1, i2, i3]" by simp
  with indices_small [of _ a b c] have "unat i0 < 64" "unat i1 < 64" "unat i2 < 64" "unat i3 < 64" by simp_all
  from bytes_arith [OF this] indices_arith [of a b c] i split3(1,2) [OF unat_byte unat_byte, where x = "unat a"] split3(3) [OF unat_byte unat_byte]
  have "map unat (bytes_of (indices_of [a, b, c])) = map unat [a, b, c]" by simp
  then show ?thesis by (rule map_injective) (auto intro!: injI simp: word_eq_iff_unsigned [where 'a = nat])
qed

text \<open>Symbols are found where they are; padding is none.\<close>

lemma chars_numbers: "chars = map of_nat ([65..<91] @ [97..<123] @ [48..<58] @ [43, 47])"
  by (simp add: chars_def upt_rec of_char_def)

lemma symbols: "list_all (\<lambda>c. c \<noteq> pad_char \<and> is_base64 c) chars" "length chars = 64"
  by (simp_all add: chars_numbers upt_rec pad_char_def is_base64_def)

lemma chars_distinct: "distinct chars"
  unfolding chars_numbers distinct_map
proof
  show "inj_on (of_nat :: nat \<Rightarrow> byte) (set ([65..<91] @ [97..<123] @ [48..<58] @ [43, 47]))"
    by (rule inj_on_inverseI [where g = unat]) (auto simp: unsigned_of_nat take_bit_nat_eq_self)
qed simp

lemma find_from_nth: "distinct ds \<Longrightarrow> n < length ds \<Longrightarrow> find_from i (ds ! n) ds = i + of_nat n"
proof (induction ds arbitrary: i n)
  case (Cons d ds)
  then show ?case by (cases n) auto
qed simp

lemma symbol_found:
  fixes i :: byte
  assumes "unat i < 64"
  shows "find_char (chars ! unat i) = i" and "chars ! unat i \<noteq> pad_char" and "is_base64 (chars ! unat i)"
proof -
  show "find_char (chars ! unat i) = i"
    using find_from_nth [OF chars_distinct, of "unat i" 0] assms by (simp add: find_char_def symbols(2))
  show "chars ! unat i \<noteq> pad_char" "is_base64 (chars ! unat i)"
    using symbols(1) assms by (simp_all add: list_all_length symbols(2))
qed

definition syms :: "bytes \<Rightarrow> bytes" where
  "syms = map (\<lambda>i. chars ! unat i)"

lemma syms_found:
  assumes "\<forall>i \<in> set is. unat i < 64"
  shows "map find_char (syms is) = is" and "list_all (\<lambda>c. c \<noteq> pad_char \<and> is_base64 c) (syms is)"
  using assms by (induction "is") (simp_all add: syms_def symbol_found)

text \<open>The symbols that encoding emits before the padding.\<close>

fun symbols_of :: "bytes \<Rightarrow> bytes" where
  "symbols_of (a # b # c # rest) = syms (indices_of [a, b, c]) @ symbols_of rest"
| "symbols_of [] = []"
| "symbols_of [a] = syms (take 2 (indices_of [a, 0, 0]))"
| "symbols_of [a, b] = syms (take 3 (indices_of [a, b, 0]))"

lemma encode_symbols: "\<exists>n. encode bs = symbols_of bs @ replicate n pad_char"
proof (induction bs rule: symbols_of.induct)
  case (1 a b c rest)
  then obtain n where "encode rest = symbols_of rest @ replicate n pad_char" ..
  then show ?case by (intro exI [of _ n]) (simp add: syms_def del: indices_of.simps)
next
  case 2
  show ?case by (intro exI [of _ 0]) simp
next
  case (3 a)
  show ?case by (intro exI [of _ 2]) (simp add: encode_rest_def syms_def numeral_2_eq_2 numeral_3_eq_3 del: indices_of.simps)
next
  case (4 a b)
  show ?case by (intro exI [of _ 1]) (simp add: encode_rest_def syms_def numeral_2_eq_2 numeral_3_eq_3 del: indices_of.simps)
qed

lemma small_indices: "\<forall>i \<in> set (indices_of [a, b, c]). unat i < 64"
  using indices_small by blast

lemma small_take: "\<forall>i \<in> set (take n (indices_of [a, b, c])). unat i < 64"
  using small_indices [of a b c] in_set_takeD by fast

lemma symbols_valid: "list_all (\<lambda>c. c \<noteq> pad_char \<and> is_base64 c) (symbols_of bs)"
proof (induction bs rule: symbols_of.induct)
  case (1 a b c rest)
  then show ?case by (simp add: syms_found(2) [OF small_indices] del: indices_of.simps)
qed (simp_all add: syms_found(2) [OF small_take] numeral_2_eq_2 numeral_3_eq_3 del: indices_of.simps)

lemma decode_group: "decode_symbols (syms (indices_of [a, b, c]) @ rest) = [a, b, c] @ decode_symbols rest"
proof -
  obtain i0 i1 i2 i3 where i: "indices_of [a, b, c] = [i0, i1, i2, i3]" by simp
  from syms_found(1) [OF small_indices, of a b c] group_roundtrip [of a b c] show ?thesis
    unfolding i by (simp add: syms_def del: bytes_of.simps)
qed

lemma decode_tail1: "decode_symbols (syms (take 2 (indices_of [a, 0, 0]))) = [a]"
proof -
  obtain i0 i1 i2 i3 where i: "indices_of [a, 0, 0] = [i0, i1, i2, i3]" by simp
  have "find_char (chars ! unat i0) = i0" "find_char (chars ! unat i1) = i1"
    using syms_found(1) [OF small_indices, of a 0 0] unfolding i by (simp_all add: syms_def)
  with group_roundtrip [of a 0 0] show ?thesis
    unfolding i by (simp add: syms_def decode_rest_def numeral_2_eq_2)
qed

lemma decode_tail2: "decode_symbols (syms (take 3 (indices_of [a, b, 0]))) = [a, b]"
proof -
  obtain i0 i1 i2 i3 where i: "indices_of [a, b, 0] = [i0, i1, i2, i3]" by simp
  have "find_char (chars ! unat i0) = i0" "find_char (chars ! unat i1) = i1" "find_char (chars ! unat i2) = i2"
    using syms_found(1) [OF small_indices, of a b 0] unfolding i by (simp_all add: syms_def)
  with group_roundtrip [of a b 0] show ?thesis
    unfolding i by (simp add: syms_def decode_rest_def numeral_3_eq_3)
qed

lemma decode_symbols_of: "decode_symbols (symbols_of bs) = bs"
proof (induction bs rule: symbols_of.induct)
  case (1 a b c rest)
  then show ?case by (simp add: decode_group del: indices_of.simps)
next
  case (3 a)
  from decode_tail1 [of a] show ?case by (simp add: numeral_2_eq_2 del: indices_of.simps)
next
  case (4 a b)
  from decode_tail2 [of a b] show ?case by (simp add: numeral_3_eq_3 del: indices_of.simps)
qed simp

lemma decode_encode: "decode (encode bs) = bs"
proof -
  obtain n where "encode bs = symbols_of bs @ replicate n pad_char" using encode_symbols by blast
  moreover have "takeWhile (\<lambda>c. c \<noteq> pad_char \<and> is_base64 c) (symbols_of bs @ replicate n pad_char) = symbols_of bs"
    using symbols_valid [of bs] by (cases n) (simp_all add: list_all_iff takeWhile_append2)
  ultimately show ?thesis by (simp add: decode_def decode_symbols_of)
qed

text \<open>Decoding gets back what was encoded, for every sequence of bytes.\<close>

theorem base64_roundtrip: "decode (encode bs) = bs"
  by (rule decode_encode)

end
