(* ===== verification/Json.thy ===== *)
theory Json
  imports Prelude "HOL-Library.AList"
begin

text \<open>
  The part of \<^verbatim>\<open>nlohmann::json\<close> that the program uses on a parsed request: values, and the
  documented behaviour of access and conversion.  Numbers are integers.
\<close>

datatype json =
    Null | Boolean bool | Number int | String string | Array "json list" | Object "(string \<times> json) list"

text \<open>\<open>at\<close> throws; \<open>operator[]\<close> on a constant object asserts that the key is there.\<close>

definition json_at :: "string \<Rightarrow> json \<Rightarrow> json result" where
  "json_at key j =
     (case j of Object kvs \<Rightarrow> (case map_of kvs key of None \<Rightarrow> Inl Json_out_of_range | Some v \<Rightarrow> Inr v)
      | _ \<Rightarrow> Inl Json_type_error)"

definition json_index :: "string \<Rightarrow> json \<Rightarrow> json result" where
  "json_index key j =
     (case j of Object kvs \<Rightarrow> (case map_of kvs key of None \<Rightarrow> Inl Assert_failed | Some v \<Rightarrow> Inr v)
      | _ \<Rightarrow> Inl Json_type_error)"

definition json_size :: "json \<Rightarrow> nat" where
  "json_size j = (case j of Null \<Rightarrow> 0 | Array xs \<Rightarrow> length xs | Object kvs \<Rightarrow> length kvs | _ \<Rightarrow> 1)"

text \<open>What a range-based \<open>for\<close> visits: a primitive value is its own single element.\<close>

definition json_elements :: "json \<Rightarrow> json list" where
  "json_elements j = (case j of Null \<Rightarrow> [] | Array xs \<Rightarrow> xs | Object kvs \<Rightarrow> map snd kvs | _ \<Rightarrow> [j])"

definition is_string :: "json \<Rightarrow> bool" where
  "is_string j = (case j of String _ \<Rightarrow> True | _ \<Rightarrow> False)"

definition get_string :: "json \<Rightarrow> string result" where
  "get_string j = (case j of String s \<Rightarrow> Inr s | _ \<Rightarrow> Inl Json_type_error)"

text \<open>
  A conversion to a number converts its bits, as a \<open>static_cast\<close> does.  The widest types take numbers
  only, the others booleans too.
\<close>

definition get_number :: "json \<Rightarrow> ('w :: len) word result" where
  "get_number j = (case j of Number n \<Rightarrow> Inr (word_of_int n) | _ \<Rightarrow> Inl Json_type_error)"

definition get_int :: "json \<Rightarrow> ('w :: len) word result" where
  "get_int j = (case j of Boolean b \<Rightarrow> Inr (if b then 1 else 0) | _ \<Rightarrow> get_number j)"

definition json_string_at :: "string \<Rightarrow> json \<Rightarrow> string result" where
  "json_string_at key j = (case json_at key j of Inl e \<Rightarrow> Inl e | Inr v \<Rightarrow> get_string v)"

definition json_number_at :: "string \<Rightarrow> json \<Rightarrow> ('w :: len) word result" where
  "json_number_at key j = (case json_at key j of Inl e \<Rightarrow> Inl e | Inr v \<Rightarrow> get_number v)"

text \<open>An element of a constant array is read without a check; \<open>operator[]\<close> of a variable enters a missing key.\<close>

definition json_item :: "nat \<Rightarrow> json \<Rightarrow> json result" where
  "json_item i j =
     (case j of Array xs \<Rightarrow> (if i < length xs then Inr (xs ! i) else Inl (Undefined ''json array index''))
      | _ \<Rightarrow> Inl Json_type_error)"

definition json_entry :: "string \<Rightarrow> json \<Rightarrow> json result" where
  "json_entry key j =
     (case j of Object kvs \<Rightarrow> Inr (case map_of kvs key of None \<Rightarrow> Null | Some v \<Rightarrow> v)
      | Null \<Rightarrow> Inr Null
      | _ \<Rightarrow> Inl Json_type_error)"

definition json_set :: "string \<Rightarrow> json \<Rightarrow> json \<Rightarrow> json" where
  "json_set key v j = (case j of Object kvs \<Rightarrow> Object (AList.update key v kvs) | _ \<Rightarrow> Object [(key, v)])"

end
