(* ===== verification/Fhe.thy ===== *)
theory Fhe
  imports Ast R1cs Block Base64 Json
begin

text \<open>
  \<^verbatim>\<open>src/src/computer/fhe_computation.cpp\<close> and \<^verbatim>\<open>src/src/computer/fhe_computer.cpp\<close>: a
  computation on encrypted inputs, its evaluation along the expression tree, and its proof.

  OpenFHE, the zkOpenFHE proof system, libsnark, libff and libiop are the record \<open>fhe_lib\<close>; the
  proof system is a state that every recorded operation updates.  The stop flag of a computer is
  constant during a call.  A walk over the tree is a partial function: \<open>None\<close> is a walk that
  does not end; where a value is needed it is read as undefined behaviour.
\<close>

subsection \<open>The libraries\<close>

text \<open>The operations on ciphertexts, over a state: of the crypto context (none), or of the proof system.\<close>

record ('ct, 's) backend =
  Relinearize :: "'ct \<Rightarrow> 's \<Rightarrow> ('ct \<times> 's) result"
  Rescale :: "'ct \<Rightarrow> 's \<Rightarrow> ('ct \<times> 's) result"
  EvalAdd :: "'ct \<Rightarrow> 'ct \<Rightarrow> 's \<Rightarrow> ('ct \<times> 's) result"
  EvalSub :: "'ct \<Rightarrow> 'ct \<Rightarrow> 's \<Rightarrow> ('ct \<times> 's) result"
  EvalMultNoRelin :: "'ct \<Rightarrow> 'ct \<Rightarrow> 's \<Rightarrow> ('ct \<times> 's) result"

datatype proofsystem_mode = CONSTRAINT_GENERATION | WITNESS_GENERATION

text \<open>The parameters of the Aurora protocol; enumerators of libiop stand for themselves by name.\<close>

record aurora_snark_parameters =
  security_parameter :: nat
  ldt_reducer_soundness_type :: string
  fri_soundness_type :: string
  bcs_hash_type :: string
  FRI_localization_parameter :: nat
  RS_extra_dimensions :: nat
  make_zk :: bool
  domain_type :: string
  ap_constraints :: u64
  ap_variables :: u64

record ('cc, 'ct, 'pk, 'ps, 'vars, 'f, 'arg) fhe_lib =
  context_of :: "'ct \<Rightarrow> 'cc"
  context_ops :: "'cc \<Rightarrow> ('ct, unit) backend"
  EncryptZeroDeterministic :: "'cc \<Rightarrow> 'pk \<Rightarrow> bytes \<Rightarrow> 'ct result"
  ser_ct :: "'ct \<Rightarrow> bytes"
  de_ct :: "bytes \<Rightarrow> 'ct result"
  ser_pk :: "'pk \<Rightarrow> bytes"
  de_pk :: "bytes \<Rightarrow> 'pk result"
  SerializeEvalMultKey :: "'cc \<Rightarrow> bytes"
  DeserializeEvalMultKey :: "'cc \<Rightarrow> bytes \<Rightarrow> unit result"
  new_ps :: "'cc \<Rightarrow> 'ps"
  SetMode :: "proofsystem_mode \<Rightarrow> 'ps \<Rightarrow> 'ps"
  PublicInput :: "'ct \<Rightarrow> 'ps \<Rightarrow> 'ps result"
  ConstrainPublicOutput :: "'ct \<Rightarrow> 'ps \<Rightarrow> ('vars \<times> 'ps) result"
  ps_ops :: "('ct, 'ps) backend"
  FinalizeOutputConstraints :: "'ct \<Rightarrow> 'vars \<Rightarrow> 'ps \<Rightarrow> 'ps result"
  get_constraint_system :: "'ps \<Rightarrow> 'f ls_system"
  primary_input :: "'ps \<Rightarrow> 'f list"
  auxiliary_input :: "'ps \<Rightarrow> 'f list"
  ff_log2 :: "nat \<Rightarrow> nat"
  lc_const :: "int \<Rightarrow> 'f liop_term list"
  aurora_snark_prover :: "'f liop_system \<Rightarrow> 'f list \<Rightarrow> 'f list \<Rightarrow> aurora_snark_parameters \<Rightarrow> 'arg result"
  aurora_snark_verifier :: "'f liop_system \<Rightarrow> 'f list \<Rightarrow> 'arg \<Rightarrow> aurora_snark_parameters \<Rightarrow> bool"
  ser_arg :: "'arg \<Rightarrow> bytes"
  de_arg :: "bytes \<Rightarrow> 'arg result"

subsection \<open>FHEComputation\<close>

record ('ct, 'pk) fhe_computation =
  expression :: string
  publicKey :: 'pk
  ciphertexts :: "'ct list"
  fc_timestamp :: u64
  unbound_ciphertexts_archive :: "'ct list"
  is_bound :: bool

definition GetCryptoContext ::
  "('cc, 'ct, 'pk, 'ps, 'vars, 'f, 'arg) fhe_lib \<Rightarrow> ('ct, 'pk) fhe_computation \<Rightarrow> 'cc result" where
  "GetCryptoContext lib fc =
     (case ciphertexts fc of [] \<Rightarrow> Inl (Undefined ''first of no ciphertexts'') | c # _ \<Rightarrow> Inr (context_of lib c))"

text \<open>The counter is copied into the buffer as it is in memory, least significant byte first.\<close>

definition counter_and_data :: "nat \<Rightarrow> bytes \<Rightarrow> bytes" where
  "counter_and_data i data = rev (uint64_to_vector_big_endian (word_of_nat i)) @ data"

fun bind_from ::
  "('cc, 'ct, 'pk, 'ps, 'vars, 'f, 'arg) fhe_lib \<Rightarrow> 'cc \<Rightarrow> 'pk \<Rightarrow> bytes \<Rightarrow> nat \<Rightarrow> 'ct list \<Rightarrow> 'ct list result" where
  "bind_from lib cc pk data i [] = Inr []"
| "bind_from lib cc pk data i (c # cs) =
     (case EncryptZeroDeterministic lib cc pk (counter_and_data i data) of Inl e \<Rightarrow> Inl e
      | Inr z \<Rightarrow>
          (case EvalAdd (context_ops lib cc) z c () of Inl e \<Rightarrow> Inl e
           | Inr (c', _) \<Rightarrow> map_sum id (Cons c') (bind_from lib cc pk data (i + 1) cs)))"

text \<open>The ciphertexts as they came are archived once; every call adds to what the last one left.\<close>

definition bind_inputs_to_data ::
  "('cc, 'ct, 'pk, 'ps, 'vars, 'f, 'arg) fhe_lib \<Rightarrow> bytes \<Rightarrow> ('ct, 'pk) fhe_computation \<Rightarrow> ('ct, 'pk) fhe_computation result" where
  "bind_inputs_to_data lib data fc =
     (let fc1 = (if is_bound fc then fc
                   else fc\<lparr>unbound_ciphertexts_archive := ciphertexts fc, is_bound := True\<rparr>)
      in case GetCryptoContext lib fc1 of Inl e \<Rightarrow> Inl e
      | Inr cc \<Rightarrow>
          map_sum id (\<lambda>cts. fc1\<lparr>ciphertexts := cts\<rparr>) (bind_from lib cc (publicKey fc1) data 0 (ciphertexts fc1)))"

definition string_bytes :: "string \<Rightarrow> bytes" where
  "string_bytes = map of_char"

definition original_ciphertexts :: "('ct, 'pk) fhe_computation \<Rightarrow> 'ct list" where
  "original_ciphertexts fc = (if is_bound fc then unbound_ciphertexts_archive fc else ciphertexts fc)"

definition computation_serialize ::
  "('cc, 'ct, 'pk, 'ps, 'vars, 'f, 'arg) fhe_lib \<Rightarrow> ('ct, 'pk) fhe_computation \<Rightarrow> bytes result" where
  "computation_serialize lib fc =
     (case GetCryptoContext lib fc of Inl e \<Rightarrow> Inl e
      | Inr cc \<Rightarrow> Inr
         (uint64_to_vector_big_endian (fc_timestamp fc) @ sized (string_bytes (expression fc)) @
          sized (ser_pk lib (publicKey fc)) @ sized (SerializeEvalMultKey lib cc) @
          uint64_to_vector_big_endian (word_of_nat (length (ciphertexts fc))) @
          concat (map (\<lambda>c. sized (ser_ct lib c)) (original_ciphertexts fc))))"

text \<open>The constructor from a request; strings in it are encoded in base 64.\<close>

definition decoded_at :: "string \<Rightarrow> json \<Rightarrow> bytes result" where
  "decoded_at key j = map_sum id (\<lambda>s. decode (string_bytes s)) (json_string_at key j)"

definition ciphertext_from_json ::
  "('cc, 'ct, 'pk, 'ps, 'vars, 'f, 'arg) fhe_lib \<Rightarrow> json \<Rightarrow> 'ct result" where
  "ciphertext_from_json lib c =
     (case c of String s \<Rightarrow> de_ct lib (decode (string_bytes s))
      | _ \<Rightarrow> Inl (Invalid_argument ''Ciphertexts must be strings.''))"

definition FHEComputation ::
  "('cc, 'ct, 'pk, 'ps, 'vars, 'f, 'arg) fhe_lib \<Rightarrow> json \<Rightarrow> ('ct, 'pk) fhe_computation result" where
  "FHEComputation lib j =
     (case json_string_at ''expression'' j of Inl e \<Rightarrow> Inl e
      | Inr expr \<Rightarrow>
     (case json_number_at ''timestamp'' j of Inl e \<Rightarrow> Inl e
      | Inr ts \<Rightarrow>
     (case json_index ''ciphertexts'' j of Inl e \<Rightarrow> Inl e
      | Inr jcts \<Rightarrow>
          if json_size jcts = 0 then Inl (Invalid_argument ''No ciphertexts in computation JSON.'')
          else case map_res (ciphertext_from_json lib) (json_elements jcts) of Inl e \<Rightarrow> Inl e
     | Inr cts \<Rightarrow>
     (case (if CHR ''*'' \<in> set expr
            then case decoded_at ''eval_mult_key'' j of Inl e \<Rightarrow> Inl e
                 | Inr k \<Rightarrow> DeserializeEvalMultKey lib (context_of lib (cts ! 0)) k
            else Inr ()) of Inl e \<Rightarrow> Inl e
      | Inr _ \<Rightarrow>
     (case decoded_at ''public_key'' j of Inl e \<Rightarrow> Inl e
      | Inr p \<Rightarrow>
          map_sum id (\<lambda>pk. \<lparr>expression = expr, publicKey = pk, ciphertexts = cts, fc_timestamp = ts,
                            unbound_ciphertexts_archive = [], is_bound = False\<rparr>) (de_pk lib p))))))"

record proto_computation =
  pc_expression :: string
  pc_public_key :: bytes
  pc_evalmult_key :: bytes
  pc_timestamp :: u64
  pc_ciphertexts :: "bytes list"
  pc_proof :: bytes
  pc_output :: bytes

definition computation_from_proto ::
  "('cc, 'ct, 'pk, 'ps, 'vars, 'f, 'arg) fhe_lib \<Rightarrow> proto_computation \<Rightarrow> ('ct, 'pk) fhe_computation result" where
  "computation_from_proto lib proto =
     (case de_pk lib (pc_public_key proto) of Inl e \<Rightarrow> Inl e
      | Inr pk \<Rightarrow>
          (case map_res (de_ct lib) (pc_ciphertexts proto) of Inl e \<Rightarrow> Inl e
           | Inr cts \<Rightarrow>
               (let fc = \<lparr>expression = pc_expression proto, publicKey = pk, ciphertexts = cts,
                            fc_timestamp = pc_timestamp proto, unbound_ciphertexts_archive = [], is_bound = False\<rparr>
                in if pc_evalmult_key proto = [] then Inr fc
                   else case GetCryptoContext lib fc of Inl e \<Rightarrow> Inl e
                   | Inr cc \<Rightarrow> map_sum id (\<lambda>_. fc) (DeserializeEvalMultKey lib cc (pc_evalmult_key proto)))))"

subsection \<open>Evaluation\<close>

definition ciphertext_at :: "'ct list \<Rightarrow> int \<Rightarrow> 'ct result" where
  "ciphertext_at cts v = (if 0 \<le> v \<and> nat v < length cts then Inr (cts ! nat v) else Inl Out_of_range)"

text \<open>Relinearising and rescaling a ciphertext a number of times.\<close>

fun lower :: "('ct, 's) backend \<Rightarrow> nat \<Rightarrow> 'ct \<Rightarrow> 's \<Rightarrow> ('ct \<times> 's) result" where
  "lower bk 0 c s = Inr (c, s)"
| "lower bk (Suc n) c s =
     (case Relinearize bk c s of Inl e \<Rightarrow> Inl e
      | Inr (c1, s1) \<Rightarrow> (case Rescale bk c1 s1 of Inl e \<Rightarrow> Inl e | Inr (c2, s2) \<Rightarrow> lower bk n c2 s2))"

text \<open>One operator on the values of its children; the shallower child is lowered first.\<close>

definition apply_operator ::
  "('ct, 's) backend \<Rightarrow> string \<Rightarrow> int \<Rightarrow> 'ct \<Rightarrow> 'ct \<Rightarrow> 's \<Rightarrow> ('ct \<times> 's) result" where
  "apply_operator bk op depth_diff c_left c_right s =
     (case (if depth_diff > 0 then map_sum id (\<lambda>(c, s). (c_left, c, s)) (lower bk (nat depth_diff) c_right s)
            else map_sum id (\<lambda>(c, s). (c, c_right, s)) (lower bk (nat (- depth_diff)) c_left s)) of
        Inl e \<Rightarrow> Inl e
      | Inr (l, r, s') \<Rightarrow>
          if op = ''+'' then EvalAdd bk l r s'
          else if op = ''-'' then EvalSub bk l r s'
          else if op = ''*'' then EvalMultNoRelin bk l r s'
          else Inl (Invalid_argument ''Invalid op in ASTNode.''))"

partial_function (option) eval ::
  "('ct, 's) backend \<Rightarrow> bool \<Rightarrow> 'ct list \<Rightarrow> ast_heap \<Rightarrow> nat \<Rightarrow> 's \<Rightarrow> ('ct \<times> 's) result option" where
  "eval bk stop_flag cts h node s =
     (if stop_flag then Some (Inl Out_of_range)
      else if is_leaf (h node) then Some (map_sum id (\<lambda>c. (c, s)) (ciphertext_at cts (val_of (h node))))
      else case left_child (h node) of
        None \<Rightarrow> Some (Inl (Runtime_error ''Internal ASTNode should have both chldren.''))
      | Some l \<Rightarrow>
          (case right_child (h node) of
             None \<Rightarrow> Some (Inl (Runtime_error ''Internal ASTNode should have both chldren.''))
           | Some r \<Rightarrow>
               Option.bind (eval bk stop_flag cts h l s) (\<lambda>res_l. case res_l of Inl e \<Rightarrow> Some (Inl e)
               | Inr (c_left, s1) \<Rightarrow>
                   Option.bind (eval bk stop_flag cts h r s1) (\<lambda>res_r. case res_r of Inl e \<Rightarrow> Some (Inl e)
                   | Inr (c_right, s2) \<Rightarrow>
                       Some (apply_operator bk (op_of (h node)) (node_depth (h l) - node_depth (h r)) c_left c_right s2)))))"

declare eval.simps [code]

text \<open>Every ciphertext that occurs is declared once, in the order of the leaves; \<open>seen\<close> are the declared ones.\<close>

partial_function (option) init_public_input ::
  "('cc, 'ct, 'pk, 'ps, 'vars, 'f, 'arg) fhe_lib \<Rightarrow> 'ct list \<Rightarrow> ast_heap \<Rightarrow> nat \<Rightarrow> int list \<times> 'ps \<Rightarrow> (int list \<times> 'ps) result option" where
  "init_public_input lib cts h node st =
     (if is_leaf (h node) then
        (let v = val_of (h node)
         in if v \<in> set (fst st) then Some (Inr st)
            else Some (case ciphertext_at cts v of Inl e \<Rightarrow> Inl e
                       | Inr c \<Rightarrow> map_sum id (\<lambda>ps. (v # fst st, ps)) (PublicInput lib c (snd st))))
      else case left_child (h node) of
        None \<Rightarrow> Some (Inl (Runtime_error ''Internal ASTNode should have both chldren.''))
      | Some l \<Rightarrow>
          (case right_child (h node) of
             None \<Rightarrow> Some (Inl (Runtime_error ''Internal ASTNode should have both chldren.''))
           | Some r \<Rightarrow>
               Option.bind (init_public_input lib cts h l st) (\<lambda>res. case res of Inl e \<Rightarrow> Some (Inl e)
               | Inr st1 \<Rightarrow> init_public_input lib cts h r st1)))"

declare init_public_input.simps [code]

text \<open>A walk that does not end has no defined value.\<close>

definition ended :: "'a result option \<Rightarrow> 'a result" where
  "ended r = (case r of None \<Rightarrow> Inl (Undefined ''walk over the tree does not end'') | Some x \<Rightarrow> x)"

subsection \<open>FHEComputer\<close>

record ('ct, 'pk, 'ps) fhe_computer =
  computation :: "('ct, 'pk) fhe_computation"
  c_ast :: ast
  c_ps :: "'ps option"
  c_proof :: bytes
  last_res :: "'ct option"
  stop_flag :: bool
  comp_hash :: "bytes option"

text \<open>The context of the computation is fetched for every operation.\<close>

definition context_backend ::
  "('cc, 'ct, 'pk, 'ps, 'vars, 'f, 'arg) fhe_lib \<Rightarrow> ('ct, 'pk) fhe_computation \<Rightarrow> ('ct, unit) backend" where
  "context_backend lib fc =
     (case GetCryptoContext lib fc of
        Inl e \<Rightarrow> \<lparr>Relinearize = (\<lambda>_ _. Inl e), Rescale = (\<lambda>_ _. Inl e), EvalAdd = (\<lambda>_ _ _. Inl e),
                  EvalSub = (\<lambda>_ _ _. Inl e), EvalMultNoRelin = (\<lambda>_ _ _. Inl e)\<rparr>
      | Inr cc \<Rightarrow> context_ops lib cc)"

definition FHEComputer_of :: "('ct, 'pk) fhe_computation \<Rightarrow> ('ct, 'pk, 'ps) fhe_computer result" where
  "FHEComputer_of fc =
     map_sum id (\<lambda>t. \<lparr>computation = fc, c_ast = t, c_ps = None, c_proof = [], last_res = None, stop_flag = False, comp_hash = None\<rparr>)
       (ended (ASTree (expression fc)))"

definition FHEComputer ::
  "('cc, 'ct, 'pk, 'ps, 'vars, 'f, 'arg) fhe_lib \<Rightarrow> json \<Rightarrow> ('ct, 'pk, 'ps) fhe_computer result" where
  "FHEComputer lib comp_json = (case FHEComputation lib comp_json of Inl e \<Rightarrow> Inl e | Inr fc \<Rightarrow> FHEComputer_of fc)"

text \<open>The walks start at the root of the tree.\<close>

definition root_of :: "('ct, 'pk, 'ps) fhe_computer \<Rightarrow> nat result" where
  "root_of c = (case ast_root (c_ast c) of None \<Rightarrow> Inl (Undefined ''null root'') | Some r \<Rightarrow> Inr r)"

definition eval_root :: "('ct, 's) backend \<Rightarrow> ('ct, 'pk, 'ps) fhe_computer \<Rightarrow> 's \<Rightarrow> ('ct \<times> 's) result" where
  "eval_root bk c s =
     (if stop_flag c then Inl Out_of_range
      else case root_of c of Inl e \<Rightarrow> Inl e
      | Inr r \<Rightarrow> ended (eval bk (stop_flag c) (ciphertexts (computation c)) (ast_nodes (c_ast c)) r s))"

definition evaluate ::
  "('cc, 'ct, 'pk, 'ps, 'vars, 'f, 'arg) fhe_lib \<Rightarrow> ('ct, 'pk, 'ps) fhe_computer \<Rightarrow> ('ct \<times> ('ct, 'pk, 'ps) fhe_computer) result" where
  "evaluate lib c =
     map_sum id (\<lambda>(ct, _). (ct, c\<lparr>last_res := Some ct\<rparr>)) (eval_root (context_backend lib (computation c)) c ())"

text \<open>The public inputs are declared in a new mode, with nothing seen.\<close>

definition declare_inputs ::
  "('cc, 'ct, 'pk, 'ps, 'vars, 'f, 'arg) fhe_lib \<Rightarrow> proofsystem_mode \<Rightarrow> ('ct, 'pk, 'ps) fhe_computer \<Rightarrow> 'ps \<Rightarrow> 'ps result" where
  "declare_inputs lib mode c ps =
     (case root_of c of Inl e \<Rightarrow> Inl e
      | Inr r \<Rightarrow> map_sum id snd
          (ended (init_public_input lib (ciphertexts (computation c)) (ast_nodes (c_ast c)) r ([], SetMode lib mode ps))))"

definition generate_constraints ::
  "('cc, 'ct, 'pk, 'ps, 'vars, 'f, 'arg) fhe_lib \<Rightarrow> bool \<Rightarrow> ('ct, 'pk, 'ps) fhe_computer \<Rightarrow> ('ct, 'pk, 'ps) fhe_computer result" where
  "generate_constraints lib eval_output c =
     (case GetCryptoContext lib (computation c) of Inl e \<Rightarrow> Inl e
      | Inr cc \<Rightarrow>
     (case (if eval_output then evaluate lib c
            else case last_res c of None \<Rightarrow> Inl (Undefined ''null output ciphertext'') | Some ct \<Rightarrow> Inr (ct, c)) of Inl e \<Rightarrow> Inl e
      | Inr (out, c1) \<Rightarrow>
     (case declare_inputs lib CONSTRAINT_GENERATION c1 (new_ps lib cc) of Inl e \<Rightarrow> Inl e
      | Inr ps1 \<Rightarrow>
     (case ConstrainPublicOutput lib out ps1 of Inl e \<Rightarrow> Inl e
      | Inr (vars_out, ps2) \<Rightarrow>
     (case eval_root (ps_ops lib) c1 ps2 of Inl e \<Rightarrow> Inl e
      | Inr (out', ps3) \<Rightarrow>
          map_sum id (\<lambda>ps4. c1\<lparr>c_ps := Some ps4\<rparr>) (FinalizeOutputConstraints lib out' vars_out ps3))))))"

text \<open>Never called: the constraints are generated together with their witness.\<close>

definition generate_witness ::
  "('cc, 'ct, 'pk, 'ps, 'vars, 'f, 'arg) fhe_lib \<Rightarrow> ('ct, 'pk, 'ps) fhe_computer \<Rightarrow> ('ct, 'pk, 'ps) fhe_computer result" where
  "generate_witness lib c =
     (case c_ps c of None \<Rightarrow> Inl (Undefined ''null proof system'')
      | Some ps \<Rightarrow>
          (case declare_inputs lib WITNESS_GENERATION c ps of Inl e \<Rightarrow> Inl e
           | Inr ps1 \<Rightarrow> map_sum id (\<lambda>(_, ps2). c\<lparr>c_ps := Some ps2\<rparr>) (eval_root (ps_ops lib) c ps1)))"

text \<open>The padded system with its inputs, and the parameters of the protocol for it.\<close>

definition aurora_instance ::
  "('cc, 'ct, 'pk, 'ps, 'vars, 'f :: zero, 'arg) fhe_lib \<Rightarrow> 'ps \<Rightarrow> 'f liop_system \<times> 'f list \<times> 'f list" where
  "aurora_instance lib ps =
     (let cs0 = libsnark_to_libiop_r1cs_constraint_system (get_constraint_system lib ps)
                  \<lparr>li_primary_input_size = 0, li_auxiliary_input_size = 0, li_constraints = []\<rparr>;
          cs = pad_constraint_system_for_aurora (ff_log2 lib) (lc_const lib) cs0
      in (cs, pad_primary_input_to_match_cs cs (primary_input lib ps), pad_auxiliary_input_to_match_cs cs (auxiliary_input lib ps)))"

definition aurora_params :: "'f liop_system \<Rightarrow> aurora_snark_parameters" where
  "aurora_params cs =
     \<lparr>security_parameter = 128, ldt_reducer_soundness_type = ''optimistic_heuristic'', fri_soundness_type = ''heuristic'',
      bcs_hash_type = ''blake2b_type'', FRI_localization_parameter = 3, RS_extra_dimensions = 2, make_zk = False,
      domain_type = ''affine_subspace_type'', ap_constraints = num_constraints cs, ap_variables = num_variables cs\<rparr>"

definition generate_argument ::
  "('cc, 'ct, 'pk, 'ps, 'vars, 'f :: zero, 'arg) fhe_lib \<Rightarrow> ('ct, 'pk, 'ps) fhe_computer \<Rightarrow> 'arg result" where
  "generate_argument lib c =
     (case c_ps c of None \<Rightarrow> Inl (Undefined ''null proof system'')
      | Some ps \<Rightarrow> (let (cs, prim, aux) = aurora_instance lib ps in aurora_snark_prover lib cs prim aux (aurora_params cs)))"

definition verify_argument ::
  "('cc, 'ct, 'pk, 'ps, 'vars, 'f :: zero, 'arg) fhe_lib \<Rightarrow> 'arg \<Rightarrow> ('ct, 'pk, 'ps) fhe_computer \<Rightarrow> bool result" where
  "verify_argument lib argument c =
     (case c_ps c of None \<Rightarrow> Inl (Undefined ''null proof system'')
      | Some ps \<Rightarrow> (let (cs, prim, aux) = aurora_instance lib ps
                   in Inr (aurora_snark_verifier lib cs prim argument (aurora_params cs))))"

subsection \<open>The methods of Computation\<close>

definition bind_to_data ::
  "('cc, 'ct, 'pk, 'ps, 'vars, 'f, 'arg) fhe_lib \<Rightarrow> bytes \<Rightarrow> ('ct, 'pk, 'ps) fhe_computer \<Rightarrow> ('ct, 'pk, 'ps) fhe_computer result" where
  "bind_to_data lib data c = map_sum id (\<lambda>fc. c\<lparr>computation := fc\<rparr>) (bind_inputs_to_data lib data (computation c))"

definition computer_proof :: "('ct, 'pk, 'ps) fhe_computer \<Rightarrow> bytes result" where
  "computer_proof c = (if length (c_proof c) = 0 then Inl Out_of_range else Inr (c_proof c))"

definition generate_proof ::
  "('cc, 'ct, 'pk, 'ps, 'vars, 'f :: zero, 'arg) fhe_lib \<Rightarrow> ('ct, 'pk, 'ps) fhe_computer \<Rightarrow> ('ct, 'pk, 'ps) fhe_computer result" where
  "generate_proof lib c =
     (case generate_constraints lib True c of Inl e \<Rightarrow> Inl e
      | Inr c1 \<Rightarrow> map_sum id (\<lambda>arg. c1\<lparr>c_proof := ser_arg lib arg\<rparr>) (generate_argument lib c1))"

definition verify_proof ::
  "('cc, 'ct, 'pk, 'ps, 'vars, 'f :: zero, 'arg) fhe_lib \<Rightarrow> bytes \<Rightarrow> ('ct, 'pk, 'ps) fhe_computer \<Rightarrow>
     (bool \<times> ('ct, 'pk, 'ps) fhe_computer) result" where
  "verify_proof lib proof c =
     (case generate_constraints lib False c of Inl e \<Rightarrow> Inl e
      | Inr c1 \<Rightarrow>
          (case de_arg lib proof of Inl e \<Rightarrow> Inl e
           | Inr arg \<Rightarrow> map_sum id (\<lambda>ok. (ok, c1)) (verify_argument lib arg c1)))"

text \<open>The depth is an \<open>int\<close>, converted to \<open>uint32_t\<close>.\<close>

definition difficulty :: "('ct, 'pk, 'ps) fhe_computer \<Rightarrow> u32 result" where
  "difficulty c = map_sum id (\<lambda>r. word_of_int (node_depth (ast_nodes (c_ast c) r))) (root_of c)"

definition computer_output ::
  "('cc, 'ct, 'pk, 'ps, 'vars, 'f, 'arg) fhe_lib \<Rightarrow> ('ct, 'pk, 'ps) fhe_computer \<Rightarrow> (bytes \<times> ('ct, 'pk, 'ps) fhe_computer) result" where
  "computer_output lib c =
     (case last_res c of Some ct \<Rightarrow> Inr (ser_ct lib ct, c)
      | None \<Rightarrow> map_sum id (\<lambda>(ct, c1). (ser_ct lib ct, c1)) (evaluate lib c))"

definition computer_serialize ::
  "('cc, 'ct, 'pk, 'ps, 'vars, 'f, 'arg) fhe_lib \<Rightarrow> bool \<Rightarrow> ('ct, 'pk, 'ps) fhe_computer \<Rightarrow>
     (bytes \<times> ('ct, 'pk, 'ps) fhe_computer) result" where
  "computer_serialize lib include_output c =
     (if include_output
      then case computer_output lib c of Inl e \<Rightarrow> Inl e
           | Inr (out, c1) \<Rightarrow> map_sum id (\<lambda>s. (sized out @ s, c1)) (computation_serialize lib (computation c1))
      else map_sum id (\<lambda>s. (s, c)) (computation_serialize lib (computation c)))"

definition serialize_for_hash ::
  "('cc, 'ct, 'pk, 'ps, 'vars, 'f, 'arg) fhe_lib \<Rightarrow> ('ct, 'pk, 'ps) fhe_computer \<Rightarrow> bytes result" where
  "serialize_for_hash lib c = computation_serialize lib (computation c)"

definition computer_hash_force ::
  "('cc, 'ct, 'pk, 'ps, 'vars, 'f, 'arg) fhe_lib \<Rightarrow> hash_fun \<Rightarrow> ('ct, 'pk, 'ps) fhe_computer \<Rightarrow>
     (bytes \<times> ('ct, 'pk, 'ps) fhe_computer) result" where
  "computer_hash_force lib gh c = map_sum id (\<lambda>s. (gh s, c\<lparr>comp_hash := Some (gh s)\<rparr>)) (serialize_for_hash lib c)"

definition computer_hash ::
  "('cc, 'ct, 'pk, 'ps, 'vars, 'f, 'arg) fhe_lib \<Rightarrow> hash_fun \<Rightarrow> ('ct, 'pk, 'ps) fhe_computer \<Rightarrow>
     (bytes \<times> ('ct, 'pk, 'ps) fhe_computer) result" where
  "computer_hash lib gh c = (case comp_hash c of Some h \<Rightarrow> Inr (h, c) | None \<Rightarrow> computer_hash_force lib gh c)"

definition set_stop_flag :: "bool \<Rightarrow> ('ct, 'pk, 'ps) fhe_computer \<Rightarrow> ('ct, 'pk, 'ps) fhe_computer" where
  "set_stop_flag flag c = c\<lparr>stop_flag := flag\<rparr>"

definition computer_to_proto ::
  "('cc, 'ct, 'pk, 'ps, 'vars, 'f, 'arg) fhe_lib \<Rightarrow> ('ct, 'pk, 'ps) fhe_computer \<Rightarrow> proto_computation result" where
  "computer_to_proto lib c =
     (case GetCryptoContext lib (computation c) of Inl e \<Rightarrow> Inl e
      | Inr cc \<Rightarrow> Inr
         \<lparr>pc_expression = expression (computation c), pc_public_key = ser_pk lib (publicKey (computation c)),
          pc_evalmult_key = SerializeEvalMultKey lib cc, pc_timestamp = fc_timestamp (computation c),
          pc_ciphertexts = map (ser_ct lib) (original_ciphertexts (computation c)), pc_proof = c_proof c,
          pc_output = (case last_res c of None \<Rightarrow> [] | Some ct \<Rightarrow> ser_ct lib ct)\<rparr>)"

definition computer_from_proto ::
  "('cc, 'ct, 'pk, 'ps, 'vars, 'f, 'arg) fhe_lib \<Rightarrow> proto_computation \<Rightarrow> ('ct, 'pk, 'ps) fhe_computer result" where
  "computer_from_proto lib proto =
     (case computation_from_proto lib proto of Inl e \<Rightarrow> Inl e
      | Inr fc \<Rightarrow>
          (case FHEComputer_of fc of Inl e \<Rightarrow> Inl e
           | Inr c \<Rightarrow>
               map_sum id (\<lambda>res. c\<lparr>last_res := res, c_proof := pc_proof proto\<rparr>)
                 (if pc_output proto = [] then Inr None else map_sum id Some (de_ct lib (pc_output proto)))))"

text \<open>
  The class as an instance of the interface.  The interface has no failure for difficulty, hash and
  message; of a computation without ciphertexts, where the code reads past a vector, some value is taken.
\<close>

definition defined_or :: "'a \<Rightarrow> 'a result \<Rightarrow> 'a" where
  "defined_or d r = (case r of Inl _ \<Rightarrow> d | Inr x \<Rightarrow> x)"

definition fhe_ops ::
  "('cc, 'ct, 'pk, 'ps, 'vars, 'f :: zero, 'arg) fhe_lib \<Rightarrow> hash_fun \<Rightarrow>
     (('ct, 'pk, 'ps) fhe_computer, proto_computation) computation_ops" where
  "fhe_ops lib gh =
     \<lparr>co_serialize = computer_serialize lib,
      co_hash = (\<lambda>c. defined_or [] (map_sum id fst (computer_hash lib gh c))),
      co_proof = computer_proof,
      co_verify_proof = verify_proof lib,
      co_generate_proof = generate_proof lib,
      co_bind_to_data = bind_to_data lib,
      co_output = computer_output lib,
      co_difficulty = (\<lambda>c. defined_or 0 (difficulty c)),
      co_to_proto = (\<lambda>c. defined_or \<lparr>pc_expression = [], pc_public_key = [], pc_evalmult_key = [], pc_timestamp = 0,
                                   pc_ciphertexts = [], pc_proof = [], pc_output = []\<rparr> (computer_to_proto lib c)),
      co_create = computer_from_proto lib\<rparr>"

end
