(* ===== verification/FheCorrect.thy ===== *)
theory FheCorrect
  imports Fhe AstBuild
begin

text \<open>
  Evaluation of a computation: it ends on every tree, it computes the value of the tree, and the
  two modes, on the crypto context and in the proof system, compute the same ciphertext.
\<close>

subsection \<open>Evaluation as a relation\<close>

inductive evaluates :: "('ct, 's) backend \<Rightarrow> 'ct list \<Rightarrow> ast_heap \<Rightarrow> nat \<Rightarrow> 's \<Rightarrow> 'ct \<Rightarrow> 's \<Rightarrow> bool"
  for bk cts h where
  leaf: "is_leaf (h n) \<Longrightarrow> ciphertext_at cts (val_of (h n)) = Inr c \<Longrightarrow> evaluates bk cts h n s c s"
| node: "\<not> is_leaf (h n) \<Longrightarrow> left_child (h n) = Some l \<Longrightarrow> right_child (h n) = Some r \<Longrightarrow>
    evaluates bk cts h l s c_left s1 \<Longrightarrow> evaluates bk cts h r s1 c_right s2 \<Longrightarrow>
    apply_operator bk (op_of (h n)) (node_depth (h l) - node_depth (h r)) c_left c_right s2 = Inr (c, s3) \<Longrightarrow>
    evaluates bk cts h n s c s3"

inductive_cases evaluates_leafE: "evaluates bk cts h n s c s'"

lemma eval_evaluates:
  "eval bk sf cts h n s = Some (Inr (c, s')) \<Longrightarrow> evaluates bk cts h n s c s'"
proof -
  have "\<forall>c s'. y = Inr (c, s') \<longrightarrow> evaluates bk cts h n s c s'" if "eval bk sf cts h n s = Some y" for y
  proof (rule eval.raw_induct [where P = "\<lambda>bk sf cts h n s y. \<forall>c s'. y = Inr (c, s') \<longrightarrow> evaluates bk cts h n s c s'", OF _ that])
    fix ev bk sf cts h n s y
    assume IH: "\<And>bk sf cts h n s y. ev bk sf cts h n s = Some y \<Longrightarrow> \<forall>c s'. y = Inr (c, s') \<longrightarrow> evaluates bk cts h n s c s'"
      and body: "(if sf then Some (Inl Out_of_range)
      else if is_leaf (h n) then Some (map_sum id (\<lambda>c. (c, s)) (ciphertext_at cts (val_of (h n))))
      else case left_child (h n) of
        None \<Rightarrow> Some (Inl (Runtime_error ''Internal ASTNode should have both chldren.''))
      | Some l \<Rightarrow>
          (case right_child (h n) of
             None \<Rightarrow> Some (Inl (Runtime_error ''Internal ASTNode should have both chldren.''))
           | Some r \<Rightarrow>
               Option.bind (ev bk sf cts h l s) (\<lambda>res_l. case res_l of Inl e \<Rightarrow> Some (Inl e)
               | Inr (c_left, s1) \<Rightarrow>
                   Option.bind (ev bk sf cts h r s1) (\<lambda>res_r. case res_r of Inl e \<Rightarrow> Some (Inl e)
                   | Inr (c_right, s2) \<Rightarrow>
                       Some (apply_operator bk (op_of (h n)) (node_depth (h l) - node_depth (h r)) c_left c_right s2))))) = Some y"
    show "\<forall>c s'. y = Inr (c, s') \<longrightarrow> evaluates bk cts h n s c s'"
    proof (intro allI impI)
      fix c s' assume y: "y = Inr (c, s')"
      show "evaluates bk cts h n s c s'"
      proof (cases "is_leaf (h n)")
        case True
        with body y show ?thesis by (auto simp: map_sum_Inr_iff split: if_splits intro: evaluates.leaf)
      next
        case False
        with body y obtain l r c1 s1 c2 s2 where n: "left_child (h n) = Some l" "right_child (h n) = Some r"
            "ev bk sf cts h l s = Some (Inr (c1, s1))" "ev bk sf cts h r s1 = Some (Inr (c2, s2))"
            "apply_operator bk (op_of (h n)) (node_depth (h l) - node_depth (h r)) c1 c2 s2 = Inr (c, s')"
          by (auto split: if_splits option.splits sum.splits bind_splits)
        with IH False show ?thesis by (blast intro: evaluates.node)
      qed
    qed
  qed
  then show "eval bk sf cts h n s = Some (Inr (c, s')) \<Longrightarrow> ?thesis" by blast
qed

subsection \<open>The two modes\<close>

text \<open>Two backends that return the same ciphertext whenever both return.\<close>

definition same1 :: "('ct \<Rightarrow> 's \<Rightarrow> ('ct \<times> 's) result) \<Rightarrow> ('ct \<Rightarrow> 't \<Rightarrow> ('ct \<times> 't) result) \<Rightarrow> bool" where
  "same1 f g \<longleftrightarrow> (\<forall>a s c s' t d t'. f a s = Inr (c, s') \<longrightarrow> g a t = Inr (d, t') \<longrightarrow> c = d)"

definition agree :: "('ct, 's) backend \<Rightarrow> ('ct, 't) backend \<Rightarrow> bool" where
  "agree bk bk' \<longleftrightarrow> same1 (Relinearize bk) (Relinearize bk') \<and> same1 (Rescale bk) (Rescale bk')
     \<and> (\<forall>a. same1 (EvalAdd bk a) (EvalAdd bk' a)) \<and> (\<forall>a. same1 (EvalSub bk a) (EvalSub bk' a))
     \<and> (\<forall>a. same1 (EvalMultNoRelin bk a) (EvalMultNoRelin bk' a))"

lemma same1D: "same1 f g \<Longrightarrow> f a s = Inr (c, s') \<Longrightarrow> g a t = Inr (d, t') \<Longrightarrow> c = d"
  unfolding same1_def by blast

lemma lower_agree:
  assumes "agree bk bk'"
  shows "same1 (lower bk n) (lower bk' n)"
proof (induction n)
  case 0
  show ?case by (simp add: same1_def)
next
  case (Suc n)
  have s: "same1 (Relinearize bk) (Relinearize bk')" "same1 (Rescale bk) (Rescale bk')"
    using assms by (simp_all add: agree_def)
  show ?case
    unfolding same1_def
    by (auto split: sum.splits) (metis s Suc same1D)
qed

lemma apply_operator_agree:
  assumes "agree bk bk'" and "apply_operator bk op k a b s = Inr (c, s')" and "apply_operator bk' op k a b t = Inr (d, t')"
  shows "c = d"
proof -
  note low = same1D [OF lower_agree [OF assms(1)]]
  have ops: "same1 (EvalAdd bk x) (EvalAdd bk' x)" "same1 (EvalSub bk x) (EvalSub bk' x)"
      "same1 (EvalMultNoRelin bk x) (EvalMultNoRelin bk' x)" for x using assms(1) by (simp_all add: agree_def)
  obtain l r s1 where s: "(if k > 0 then map_sum id (\<lambda>(c, s). (a, c, s)) (lower bk (nat k) b s)
        else map_sum id (\<lambda>(c, s). (c, b, s)) (lower bk (nat (- k)) a s)) = Inr (l, r, s1)"
    using assms(2) by (auto simp: apply_operator_def split: sum.splits)
  obtain l' r' t1 where t: "(if k > 0 then map_sum id (\<lambda>(c, s). (a, c, s)) (lower bk' (nat k) b t)
        else map_sum id (\<lambda>(c, s). (c, b, s)) (lower bk' (nat (- k)) a t)) = Inr (l', r', t1)"
    using assms(3) by (auto simp: apply_operator_def split: sum.splits)
  from s t have eq: "l' = l" "r' = r" by (auto simp: map_sum_Inr_iff split: if_splits dest: low)
  with assms(2,3) s t show ?thesis
    by (auto simp: apply_operator_def split: if_splits dest: same1D [OF ops(1)] same1D [OF ops(2)] same1D [OF ops(3)])
qed

lemma evaluates_agree:
  assumes "evaluates bk cts h n s c s'" and "agree bk bk'" and "evaluates bk' cts h n t d t'"
  shows "c = d"
  using assms(1,3)
proof (induction arbitrary: t d t')
  case (leaf n c s)
  from leaf(3,1,2) show ?case by (auto elim: evaluates_leafE)
next
  case (node n l r s cl s1 cr s2 c s3)
  from node.prems node.hyps(1-3) obtain cl' t1 cr' t2 where "evaluates bk' cts h l t cl' t1" "evaluates bk' cts h r t1 cr' t2"
      and a: "apply_operator bk' (op_of (h n)) (node_depth (h l) - node_depth (h r)) cl' cr' t2 = Inr (d, t')"
    by (auto elim: evaluates_leafE)
  with node.IH have "cl' = cl" "cr' = cr" by blast+
  with apply_operator_agree [OF assms(2)] node.hyps(6) a show ?case by blast
qed

subsection \<open>What the operations keep of the state\<close>

definition keeps :: "('s \<Rightarrow> bool) \<Rightarrow> ('s \<Rightarrow> ('ct \<times> 's) result) \<Rightarrow> bool" where
  "keeps P f \<longleftrightarrow> (\<forall>s c s'. P s \<longrightarrow> f s = Inr (c, s') \<longrightarrow> P s')"

definition all_keep :: "('s \<Rightarrow> bool) \<Rightarrow> ('ct, 's) backend \<Rightarrow> bool" where
  "all_keep P bk \<longleftrightarrow> (\<forall>a b. keeps P (Relinearize bk a) \<and> keeps P (Rescale bk a) \<and> keeps P (EvalAdd bk a b)
     \<and> keeps P (EvalSub bk a b) \<and> keeps P (EvalMultNoRelin bk a b))"

lemma keepsD: "keeps P f \<Longrightarrow> P s \<Longrightarrow> f s = Inr (c, s') \<Longrightarrow> P s'"
  unfolding keeps_def by blast

lemma lower_keeps: "all_keep P bk \<Longrightarrow> keeps P (lower bk n c)"
proof (induction n arbitrary: c)
  case (Suc n)
  then have k: "keeps P (Relinearize bk a)" "keeps P (Rescale bk a)" for a by (simp_all add: all_keep_def)
  show ?case
    unfolding keeps_def
    by (auto split: sum.splits) (metis k Suc keepsD)
qed (simp add: keeps_def)

lemma apply_operator_keeps:
  assumes "all_keep P bk" and "P s" and "apply_operator bk op k a b s = Inr (c, s')"
  shows "P s'"
proof -
  obtain l r s1 where s: "(if k > 0 then map_sum id (\<lambda>(c, s). (a, c, s)) (lower bk (nat k) b s)
        else map_sum id (\<lambda>(c, s). (c, b, s)) (lower bk (nat (- k)) a s)) = Inr (l, r, s1)"
    using assms(3) by (auto simp: apply_operator_def split: sum.splits)
  then have s1: "P s1"
    using assms(2) lower_keeps [OF assms(1)] by (auto simp: map_sum_Inr_iff split: if_splits dest: keepsD)
  have "keeps P (EvalAdd bk l r)" "keeps P (EvalSub bk l r)" "keeps P (EvalMultNoRelin bk l r)"
    using assms(1) by (simp_all add: all_keep_def)
  with assms(3) s s1 show ?thesis by (auto simp: apply_operator_def split: if_splits dest: keepsD)
qed

lemma evaluates_keeps:
  assumes "evaluates bk cts h n s c s'" and "all_keep P bk"
  shows "P s \<Longrightarrow> P s'"
  using assms(1) by induction (auto intro: apply_operator_keeps [OF assms(2)])

subsection \<open>Values\<close>

text \<open>
  What the operations on ciphertexts mean for the plaintexts: \<open>dec\<close> is decryption, and none fails.
\<close>

definition computes :: "('s \<Rightarrow> ('ct \<times> 's) result) \<Rightarrow> ('ct \<Rightarrow> 'v) \<Rightarrow> 'v \<Rightarrow> bool" where
  "computes f dec v \<longleftrightarrow> (\<forall>s. \<exists>c s'. f s = Inr (c, s') \<and> dec c = v)"

definition homomorphic :: "('ct, 's) backend \<Rightarrow> ('ct \<Rightarrow> 'v :: comm_ring_1) \<Rightarrow> bool" where
  "homomorphic bk dec \<longleftrightarrow> (\<forall>a b. computes (Relinearize bk a) dec (dec a) \<and> computes (Rescale bk a) dec (dec a)
     \<and> computes (EvalAdd bk a b) dec (dec a + dec b) \<and> computes (EvalSub bk a b) dec (dec a - dec b)
     \<and> computes (EvalMultNoRelin bk a b) dec (dec a * dec b))"

definition arith :: "string \<Rightarrow> 'v :: comm_ring_1 \<Rightarrow> 'v \<Rightarrow> 'v" where
  "arith op a b = (if op = ''+'' then a + b else if op = ''-'' then a - b else a * b)"

lemma computesE:
  assumes "computes f dec v" obtains c s' where "f s = Inr (c, s')" "dec c = v"
  using assms unfolding computes_def by blast

lemma lower_computes: "homomorphic bk dec \<Longrightarrow> computes (lower bk n c) dec (dec c)"
proof (induction n arbitrary: c)
  case (Suc n)
  show ?case
    unfolding computes_def
  proof
    fix s
    from Suc.prems obtain c1 s1 where 1: "Relinearize bk c s = Inr (c1, s1)" "dec c1 = dec c"
      unfolding homomorphic_def by (meson computesE)
    from Suc.prems obtain c2 s2 where 2: "Rescale bk c1 s1 = Inr (c2, s2)" "dec c2 = dec c1"
      unfolding homomorphic_def by (meson computesE)
    from Suc.IH [OF Suc.prems, of c2] obtain c3 s3 where "lower bk n c2 s2 = Inr (c3, s3)" "dec c3 = dec c2"
      by (meson computesE)
    with 1 2 show "\<exists>c' s'. lower bk (Suc n) c s = Inr (c', s') \<and> dec c' = dec c" by simp
  qed
qed (simp add: computes_def)

lemma apply_operator_computes:
  assumes "homomorphic bk dec" and "op \<in> {''+'', ''-'', ''*''}"
  shows "computes (apply_operator bk op k a b) dec (arith op (dec a) (dec b))"
  unfolding computes_def
proof
  fix s
  obtain l r s1 where low: "(if k > 0 then map_sum id (\<lambda>(c, s). (a, c, s)) (lower bk (nat k) b s)
        else map_sum id (\<lambda>(c, s). (c, b, s)) (lower bk (nat (- k)) a s)) = Inr (l, r, s1)"
      and dec: "dec l = dec a" "dec r = dec b"
  proof (cases "k > 0")
    case True
    obtain c t where "lower bk (nat k) b s = Inr (c, t)" "dec c = dec b"
      using lower_computes [OF assms(1)] by (meson computesE)
    with True that show ?thesis by simp
  next
    case False
    obtain c t where "lower bk (nat (- k)) a s = Inr (c, t)" "dec c = dec a"
      using lower_computes [OF assms(1)] by (meson computesE)
    with False that show ?thesis by simp
  qed
  have "computes (EvalAdd bk l r) dec (dec l + dec r)" "computes (EvalSub bk l r) dec (dec l - dec r)"
      "computes (EvalMultNoRelin bk l r) dec (dec l * dec r)"
    using assms(1) unfolding homomorphic_def by blast+
  then obtain ca sa cs ss cm sm where "EvalAdd bk l r s1 = Inr (ca, sa)" "dec ca = dec l + dec r"
      "EvalSub bk l r s1 = Inr (cs, ss)" "dec cs = dec l - dec r"
      "EvalMultNoRelin bk l r s1 = Inr (cm, sm)" "dec cm = dec l * dec r"
    by (meson computesE)
  with low dec assms(2) show "\<exists>c s'. apply_operator bk op k a b s = Inr (c, s') \<and> dec c = arith op (dec a) (dec b)"
    by (auto simp: apply_operator_def arith_def)
qed

text \<open>Trees whose operands are ciphertexts of the computation.\<close>

fun well_formed :: "nat \<Rightarrow> itree \<Rightarrow> bool" where
  "well_formed k (ILeaf n v) \<longleftrightarrow> 0 \<le> v \<and> nat v < k"
| "well_formed k (INode n op l r) \<longleftrightarrow> op \<in> {''+'', ''-'', ''*''} \<and> well_formed k l \<and> well_formed k r"

lemma eval_tree:
  assumes "homomorphic bk dec" and "in_heap h T" and "well_formed (length cts) T"
  shows "\<exists>c s'. eval bk False cts h (root_id T) s = Some (Inr (c, s')) \<and> dec c = tree_value (\<lambda>v. dec (cts ! nat v)) arith T"
  using assms(2,3)
proof (induction T arbitrary: s)
  case (ILeaf n v)
  then show ?case by (subst eval.simps) (simp add: ciphertext_at_def)
next
  case (INode n op l r)
  then have t: "in_heap h l" "in_heap h r" "well_formed (length cts) l" "well_formed (length cts) r" by simp_all
  from INode.IH(1) [OF t(1,3), of s] obtain cl s1 where l: "eval bk False cts h (root_id l) s = Some (Inr (cl, s1))"
      "dec cl = tree_value (\<lambda>v. dec (cts ! nat v)) arith l" by blast
  from INode.IH(2) [OF t(2,4), of s1] obtain cr s2 where r: "eval bk False cts h (root_id r) s1 = Some (Inr (cr, s2))"
      "dec cr = tree_value (\<lambda>v. dec (cts ! nat v)) arith r" by blast
  have "op \<in> {''+'', ''-'', ''*''}" using INode.prems by simp
  from apply_operator_computes [OF assms(1) this] obtain c s3 where
      "apply_operator bk op (node_depth (h (root_id l)) - node_depth (h (root_id r))) cl cr s2 = Inr (c, s3)"
      "dec c = arith op (dec cl) (dec cr)" by (rule computesE)
  with INode.prems l r show ?case by (subst eval.simps) simp
qed

subsection \<open>The value of an expression\<close>

fun expr_value :: "(int \<Rightarrow> 'v :: comm_ring_1) \<Rightarrow> expr \<Rightarrow> 'v" where
  "expr_value f (Num ds) = (case stoi ds of Inl _ \<Rightarrow> 0 | Inr v \<Rightarrow> f v)"
| "expr_value f (Bin c l r) = arith [c] (expr_value f l) (expr_value f r)"

text \<open>The numbers of an expression are indices of ciphertexts.\<close>

fun indices_below :: "nat \<Rightarrow> expr \<Rightarrow> bool" where
  "indices_below k (Num ds) \<longleftrightarrow> (case stoi ds of Inl _ \<Rightarrow> False | Inr v \<Rightarrow> 0 \<le> v \<and> nat v < k)"
| "indices_below k (Bin c l r) \<longleftrightarrow> indices_below k l \<and> indices_below k r"

lemma indices_fit: "indices_below k e \<Longrightarrow> numbers_fit e"
  by (induction e) (auto split: sum.splits)

lemma matches_value:
  "matches T e \<Longrightarrow> wf_expr e \<Longrightarrow> indices_below k e \<Longrightarrow> well_formed k T \<and> tree_value f arith T = expr_value f e"
  by (induction T e rule: matches.induct) (auto simp: is_operator_def)

text \<open>A computer whose tree was built for a shallow expression, over ciphertexts that need not be the given ones.\<close>

lemma computer_value:
  assumes "homomorphic (context_ops lib cc) dec" and "GetCryptoContext lib (computation c) = Inr cc"
    and tree: "ASTree (written 0 e) = Some (Inr (c_ast c))" and "\<not> stop_flag c"
    and e: "e = Bin op l r" "wf_expr e" "expr_depth e \<le> 2" "indices_below (length (ciphertexts (computation c))) e"
  shows "\<exists>ct. evaluate lib c = Inr (ct, c\<lparr>last_res := Some ct\<rparr>)
    \<and> dec ct = expr_value (\<lambda>v. dec (ciphertexts (computation c) ! nat v)) e"
proof -
  from built_as_written [of op l r] indices_fit [OF e(4)] e(1-3) tree obtain T where
    t: "ast_root (c_ast c) = Some (root_id T)" "in_heap (ast_nodes (c_ast c)) T" and m: "matches T e"
    by auto
  from matches_value [OF m e(2,4)] eval_tree [OF assms(1) t(2)] obtain ct s where
    "eval (context_ops lib cc) False (ciphertexts (computation c)) (ast_nodes (c_ast c)) (root_id T) () = Some (Inr (ct, s))"
    "dec ct = expr_value (\<lambda>v. dec (ciphertexts (computation c) ! nat v)) e" by metis
  with t(1) assms(2,4) show ?thesis
    by (auto simp: ended_def evaluate_def eval_root_def root_of_def context_backend_def)
qed


subsection \<open>An instance of the libraries\<close>

text \<open>
  Ciphertexts are their plaintexts, modulo 256; an argument is the list of the public inputs, and
  the verifier compares it with its own; an encryption of zero is the sum of the bytes it is seeded
  with, which makes the effect of binding visible.
\<close>

definition demo_backend :: "(byte, 's) backend" where
  "demo_backend = \<lparr>Relinearize = (\<lambda>c s. Inr (c, s)), Rescale = (\<lambda>c s. Inr (c, s)),
     EvalAdd = (\<lambda>a b s. Inr (a + b, s)), EvalSub = (\<lambda>a b s. Inr (a - b, s)), EvalMultNoRelin = (\<lambda>a b s. Inr (a * b, s))\<rparr>"

definition read_byte :: "bytes \<Rightarrow> byte result" where
  "read_byte b = (case b of [c] \<Rightarrow> Inr c | _ \<Rightarrow> Inl (Runtime_error ''not one byte''))"

definition demo_lib :: "(unit, byte, byte, bytes, unit, int, bytes) fhe_lib" where
  "demo_lib = \<lparr>context_of = (\<lambda>_. ()), context_ops = (\<lambda>_. demo_backend), EncryptZeroDeterministic = (\<lambda>_ _ d. Inr (sum_list d)),
     ser_ct = (\<lambda>c. [c]), de_ct = read_byte, ser_pk = (\<lambda>k. [k]), de_pk = read_byte,
     SerializeEvalMultKey = (\<lambda>_. [1]), DeserializeEvalMultKey = (\<lambda>_ _. Inr ()),
     new_ps = (\<lambda>_. []), SetMode = (\<lambda>_ ps. ps), PublicInput = (\<lambda>c ps. Inr (ps @ [c])),
     ConstrainPublicOutput = (\<lambda>c ps. Inr ((), ps @ [c])), ps_ops = demo_backend,
     FinalizeOutputConstraints = (\<lambda>_ _ ps. if int (length ps) < 1152921504606846976 then Inr ps else Inl (Runtime_error ''bad_alloc'')),
     get_constraint_system = (\<lambda>ps. \<lparr>ls_primary_input_size = word_of_nat (length ps), ls_auxiliary_input_size = 0,
       ls_constraints = [\<lparr>ls_a = [], ls_b = [], ls_c = []\<rparr>]\<rparr>),
     primary_input = map uint, auxiliary_input = (\<lambda>_. []), ff_log2 = ceillog2, lc_const = constant_term,
     aurora_snark_prover = (\<lambda>_ prim _ _. Inr (map word_of_int prim)),
     aurora_snark_verifier = (\<lambda>_ prim arg _. map word_of_int prim = arg),
     ser_arg = (\<lambda>a. 1 # a), de_arg = (\<lambda>b. case b of [] \<Rightarrow> Inl (Runtime_error ''no argument'') | _ # a \<Rightarrow> Inr a)\<rparr>"

definition demo_computation :: "string \<Rightarrow> byte list \<Rightarrow> (byte, byte) fhe_computation" where
  "demo_computation e cts = \<lparr>expression = e, publicKey = 9, ciphertexts = cts, fc_timestamp = 77,
     unbound_ciphertexts_archive = [], is_bound = False\<rparr>"

lemma demo_homomorphic: "homomorphic demo_backend id"
  by (simp add: homomorphic_def computes_def demo_backend_def)


end
