(* ===== verification/FheMining.thy ===== *)
theory FheMining
  imports FheCorrect ManagerCorrect
begin

text \<open>
  FHE computations meet what mining asks of computations, as long as they have not been bound
  before: the proof that the miner makes is accepted by a peer.  What is asked of the libraries is
  stated first.
\<close>

subsection \<open>The libraries\<close>

text \<open>What is written can be read back; nothing is written as the empty string.\<close>

definition codecs_ok :: "('cc, 'ct, 'pk, 'ps, 'vars, 'f, 'arg) fhe_lib \<Rightarrow> bool" where
  "codecs_ok lib \<longleftrightarrow> (\<forall>c. de_ct lib (ser_ct lib c) = Inr c \<and> ser_ct lib c \<noteq> []) \<and> (\<forall>k. de_pk lib (ser_pk lib k) = Inr k)
     \<and> (\<forall>a. de_arg lib (ser_arg lib a) = Inr a \<and> ser_arg lib a \<noteq> [])
     \<and> (\<forall>cc. DeserializeEvalMultKey lib cc (SerializeEvalMultKey lib cc) = Inr ())"

text \<open>Results belong to the context of their operands.\<close>

definition contexts_ok :: "('cc, 'ct, 'pk, 'ps, 'vars, 'f, 'arg) fhe_lib \<Rightarrow> bool" where
  "contexts_ok lib \<longleftrightarrow> (\<forall>cc k d z. EncryptZeroDeterministic lib cc k d = Inr z \<longrightarrow> context_of lib z = cc)
     \<and> (\<forall>a b c s. EvalAdd (context_ops lib (context_of lib a)) a b () = Inr (c, s) \<longrightarrow> context_of lib c = context_of lib a)"

text \<open>
  The proof system computes what the context computes, and the inputs that it records satisfy the
  constraints that it records, the output constraint included when the right output was announced.
\<close>

definition satisfied :: "('cc, 'ct, 'pk, 'ps, 'vars, 'f :: comm_ring_1, 'arg) fhe_lib \<Rightarrow> 'ps \<Rightarrow> bool" where
  "satisfied lib ps \<longleftrightarrow> ls_satisfied (get_constraint_system lib ps) (primary_input lib ps) (auxiliary_input lib ps)"

definition recording_ok :: "('cc, 'ct, 'pk, 'ps, 'vars, 'f :: comm_ring_1, 'arg) fhe_lib \<Rightarrow> bool" where
  "recording_ok lib \<longleftrightarrow> (\<forall>cc. agree (context_ops lib cc) (ps_ops lib)) \<and> all_keep (satisfied lib) (ps_ops lib)
     \<and> (\<forall>cc m. satisfied lib (SetMode lib m (new_ps lib cc)))
     \<and> (\<forall>c ps ps'. satisfied lib ps \<longrightarrow> PublicInput lib c ps = Inr ps' \<longrightarrow> satisfied lib ps')
     \<and> (\<forall>c ps vars ps'. satisfied lib ps \<longrightarrow> ConstrainPublicOutput lib c ps = Inr (vars, ps') \<longrightarrow> satisfied lib ps')
     \<and> (\<forall>c ps vars ps' ps1 ps2. ConstrainPublicOutput lib c ps = Inr (vars, ps') \<longrightarrow> satisfied lib ps1 \<longrightarrow>
          FinalizeOutputConstraints lib c vars ps1 = Inr ps2 \<longrightarrow>
          satisfied lib ps2 \<and> ls_wf (get_constraint_system lib ps2) (primary_input lib ps2) (auxiliary_input lib ps2))"

lemma recording_okD:
  assumes "recording_ok lib"
  shows "agree (context_ops lib cc) (ps_ops lib)" and "all_keep (satisfied lib) (ps_ops lib)"
    and "satisfied lib (SetMode lib m (new_ps lib cc))"
    and "satisfied lib ps \<Longrightarrow> PublicInput lib c ps = Inr ps' \<Longrightarrow> satisfied lib ps'"
    and "satisfied lib ps \<Longrightarrow> ConstrainPublicOutput lib c ps = Inr (vars, ps') \<Longrightarrow> satisfied lib ps'"
    and "ConstrainPublicOutput lib c ps = Inr (vars, ps') \<Longrightarrow> satisfied lib ps1 \<Longrightarrow>
      FinalizeOutputConstraints lib c vars ps1 = Inr ps2 \<Longrightarrow>
      satisfied lib ps2 \<and> ls_wf (get_constraint_system lib ps2) (primary_input lib ps2) (auxiliary_input lib ps2)"
  using assms unfolding recording_ok_def by blast+

text \<open>Aurora is complete on systems of the sizes that it asks for.\<close>

definition aurora_sizes :: "'f liop_system \<Rightarrow> bool" where
  "aurora_sizes cs \<longleftrightarrow> (\<exists>j. length (li_constraints cs) = 2 ^ j) \<and> (\<exists>j. unat (num_variables cs) + 1 = 2 ^ j)
     \<and> (\<exists>j. unat (num_inputs cs) + 1 = 2 ^ j)"

definition aurora_ok :: "('cc, 'ct, 'pk, 'ps, 'vars, 'f :: comm_ring_1, 'arg) fhe_lib \<Rightarrow> bool" where
  "aurora_ok lib \<longleftrightarrow> rounds_up (ff_log2 lib) \<and> constant_lc (lc_const lib)
     \<and> (\<forall>cs prim aux arg. aurora_sizes cs \<longrightarrow> liop_satisfied cs prim aux \<longrightarrow>
          aurora_snark_prover lib cs prim aux (aurora_params cs) = Inr arg \<longrightarrow>
          aurora_snark_verifier lib cs prim arg (aurora_params cs))"

subsection \<open>Binding\<close>

lemma bind_from_length: "bind_from lib cc pk d i cs = Inr cs' \<Longrightarrow> length cs' = length cs"
  by (induction cs arbitrary: i cs') (auto simp: map_sum_Inr_iff split: sum.splits)

lemma bind_keeps_context:
  assumes "contexts_ok lib" and "GetCryptoContext lib fc = Inr cc"
    and "bind_from lib cc pk d i (ciphertexts fc) = Inr (ciphertexts fc')"
  shows "GetCryptoContext lib fc' = Inr cc"
proof (cases "ciphertexts fc")
  case Nil
  with assms(2) show ?thesis by (simp add: GetCryptoContext_def)
next
  case (Cons c cs)
  with assms(3) obtain z c' s cs' where "EncryptZeroDeterministic lib cc pk (counter_and_data i d) = Inr z"
      "EvalAdd (context_ops lib cc) z c () = Inr (c', s)" "ciphertexts fc' = c' # cs'"
    by (auto simp: map_sum_Inr_iff split: sum.splits)
  moreover from this(1) assms(1) have "context_of lib z = cc" unfolding contexts_ok_def by blast
  ultimately have "context_of lib c' = cc" using assms(1) unfolding contexts_ok_def by blast
  with \<open>ciphertexts fc' = c' # cs'\<close> show ?thesis by (simp add: GetCryptoContext_def)
qed

text \<open>What binding leaves of a computation.\<close>

lemma bind_inputsE:
  assumes "bind_inputs_to_data lib d fc = Inr fc'"
  obtains cc cts where "GetCryptoContext lib fc = Inr cc"
    "bind_from lib cc (publicKey fc) d 0 (ciphertexts fc) = Inr cts"
    "fc' = fc\<lparr>ciphertexts := cts, unbound_ciphertexts_archive := original_ciphertexts fc, is_bound := True\<rparr>"
  using assms
  by (cases fc) (auto simp: bind_inputs_to_data_def map_sum_Inr_iff GetCryptoContext_def original_ciphertexts_def Let_def
      split: sum.splits if_splits list.splits)

lemma binding_keeps_context:
  assumes "contexts_ok lib" and "bind_inputs_to_data lib d fc = Inr fc'"
  shows "GetCryptoContext lib fc' = GetCryptoContext lib fc"
proof -
  from assms(2) obtain cc cts where b: "GetCryptoContext lib fc = Inr cc"
      "bind_from lib cc (publicKey fc) d 0 (ciphertexts fc) = Inr cts"
      "fc' = fc\<lparr>ciphertexts := cts, unbound_ciphertexts_archive := original_ciphertexts fc, is_bound := True\<rparr>"
    by (rule bind_inputsE)
  from b(2,3) have "bind_from lib cc (publicKey fc) d 0 (ciphertexts fc) = Inr (ciphertexts fc')" by simp
  from bind_keeps_context [OF assms(1) b(1) this] b(1) show ?thesis by simp
qed

text \<open>Binding a computation to data is invisible from outside: what it is serialised to, hashed from
  and sent as does not change, however often it is bound, so the stores keep finding it by its hash.
  Asked of the library: results belong to the context of their operands.\<close>

theorem binding_invisible:
  assumes "contexts_ok lib" and "bind_to_data lib d c = Inr c'"
  shows "computer_serialize lib False c' = map_sum id (\<lambda>(s, _). (s, c')) (computer_serialize lib False c)
    \<and> serialize_for_hash lib c' = serialize_for_hash lib c
    \<and> computer_to_proto lib c' = computer_to_proto lib c"
proof -
  from assms(2) obtain fc where fc: "bind_inputs_to_data lib d (computation c) = Inr fc" "c' = c\<lparr>computation := fc\<rparr>"
    by (auto simp: bind_to_data_def map_sum_Inr_iff)
  note cc = binding_keeps_context [OF assms(1) fc(1)]
  from fc(1) obtain cc cts where "fc = (computation c)\<lparr>ciphertexts := cts,
      unbound_ciphertexts_archive := original_ciphertexts (computation c), is_bound := True\<rparr>"
      "length cts = length (ciphertexts (computation c))"
    by (rule bind_inputsE) (auto dest: bind_from_length)
  with cc fc(2) have "computation_serialize lib fc = computation_serialize lib (computation c)"
      "computer_to_proto lib c' = computer_to_proto lib c"
    by (simp_all add: computation_serialize_def computer_to_proto_def original_ciphertexts_def split: sum.splits)
  with fc(2) show ?thesis
    by (cases "computation_serialize lib (computation c)") (simp_all add: computer_serialize_def serialize_for_hash_def)
qed

subsection \<open>Recording and proving\<close>

lemma init_public_input_keeps:
  assumes "init_public_input lib cts h n st = Some (Inr st')" and "P (snd st)"
    and step: "\<And>c ps ps'. P ps \<Longrightarrow> PublicInput lib c ps = Inr ps' \<Longrightarrow> P ps'"
  shows "P (snd st')"
proof -
  have "\<forall>st'. P (snd st) \<longrightarrow> y = Inr st' \<longrightarrow> P (snd st')" if "init_public_input lib cts h n st = Some y" for y
  proof (rule init_public_input.raw_induct [where P = "\<lambda>lib' cts h n st y. lib' = lib \<longrightarrow> (\<forall>st'. P (snd st) \<longrightarrow> y = Inr st' \<longrightarrow> P (snd st'))",
        OF _ that, THEN mp, OF _ refl])
    fix ipi lib' cts h n st y
    assume IH: "\<And>lib' cts h n st y. ipi lib' cts h n st = Some y \<Longrightarrow> lib' = lib \<longrightarrow> (\<forall>st'. P (snd st) \<longrightarrow> y = Inr st' \<longrightarrow> P (snd st'))"
      and body: "(if is_leaf (h n) then
        (let v = val_of (h n)
         in if v \<in> set (fst st) then Some (Inr st)
            else Some (case ciphertext_at cts v of Inl e \<Rightarrow> Inl e
                       | Inr c \<Rightarrow> map_sum id (\<lambda>ps. (v # fst st, ps)) (PublicInput lib' c (snd st))))
      else case left_child (h n) of
        None \<Rightarrow> Some (Inl (Runtime_error ''Internal ASTNode should have both chldren.''))
      | Some l \<Rightarrow>
          (case right_child (h n) of
             None \<Rightarrow> Some (Inl (Runtime_error ''Internal ASTNode should have both chldren.''))
           | Some r \<Rightarrow>
               Option.bind (ipi lib' cts h l st) (\<lambda>res. case res of Inl e \<Rightarrow> Some (Inl e)
               | Inr st1 \<Rightarrow> ipi lib' cts h r st1))) = Some y"
    show "lib' = lib \<longrightarrow> (\<forall>st'. P (snd st) \<longrightarrow> y = Inr st' \<longrightarrow> P (snd st'))"
    proof (intro impI allI)
      fix st' assume lib: "lib' = lib" and P: "P (snd st)" and y: "y = Inr st'"
      show "P (snd st')"
      proof (cases "is_leaf (h n)")
        case True
        with body y P lib show ?thesis by (auto simp: Let_def map_sum_Inr_iff split: if_splits sum.splits intro: step)
      next
        case False
        with body y obtain l r st1 where "ipi lib' cts h l st = Some (Inr st1)" "ipi lib' cts h r st1 = Some (Inr st')"
          by (auto split: option.splits sum.splits bind_splits)
        with IH lib P show ?thesis by blast
      qed
    qed
  qed
  with assms(1,2) show ?thesis by blast
qed

text \<open>Recording depends on the tree, the ciphertexts and the stop flag only.\<close>

definition same_walk :: "('ct, 'pk, 'ps) fhe_computer \<Rightarrow> ('ct, 'pk, 'ps) fhe_computer \<Rightarrow> bool" where
  "same_walk c e \<longleftrightarrow> c_ast c = c_ast e \<and> ciphertexts (computation c) = ciphertexts (computation e) \<and> stop_flag c = stop_flag e"

lemma eval_root_cong: "same_walk c e \<Longrightarrow> eval_root bk c s = eval_root bk e s"
  by (cases "ast_root (c_ast e)") (simp_all add: same_walk_def eval_root_def root_of_def)

lemma declare_inputs_cong: "same_walk c e \<Longrightarrow> declare_inputs lib m c ps = declare_inputs lib m e ps"
  by (cases "ast_root (c_ast e)") (simp_all add: same_walk_def declare_inputs_def root_of_def)

lemma eval_root_evaluates:
  assumes "eval_root bk c s = Inr (ct, s')"
  obtains r where "ast_root (c_ast c) = Some r" "evaluates bk (ciphertexts (computation c)) (ast_nodes (c_ast c)) r s ct s'"
    "\<not> stop_flag c"
  using assms
  by (auto simp: eval_root_def root_of_def ended_def split: if_splits option.splits dest: eval_evaluates)

lemma declare_inputs_keeps:
  assumes "declare_inputs lib m c ps = Inr ps'" and "P (SetMode lib m ps)"
    and "\<And>c ps ps'. P ps \<Longrightarrow> PublicInput lib c ps = Inr ps' \<Longrightarrow> P ps'"
  shows "P ps'"
proof -
  from assms(1) obtain r st where "ps' = snd st"
      "init_public_input lib (ciphertexts (computation c)) (ast_nodes (c_ast c)) r ([], SetMode lib m ps) = Some (Inr st)"
    by (auto simp: declare_inputs_def ended_def map_sum_Inr_iff split: sum.splits option.splits)
  with init_public_input_keeps [of lib _ _ r _ st P] assms(2,3) show ?thesis by (metis snd_conv)
qed

lemma generate_constraints_steps:
  assumes "generate_constraints lib True c = Inr c'"
  obtains cc out ps1 vars ps2 out' ps3 ps4 where "GetCryptoContext lib (computation c) = Inr cc"
    "eval_root (context_ops lib cc) c () = Inr (out, ())"
    "declare_inputs lib CONSTRAINT_GENERATION (c\<lparr>last_res := Some out\<rparr>) (new_ps lib cc) = Inr ps1"
    "ConstrainPublicOutput lib out ps1 = Inr (vars, ps2)"
    "eval_root (ps_ops lib) (c\<lparr>last_res := Some out\<rparr>) ps2 = Inr (out', ps3)"
    "FinalizeOutputConstraints lib out' vars ps3 = Inr ps4" "c' = c\<lparr>last_res := Some out, c_ps := Some ps4\<rparr>"
proof -
  obtain cc where cc: "GetCryptoContext lib (computation c) = Inr cc"
    using assms by (cases "GetCryptoContext lib (computation c)") (simp_all add: generate_constraints_def)
  then have b: "context_backend lib (computation c) = context_ops lib cc" by (simp add: context_backend_def)
  obtain out where out: "eval_root (context_ops lib cc) c () = Inr (out, ())"
    using assms cc by (cases "eval_root (context_ops lib cc) c ()") (auto simp: generate_constraints_def evaluate_def b)
  let ?c = "c\<lparr>last_res := Some out\<rparr>"
  obtain ps1 where ps1: "declare_inputs lib CONSTRAINT_GENERATION ?c (new_ps lib cc) = Inr ps1"
    using assms cc out by (cases "declare_inputs lib CONSTRAINT_GENERATION ?c (new_ps lib cc)")
      (simp_all add: generate_constraints_def evaluate_def b)
  obtain vars ps2 where ps2: "ConstrainPublicOutput lib out ps1 = Inr (vars, ps2)"
    using assms cc out ps1 by (cases "ConstrainPublicOutput lib out ps1") (auto simp: generate_constraints_def evaluate_def b)
  obtain out' ps3 where ps3: "eval_root (ps_ops lib) ?c ps2 = Inr (out', ps3)"
    using assms cc out ps1 ps2 by (cases "eval_root (ps_ops lib) ?c ps2") (auto simp: generate_constraints_def evaluate_def b)
  from assms cc out ps1 ps2 ps3 obtain ps4 where "FinalizeOutputConstraints lib out' vars ps3 = Inr ps4"
      "c' = ?c\<lparr>c_ps := Some ps4\<rparr>"
    by (auto simp: generate_constraints_def evaluate_def b map_sum_Inr_iff)
  with cc out ps1 ps2 ps3 that show ?thesis by blast
qed

text \<open>Generating the constraints for an output leaves a satisfied system, the same for whoever generates it.\<close>

lemma constraints_recorded:
  assumes "recording_ok lib" and "generate_constraints lib True c = Inr c'"
  obtains out ps where "c' = c\<lparr>last_res := Some out, c_ps := Some ps\<rparr>" "\<not> stop_flag c"
    "satisfied lib ps" "ls_wf (get_constraint_system lib ps) (primary_input lib ps) (auxiliary_input lib ps)"
    "\<And>e. same_walk c e \<Longrightarrow> last_res e = Some out \<Longrightarrow> generate_constraints lib False e = Inr (e\<lparr>c_ps := Some ps\<rparr>)"
proof -
  from assms(2) obtain cc out ps1 vars ps2 out' ps3 ps4 where
    cc: "GetCryptoContext lib (computation c) = Inr cc"
    and ev: "eval_root (context_ops lib cc) c () = Inr (out, ())"
    and ps1: "declare_inputs lib CONSTRAINT_GENERATION (c\<lparr>last_res := Some out\<rparr>) (new_ps lib cc) = Inr ps1"
    and ps2: "ConstrainPublicOutput lib out ps1 = Inr (vars, ps2)"
    and ps3: "eval_root (ps_ops lib) (c\<lparr>last_res := Some out\<rparr>) ps2 = Inr (out', ps3)"
    and ps4: "FinalizeOutputConstraints lib out' vars ps3 = Inr ps4" and c': "c' = c\<lparr>last_res := Some out, c_ps := Some ps4\<rparr>"
    by (rule generate_constraints_steps)
  have w: "same_walk (c\<lparr>last_res := Some out\<rparr>) c" by (simp add: same_walk_def)
  from ev obtain r where r: "ast_root (c_ast c) = Some r" "\<not> stop_flag c"
    "evaluates (context_ops lib cc) (ciphertexts (computation c)) (ast_nodes (c_ast c)) r () out ()"
    by (rule eval_root_evaluates) blast
  from ps3 r(1) have e: "evaluates (ps_ops lib) (ciphertexts (computation c)) (ast_nodes (c_ast c)) r ps2 out' ps3"
    unfolding eval_root_cong [OF w] by (auto elim: eval_root_evaluates)
  note rec = recording_okD [OF assms(1)]
  from evaluates_agree [OF r(3) rec(1) e] have out: "out' = out" by simp
  have "satisfied lib ps1" by (rule declare_inputs_keeps [where P = "satisfied lib", OF ps1 rec(3)]) (rule rec(4))
  then have "satisfied lib ps2" by (rule rec(5)) (rule ps2)
  with evaluates_keeps [OF e rec(2)] have "satisfied lib ps3" by blast
  then have ok: "satisfied lib ps4"
      "ls_wf (get_constraint_system lib ps4) (primary_input lib ps4) (auxiliary_input lib ps4)"
    using rec(6) [OF ps2] ps4 out by blast+
  have "generate_constraints lib False e = Inr (e\<lparr>c_ps := Some ps4\<rparr>)" if w': "same_walk c e" "last_res e = Some out" for e
  proof -
    have "GetCryptoContext lib (computation e) = Inr cc" using cc w'(1) by (simp add: same_walk_def GetCryptoContext_def)
    moreover have "same_walk (c\<lparr>last_res := Some out\<rparr>) e" using w'(1) by (simp add: same_walk_def)
    ultimately show ?thesis
      using ps1 ps2 ps3 ps4 w'(2) out
      by (simp add: generate_constraints_def eval_root_cong [of _ e] declare_inputs_cong [of _ e])
  qed
  with c' r(2) ok that show ?thesis by blast
qed

text \<open>The argument made for a satisfied system is accepted.\<close>

lemma argument_accepted:
  assumes "aurora_ok lib" and "satisfied lib ps"
    and "ls_wf (get_constraint_system lib ps) (primary_input lib ps) (auxiliary_input lib ps)"
    and "c_ps c = Some ps" and "c_ps e = Some ps" and "generate_argument lib c = Inr arg"
  shows "verify_argument lib arg e = Inr True"
proof -
  obtain cs prim aux where inst: "aurora_instance lib ps = (cs, prim, aux)" by (cases "aurora_instance lib ps")
  have "rounds_up (ff_log2 lib)" "constant_lc (lc_const lib)" using assms(1) by (simp_all add: aurora_ok_def)
  from padded_solutions [OF this assms(3)] assms(2) inst have "liop_satisfied cs prim aux" "aurora_sizes cs"
    by (auto simp: aurora_instance_def Let_def satisfied_def aurora_sizes_def)
  moreover from assms(4,6) inst have "aurora_snark_prover lib cs prim aux (aurora_params cs) = Inr arg"
    by (simp add: generate_argument_def)
  ultimately have "aurora_snark_verifier lib cs prim arg (aurora_params cs)"
    using assms(1) unfolding aurora_ok_def by blast
  with assms(5) inst show ?thesis by (simp add: verify_argument_def)
qed

lemma proof_accepted:
  assumes "codecs_ok lib" and "recording_ok lib" and "aurora_ok lib" and "generate_proof lib c = Inr c'"
  obtains out ps p where "c' = c\<lparr>last_res := Some out, c_ps := Some ps, c_proof := p\<rparr>" "p \<noteq> []" "\<not> stop_flag c"
    "\<And>e. same_walk c e \<Longrightarrow> last_res e = Some out \<Longrightarrow> \<exists>e'. verify_proof lib p e = Inr (True, e')"
proof -
  from assms(4) obtain c1 arg where c1: "generate_constraints lib True c = Inr c1" "generate_argument lib c1 = Inr arg"
      "c' = c1\<lparr>c_proof := ser_arg lib arg\<rparr>"
    by (auto simp: generate_proof_def map_sum_Inr_iff split: sum.splits)
  from constraints_recorded [OF assms(2) c1(1)] obtain out ps where
    o: "c1 = c\<lparr>last_res := Some out, c_ps := Some ps\<rparr>" "\<not> stop_flag c" "satisfied lib ps"
    "ls_wf (get_constraint_system lib ps) (primary_input lib ps) (auxiliary_input lib ps)"
    and g: "\<And>e. same_walk c e \<Longrightarrow> last_res e = Some out \<Longrightarrow> generate_constraints lib False e = Inr (e\<lparr>c_ps := Some ps\<rparr>)"
    by blast
  have "verify_proof lib (ser_arg lib arg) e = Inr (True, e\<lparr>c_ps := Some ps\<rparr>)" if "same_walk c e" "last_res e = Some out" for e
    using g [OF that] argument_accepted [OF assms(3) o(3,4) _ _ c1(2), of "e\<lparr>c_ps := Some ps\<rparr>"] o(1) assms(1)
    by (simp add: verify_proof_def codecs_ok_def)
  with that [where out = out and ps = ps and p = "ser_arg lib arg"] o(1,2) c1(3) assms(1) show ?thesis by (auto simp: codecs_ok_def)
qed

subsection \<open>FHE computations are lawful\<close>

text \<open>A computation as it comes from its constructors.\<close>

definition fresh_computer :: "('ct, 'pk, 'ps) fhe_computer \<Rightarrow> bool" where
  "fresh_computer c \<longleftrightarrow> \<not> is_bound (computation c) \<and> ASTree (expression (computation c)) = Some (Inr (c_ast c))"

lemma fresh_from_constructor: "FHEComputer_of fc = Inr c \<Longrightarrow> \<not> is_bound fc \<Longrightarrow> fresh_computer c"
  by (auto simp: FHEComputer_of_def fresh_computer_def ended_def map_sum_Inr_iff split: option.splits)

text \<open>The copy that a peer makes of a message.\<close>

lemma received_copy:
  assumes lib: "codecs_ok lib" and "original_ciphertexts (computation c) = x # xs"
    and "GetCryptoContext lib (computation c) = Inr (context_of lib x)"
    and "ASTree (expression (computation c)) = Some (Inr (c_ast c))" and "last_res c = Some out"
  shows "\<exists>pc e. computer_to_proto lib c = Inr pc \<and> computer_from_proto lib pc = Inr e
    \<and> computation e = (computation c)\<lparr>ciphertexts := x # xs, unbound_ciphertexts_archive := [], is_bound := False\<rparr>
    \<and> c_ast e = c_ast c \<and> c_proof e = c_proof c \<and> last_res e = Some out \<and> \<not> stop_flag e"
proof -
  have de: "de_ct lib (ser_ct lib y) = Inr y" "ser_ct lib y \<noteq> []" "de_pk lib (ser_pk lib k) = Inr k"
      "DeserializeEvalMultKey lib cc (SerializeEvalMultKey lib cc) = Inr ()" for y k cc
    using lib by (simp_all add: codecs_ok_def)
  have "map_res (de_ct lib) (map (ser_ct lib) ys) = Inr ys" for ys by (induction ys) (simp_all add: de)
  with assms(2-5) de show ?thesis
    by (cases "computation c") (simp add: computer_to_proto_def computer_from_proto_def computation_from_proto_def
        GetCryptoContext_def FHEComputer_of_def ended_def Let_def)
qed

lemma binding_same:
  assumes "bind_inputs_to_data lib d fc = Inr fc'" and "\<not> is_bound fc"
  shows "bind_inputs_to_data lib d (fc\<lparr>unbound_ciphertexts_archive := [], is_bound := False\<rparr>) = Inr fc'"
  using assms by (cases fc; cases "ciphertexts fc") (simp_all add: bind_inputs_to_data_def GetCryptoContext_def Let_def)

lemma first_binding:
  assumes "bind_inputs_to_data lib d fc = Inr fc'" and "\<not> is_bound fc"
  shows "\<exists>cts x xs. fc' = fc\<lparr>ciphertexts := cts, unbound_ciphertexts_archive := ciphertexts fc, is_bound := True\<rparr>
    \<and> ciphertexts fc = x # xs \<and> GetCryptoContext lib fc = Inr (context_of lib x)"
proof -
  from bind_inputsE [OF assms(1)] obtain cc cts where b: "GetCryptoContext lib fc = Inr cc"
      "fc' = fc\<lparr>ciphertexts := cts, unbound_ciphertexts_archive := original_ciphertexts fc, is_bound := True\<rparr>"
    by metis
  from b(1) obtain x xs where "ciphertexts fc = x # xs" "GetCryptoContext lib fc = Inr (context_of lib x)"
    by (cases "ciphertexts fc") (simp_all add: GetCryptoContext_def)
  with b(2) assms(2) show ?thesis unfolding original_ciphertexts_def by auto
qed

lemma fresh_mined_ready:
  assumes lib: "codecs_ok lib" "contexts_ok lib" "recording_ok lib" "aurora_ok lib" and "fresh_computer c"
    and ser: "computer_serialize lib False c = Inr (s, c)"
    and b: "bind_to_data lib d c = Inr c1" and g: "generate_proof lib c1 = Inr c2"
  shows "ready (fhe_ops lib gh) d s (defined_or 0 (difficulty c)) c2"
proof -
  let ?fc = "computation c"
  from assms(5) have fresh: "\<not> is_bound ?fc" "ASTree (expression ?fc) = Some (Inr (c_ast c))" by (simp_all add: fresh_computer_def)
  from b obtain fc1 where fc1: "bind_inputs_to_data lib d ?fc = Inr fc1" "c1 = c\<lparr>computation := fc1\<rparr>"
    by (auto simp: bind_to_data_def map_sum_Inr_iff)
  obtain out ps p where
    c2: "c2 = c1\<lparr>last_res := Some out, c_ps := Some ps, c_proof := p\<rparr>" "p \<noteq> []" "\<not> stop_flag c1"
    and v: "\<And>e. same_walk c1 e \<Longrightarrow> last_res e = Some out \<Longrightarrow> \<exists>e'. verify_proof lib p e = Inr (True, e')"
    by (rule proof_accepted [OF lib(1,3,4) g], rule that) (assumption | blast)+
  from first_binding [OF fc1(1) fresh(1)] obtain cts x xs where
    fc1_eq: "fc1 = ?fc\<lparr>ciphertexts := cts, unbound_ciphertexts_archive := ciphertexts ?fc, is_bound := True\<rparr>"
    and x: "ciphertexts ?fc = x # xs" "GetCryptoContext lib ?fc = Inr (context_of lib x)"
    by blast
  from binding_keeps_context [OF lib(2) fc1(1)] have cc: "GetCryptoContext lib fc1 = GetCryptoContext lib ?fc" .
  have "original_ciphertexts (computation c2) = x # xs" "GetCryptoContext lib (computation c2) = Inr (context_of lib x)"
      "ASTree (expression (computation c2)) = Some (Inr (c_ast c2))" "last_res c2 = Some out"
    using c2(1) fc1(2) fc1_eq x cc fresh(2) by (simp_all add: original_ciphertexts_def)
  from received_copy [OF lib(1) this] obtain pc e where
    e: "computer_to_proto lib c2 = Inr pc" "computer_from_proto lib pc = Inr e"
      "computation e = (computation c2)\<lparr>ciphertexts := x # xs, unbound_ciphertexts_archive := [], is_bound := False\<rparr>"
      "c_ast e = c_ast c2" "c_proof e = c_proof c2" "last_res e = Some out" "\<not> stop_flag e" by blast
  have e_fc: "computation e = ?fc\<lparr>unbound_ciphertexts_archive := [], is_bound := False\<rparr>"
    using e(3) c2(1) fc1(2) fc1_eq x(1) by (cases ?fc) simp
  from binding_same [OF fc1(1) fresh(1)] have be: "bind_inputs_to_data lib d (computation e) = Inr fc1" unfolding e_fc by simp
  have "computer_serialize lib False e = Inr (s, e)"
    using ser x(2) fresh(1) e_fc
    by (cases ?fc) (auto simp: computer_serialize_def computation_serialize_def GetCryptoContext_def original_ciphertexts_def)
  moreover have "difficulty e = difficulty c"
    using e(4) c2(1) fc1(2) by (simp add: difficulty_def root_of_def)
  moreover have "same_walk c1 (e\<lparr>computation := fc1\<rparr>)"
    using e(4,7) c2(1,3) fc1(2) by (simp add: same_walk_def)
  with v [of "e\<lparr>computation := fc1\<rparr>"] e(6) obtain e' where "verify_proof lib p (e\<lparr>computation := fc1\<rparr>) = Inr (True, e')" by auto
  moreover have "bind_to_data lib d e = Inr (e\<lparr>computation := fc1\<rparr>)" using be by (simp add: bind_to_data_def)
  moreover have "computer_proof (e\<lparr>computation := fc1\<rparr>) = Inr p" using e(5) c2(1,2) by (simp add: computer_proof_def)
  ultimately have "proves (fhe_ops lib gh) d s (defined_or 0 (difficulty c)) e"
    unfolding proves_def by (auto simp: fhe_ops_def)
  with e(1,2) show ?thesis by (auto simp: ready_def fhe_ops_def defined_or_def)
qed

text \<open>A copy of a message without an output cannot verify a proof, so a ready computation has its output.\<close>

lemma ready_has_output:
  assumes "ready (fhe_ops lib gh) d s n c" and "computer_to_proto lib c = Inr pc"
  shows "last_res c \<noteq> None"
proof
  assume "last_res c = None"
  with assms(2) have pc: "pc_output pc = []" by (auto simp: computer_to_proto_def split: sum.splits)
  from assms obtain e c1 p c2 where e: "computer_from_proto lib pc = Inr e" "bind_to_data lib d e = Inr c1"
      "verify_proof lib p c1 = Inr (True, c2)"
    by (auto simp: ready_def proves_def fhe_ops_def defined_or_def)
  from e(1) pc have "last_res e = None"
    by (auto simp: computer_from_proto_def FHEComputer_of_def map_sum_Inr_iff split: sum.splits)
  with e(2) have "last_res c1 = None" by (auto simp: bind_to_data_def map_sum_Inr_iff)
  with e(3) show False
    by (auto simp: verify_proof_def generate_constraints_def split: sum.splits)
qed


subsection \<open>The instance\<close>

lemma demo_agree: "agree (demo_backend :: (byte, 's) backend) (demo_backend :: (byte, 't) backend)"
  by (simp add: agree_def same1_def demo_backend_def)

lemma demo_keeps: "all_keep P (demo_backend :: (byte, 's) backend)"
  by (simp add: all_keep_def keeps_def demo_backend_def)

lemma demo_libraries: "codecs_ok demo_lib" "contexts_ok demo_lib" "recording_ok demo_lib" "aurora_ok demo_lib"
proof -
  show "codecs_ok demo_lib" by (simp add: codecs_ok_def demo_lib_def read_byte_def)
  show "contexts_ok demo_lib" by (simp add: contexts_ok_def demo_lib_def)
  have "satisfied demo_lib ps" for ps by (simp add: satisfied_def ls_satisfied_def ls_value_def demo_lib_def)
  then show "recording_ok demo_lib"
    unfolding recording_ok_def by (simp add: demo_lib_def demo_agree demo_keeps ls_wf_def size_u64)
  show "aurora_ok demo_lib"
    by (simp add: aurora_ok_def demo_lib_def ceillog2_rounds_up constant_term_constant)
qed


text \<open>
  A round of mining: binding to all the data in turn, the last one for good, proving, sending, and
  the peer's answer.
\<close>

definition mined_and_checked :: "bytes list \<Rightarrow> (byte, byte, bytes) fhe_computer \<Rightarrow> bool result" where
  "mined_and_checked datas c =
     (case fold_res (bind_to_data demo_lib) datas c of Inl e \<Rightarrow> Inl e
      | Inr c1 \<Rightarrow>
     (case generate_proof demo_lib c1 of Inl e \<Rightarrow> Inl e
      | Inr c2 \<Rightarrow>
     (case computer_to_proto demo_lib c2 of Inl e \<Rightarrow> Inl e
      | Inr pc \<Rightarrow>
     (case computer_from_proto demo_lib pc of Inl e \<Rightarrow> Inl e
      | Inr e1 \<Rightarrow>
     (case bind_to_data demo_lib (last datas) e1 of Inl e \<Rightarrow> Inl e
      | Inr e2 \<Rightarrow>
     (case computer_proof e2 of Inl e \<Rightarrow> Inl e
      | Inr p \<Rightarrow> map_sum id fst (verify_proof demo_lib p e2)))))))"

definition demo_computer :: "(byte, byte, bytes) fhe_computer result" where
  "demo_computer = FHEComputer_of (demo_computation ''0*1+1'' [3, 5])"

text \<open>Binding accumulates: the proof that a miner makes in a second attempt, after an interrupted one, is
  for inputs that carry both bindings, and the peer, which binds once, rejects it; without the first
  attempt the same proof is accepted.\<close>

theorem second_attempt_rejected:
  "(case demo_computer of Inl e \<Rightarrow> Inl e | Inr c \<Rightarrow> mined_and_checked [[7]] c) = Inr True
   \<and> (case demo_computer of Inl e \<Rightarrow> Inl e | Inr c \<Rightarrow> mined_and_checked [[5], [7]] c) = Inr False"
  by (rule conjI; code_simp)

definition bound_demo :: "bytes \<Rightarrow> (byte, byte, bytes) fhe_computer result" where
  "bound_demo d = (case demo_computer of Inl e \<Rightarrow> Inl e | Inr c \<Rightarrow> bind_to_data demo_lib d c)"

lemma case_InrD: "(case r of Inl e \<Rightarrow> Inl e | Inr x \<Rightarrow> f x) = Inr y \<Longrightarrow> \<exists>x. r = Inr x \<and> f x = Inr y"
  by (cases r) simp_all

theorem binding_invisible_witness:
  "\<exists>c c'. demo_computer = Inr c \<and> bind_to_data demo_lib [7] c = Inr c' \<and> ciphertexts (computation c') = [10, 13]
    \<and> serialize_for_hash demo_lib c' = serialize_for_hash demo_lib c"
proof -
  have "map_sum id (\<lambda>c. ciphertexts (computation c)) (bound_demo [7]) = Inr [10, 13]" by code_simp
  then obtain c' where "bound_demo [7] = Inr c'" "ciphertexts (computation c') = [10, 13]"
    by (auto simp: map_sum_Inr_iff)
  moreover from this(1) obtain c where "demo_computer = Inr c" "bind_to_data demo_lib [7] c = Inr c'"
    unfolding bound_demo_def by (blast dest: case_InrD)
  ultimately show ?thesis using binding_invisible [OF demo_libraries(2)] by blast
qed

end
