(* ===== verification/Net.thy ===== *)
theory Net
  imports Msg Json
begin

text \<open>
  \<^verbatim>\<open>src/src/net/peer.cpp\<close> and \<^verbatim>\<open>src/src/net/conn_mngr.cpp\<close>: connections to other nodes.

  A peer is a shared object whose id changes, so peers live in a heap and the two maps of the
  connection manager hold pointers, which may be null.  Bytes arrive in chunks, of which a read
  takes what is there and what it has asked for.  Handlers run one after the other; locks and
  coroutines are not modelled.  Connecting is a parameter: the remote end of the new socket, or the
  exception; what is written to a peer is appended to a log.
\<close>

subsection \<open>Reading\<close>

text \<open>The loops that read until \<open>n\<close> bytes are there; \<open>None\<close>: they still wait.\<close>

fun read_exact :: "nat \<Rightarrow> bytes list \<Rightarrow> (bytes \<times> bytes list) option" where
  "read_exact n [] = (if n = 0 then Some ([], []) else None)"
| "read_exact n (c # cs) =
     (if n = 0 then Some ([], c # cs)
      else if n < length c then Some (take n c, drop n c # cs)
      else map_option (\<lambda>(b, cs'). (c @ b, cs')) (read_exact (n - length c) cs))"

text \<open>One frame: its header, then as many bytes as it announces.  A negative length is no size of a vector.\<close>

definition read_frame :: "bytes list \<Rightarrow> ((message_type \<times> bytes) \<times> bytes list) option result" where
  "read_frame cs =
     (case read_exact 8 cs of None \<Rightarrow> Inr None
      | Some (header, cs1) \<Rightarrow>
          (case parse_header header of Inl e \<Rightarrow> Inl e
           | Inr (msg_len, msg_type) \<Rightarrow>
               if sint msg_len < 0 then Inl (Logic_error ''vector::_M_default_append'')
               else Inr (map_option (\<lambda>(b, cs2). ((msg_type, b), cs2)) (read_exact (nat (sint msg_len)) cs1))))"

lemma read_exact_consumes:
  "read_exact n cs = Some (b, cs') \<Longrightarrow> concat cs = b @ concat cs' \<and> length b = n"
proof (induction n cs arbitrary: b cs' rule: read_exact.induct)
  case (2 n c cs)
  show ?case
  proof (cases "n = 0 \<or> n < length c")
    case True
    with "2.prems" show ?thesis by (auto split: if_splits)
  next
    case False
    with "2.prems" obtain b' where b: "read_exact (n - length c) cs = Some (b', cs')" "b = c @ b'" by auto
    with False "2.IH" [OF _ _ b(1)] show ?thesis by simp
  qed
qed (simp split: if_splits)

lemma read_frame_consumes:
  "read_frame cs = Inr (Some (m, cs')) \<Longrightarrow> length (concat cs') < length (concat cs)"
  by (auto simp: read_frame_def dest!: read_exact_consumes split: option.splits sum.splits if_splits)

text \<open>
  \<open>Peer::listen\<close> until the bytes run out: every frame goes to the router with the state \<open>s\<close> of the
  node, and its answer is written back.  Returns the answers, the bytes left and the state.
\<close>

function (sequential) listen_loop ::
  "(message_type \<Rightarrow> bytes \<Rightarrow> 's \<Rightarrow> (bytes \<times> 's) result) \<Rightarrow> bytes list \<Rightarrow> bytes \<Rightarrow> 's \<Rightarrow> (bytes \<times> bytes list \<times> 's) result" where
  "listen_loop route cs out s =
     (case read_frame cs of Inl e \<Rightarrow> Inl e
      | Inr None \<Rightarrow> Inr (out, cs, s)
      | Inr (Some ((mt, data), cs')) \<Rightarrow>
          (case route mt data s of Inl e \<Rightarrow> Inl e
           | Inr (resp, s') \<Rightarrow> listen_loop route cs' (out @ resp) s'))"
  by pat_completeness auto
termination listen_loop
  by (relation "measure (\<lambda>(_, cs, _, _). length (concat cs))") (auto simp: read_frame_consumes)

declare listen_loop.simps [simp del]

text \<open>A message in its frame, as the builders and handlers of the node make it.\<close>

definition frame :: "message_type \<Rightarrow> bytes \<Rightarrow> bytes result" where
  "frame mt payload =
     (let len = (word_of_nat (length payload) :: i32)
      in if 2 ^ 31 \<le> 8 + sint len then Inl (Undefined ''signed overflow'')
         else if 8 + sint len < 0 then Inl (Logic_error ''cannot create std::vector larger than max_size()'')
         else case write_header len (int_of_message_type mt) (replicate (nat (8 + sint len)) 0) of Inl e \<Rightarrow> Inl e
         | Inr v \<Rightarrow> if 2 ^ 31 \<le> length payload then Inl (Runtime_error ''Could not serialize message'')
                   else Inr (take 8 v @ payload))"

subsection \<open>Peers\<close>

record peer =
  p_id :: string
  real_addr :: "string \<times> i32"
  l_addr :: string
  l_port :: i32
  incoming :: "bytes list"

definition new_peer :: "string \<times> i32 \<Rightarrow> bytes list \<Rightarrow> peer" where
  "new_peer ep cs = \<lparr>p_id = addr_and_port_to_str (fst ep) (snd ep), real_addr = ep, l_addr = [], l_port = 0, incoming = cs\<rparr>"

definition update_addr_info :: "string \<Rightarrow> i32 \<Rightarrow> peer \<Rightarrow> peer" where
  "update_addr_info new_addr new_port p =
     p\<lparr>p_id := addr_and_port_to_str new_addr new_port, l_addr := new_addr, l_port := new_port\<rparr>"

definition get_listening_addr :: "peer \<Rightarrow> string \<times> i32" where
  "get_listening_addr p = (if length (l_addr p) = 0 then real_addr p else (l_addr p, l_port p))"

text \<open>The answer that \<open>Peer::send\<close> waits for is whatever frame comes next; its type is not looked at.\<close>

definition receive_answer :: "peer \<Rightarrow> (bytes \<times> peer) result" where
  "receive_answer p =
     (case read_frame (incoming p) of Inl e \<Rightarrow> Inl e
      | Inr None \<Rightarrow> Inl (Runtime_error ''End of file'')
      | Inr (Some ((_, resp), cs)) \<Rightarrow> Inr (resp, p\<lparr>incoming := cs\<rparr>))"

subsection \<open>ConnectionManager\<close>

type_synonym peer_map = "(string \<times> nat option) list"

record conn_mngr =
  peer_heap :: "nat \<Rightarrow> peer"
  next_peer :: nat
  inbound_peer_map :: peer_map
  outbound_peer_map :: peer_map
  outbound_peers_lim :: i32
  inbound_peers_lim :: i32
  listening_address :: string
  listening_port :: i32
  sent :: "(nat \<times> bytes) list"

text \<open>The constructor, from the configuration.\<close>

definition ConnectionManager :: "json \<Rightarrow> conn_mngr result" where
  "ConnectionManager config =
     (case json_entry ''net'' config of Inl e \<Rightarrow> Inl e
      | Inr net \<Rightarrow>
          (let field = (\<lambda>key get. case json_entry key net of Inl e \<Rightarrow> Inl e | Inr v \<Rightarrow> get v)
           in case (field ''outbound_peers_limit'' get_int, field ''inbound_peers_limit'' get_int, field ''port'' get_int) of
                (Inr outb, Inr inb, Inr port) \<Rightarrow>
                  (case json_entry ''address'' net of Inl e \<Rightarrow> Inl e
                   | Inr a \<Rightarrow>
                       map_sum id (\<lambda>addr. \<lparr>peer_heap = (\<lambda>_. new_peer ([], 0) []), next_peer = 0, inbound_peer_map = [],
                                          outbound_peer_map = [], outbound_peers_lim = outb, inbound_peers_lim = inb,
                                          listening_address = addr, listening_port = port, sent = []\<rparr>)
                         (get_string a))
              | _ \<Rightarrow> Inl Json_type_error))"

text \<open>A socket with the given remote end, and what it will deliver.\<close>

type_synonym dialler = "string \<Rightarrow> i32 \<Rightarrow> ((string \<times> i32) \<times> bytes list) result"

definition make_peer :: "(string \<times> i32) \<times> bytes list \<Rightarrow> conn_mngr \<Rightarrow> nat \<times> conn_mngr" where
  "make_peer s cm =
     (next_peer cm, cm\<lparr>peer_heap := (peer_heap cm)(next_peer cm := new_peer (fst s) (snd s)), next_peer := next_peer cm + 1\<rparr>)"

text \<open>A size compared with an \<open>int\<close>, which is converted.\<close>

definition size_is :: "peer_map \<Rightarrow> i32 \<Rightarrow> bool" where
  "size_is m lim \<longleftrightarrow> (word_of_nat (length m) :: u64) = scast lim"

definition outbound_full :: "conn_mngr \<Rightarrow> bool" where
  "outbound_full cm = size_is (outbound_peer_map cm) (outbound_peers_lim cm)"

definition inbound_full :: "conn_mngr \<Rightarrow> bool" where
  "inbound_full cm = size_is (inbound_peer_map cm) (inbound_peers_lim cm)"

definition peer_exists_outbound :: "string \<Rightarrow> conn_mngr \<Rightarrow> bool" where
  "peer_exists_outbound peerID cm \<longleftrightarrow> map_of (outbound_peer_map cm) peerID \<noteq> None"

definition peer_exists_inbound :: "string \<Rightarrow> conn_mngr \<Rightarrow> bool" where
  "peer_exists_inbound peerID cm \<longleftrightarrow> map_of (inbound_peer_map cm) peerID \<noteq> None"

definition peer_exists :: "string \<Rightarrow> i32 \<Rightarrow> conn_mngr \<Rightarrow> bool" where
  "peer_exists address port cm =
     (let pid = addr_and_port_to_str address port in peer_exists_inbound pid cm \<or> peer_exists_outbound pid cm)"

definition add_to_outbound :: "nat \<Rightarrow> conn_mngr \<Rightarrow> conn_mngr" where
  "add_to_outbound p cm =
     (if outbound_full cm then cm
      else cm\<lparr>outbound_peer_map := AList.update (p_id (peer_heap cm p)) (Some p) (outbound_peer_map cm)\<rparr>)"

definition add_to_inbound :: "nat \<Rightarrow> conn_mngr \<Rightarrow> conn_mngr" where
  "add_to_inbound p cm =
     (if inbound_full cm then cm
      else cm\<lparr>inbound_peer_map := AList.update (p_id (peer_heap cm p)) (Some p) (inbound_peer_map cm)\<rparr>)"

definition remove_peer_from_inbound :: "string \<Rightarrow> conn_mngr \<Rightarrow> conn_mngr" where
  "remove_peer_from_inbound peerID cm = cm\<lparr>inbound_peer_map := AList.delete peerID (inbound_peer_map cm)\<rparr>"

text \<open>\<open>listener\<close>: an accepted socket is listened to even where the map is full and does not take it.\<close>

definition accept :: "(string \<times> i32) \<times> bytes list \<Rightarrow> conn_mngr \<Rightarrow> nat \<times> conn_mngr" where
  "accept s cm = (let (p, cm1) = make_peer s cm in (p, add_to_inbound p cm1))"

definition listen_failed :: "nat \<Rightarrow> conn_mngr \<Rightarrow> conn_mngr" where
  "listen_failed p cm = remove_peer_from_inbound (p_id (peer_heap cm p)) cm"

text \<open>\<open>operator[]\<close> of a map: a missing key is entered with a null pointer.\<close>

definition map_index :: "string \<Rightarrow> peer_map \<Rightarrow> nat option \<times> peer_map" where
  "map_index key m = (case map_of m key of Some p \<Rightarrow> (p, m) | None \<Rightarrow> (None, AList.update key None m))"

definition update_inb_peer_addr_info :: "string \<Rightarrow> string \<Rightarrow> i32 \<Rightarrow> conn_mngr \<Rightarrow> conn_mngr result" where
  "update_inb_peer_addr_info peerID new_addr new_port cm =
     (case map_index peerID (inbound_peer_map cm) of
        (None, _) \<Rightarrow> Inl (Undefined ''null peer'')
      | (Some p, m) \<Rightarrow>
          (let heap = (peer_heap cm)(p := update_addr_info new_addr new_port (peer_heap cm p));
               m1 = AList.update (p_id (heap p)) (Some p) m
           in Inr (cm\<lparr>peer_heap := heap,
                      inbound_peer_map := (if peerID \<noteq> p_id (heap p) then AList.delete peerID m1 else m1)\<rparr>)))"

fun listening_addrs :: "(nat \<Rightarrow> peer) \<Rightarrow> peer_map \<Rightarrow> (string \<times> i32) list result" where
  "listening_addrs h [] = Inr []"
| "listening_addrs h ((_, None) # m) = Inl (Undefined ''null peer'')"
| "listening_addrs h ((_, Some p) # m) = map_sum id (Cons (get_listening_addr (h p))) (listening_addrs h m)"

definition collect_peers :: "conn_mngr \<Rightarrow> (string \<times> i32) list result" where
  "collect_peers cm = listening_addrs (peer_heap cm) (inbound_peer_map cm @ outbound_peer_map cm)"

definition connect_to_peer :: "dialler \<Rightarrow> string \<Rightarrow> i32 \<Rightarrow> conn_mngr \<Rightarrow> conn_mngr result" where
  "connect_to_peer dial addr port cm =
     (case dial addr port of Inl e \<Rightarrow> Inl e
      | Inr s \<Rightarrow> (let (p, cm1) = make_peer s cm in Inr (add_to_outbound p cm1)))"

text \<open>The peer for an address: an inbound one, an outbound one, or a new connection.\<close>

definition peer_for :: "dialler \<Rightarrow> string \<Rightarrow> i32 \<Rightarrow> conn_mngr \<Rightarrow> (nat option \<times> conn_mngr) result" where
  "peer_for dial addr port cm =
     (let peerID = addr_and_port_to_str addr port
      in if peer_exists_inbound peerID cm then Inr (fst (map_index peerID (inbound_peer_map cm)), cm)
         else if peer_exists_outbound peerID cm then Inr (fst (map_index peerID (outbound_peer_map cm)), cm)
         else case connect_to_peer dial addr port cm of Inl e \<Rightarrow> Inl e
         | Inr cm1 \<Rightarrow>
             (let (p, m) = map_index peerID (outbound_peer_map cm1) in Inr (p, cm1\<lparr>outbound_peer_map := m\<rparr>)))"

definition send_bytes :: "bytes \<Rightarrow> nat \<Rightarrow> conn_mngr \<Rightarrow> conn_mngr" where
  "send_bytes data p cm = cm\<lparr>sent := sent cm @ [(p, data)]\<rparr>"

definition async_send :: "nat option \<Rightarrow> bytes \<Rightarrow> conn_mngr \<Rightarrow> conn_mngr result" where
  "async_send p data cm = (case p of None \<Rightarrow> Inl (Undefined ''null peer'') | Some p \<Rightarrow> Inr (send_bytes data p cm))"

definition async_send_to_peer :: "dialler \<Rightarrow> string \<Rightarrow> i32 \<Rightarrow> bytes \<Rightarrow> conn_mngr \<Rightarrow> conn_mngr result" where
  "async_send_to_peer dial addr port data cm =
     (case peer_for dial addr port cm of Inl e \<Rightarrow> Inl e | Inr (p, cm1) \<Rightarrow> async_send p data cm1)"

text \<open>
  A synchronous send.  It may fail after the peer was entered and the message sent, so the state is
  returned with the failure as well (but what is unread after a failed answer is not followed).
\<close>

definition send_to_peer :: "dialler \<Rightarrow> string \<Rightarrow> i32 \<Rightarrow> bytes \<Rightarrow> bool \<Rightarrow> conn_mngr \<Rightarrow> bytes result \<times> conn_mngr" where
  "send_to_peer dial addr port data expecting_resp cm =
     (case peer_for dial addr port cm of Inl e \<Rightarrow> (Inl e, cm)
      | Inr (None, cm1) \<Rightarrow> (Inl (Undefined ''null peer''), cm)
      | Inr (Some p, cm1) \<Rightarrow>
          (let cm2 = send_bytes data p cm1
           in if \<not> expecting_resp then (Inr [], cm2)
              else case receive_answer (peer_heap cm2 p) of Inl e \<Rightarrow> (Inl e, cm2)
              | Inr (resp, q) \<Rightarrow> (Inr resp, cm2\<lparr>peer_heap := (peer_heap cm2)(p := q)\<rparr>)))"

definition get_one_outbound :: "conn_mngr \<Rightarrow> nat option result" where
  "get_one_outbound cm = (case outbound_peer_map cm of [] \<Rightarrow> Inl Out_of_range | (_, p) # _ \<Rightarrow> Inr p)"

definition async_broadcast :: "bytes \<Rightarrow> conn_mngr \<Rightarrow> conn_mngr result" where
  "async_broadcast data cm =
     fold_res (\<lambda>(_, p). async_send p data) (inbound_peer_map cm @ outbound_peer_map cm) cm"

end
