(* ===== verification/NetCorrect.thy ===== *)
theory NetCorrect
  imports Net
begin

text \<open>
  Frames arrive as they were sent, however the network cuts them; the maps of the connection
  manager stay consistent, and what happens where they are full.
\<close>

subsection \<open>Frames\<close>

lemma read_exact_enough:
  "n \<le> length (concat cs) \<Longrightarrow> \<exists>cs'. read_exact n cs = Some (take n (concat cs), cs') \<and> concat cs' = drop n (concat cs)"
proof (induction n cs rule: read_exact.induct)
  case (2 n c cs)
  show ?case
  proof (cases "n = 0 \<or> n < length c")
    case False
    with "2.prems" have "n - length c \<le> length (concat cs)" by simp
    with False "2.IH" obtain cs' where "read_exact (n - length c) cs = Some (take (n - length c) (concat cs), cs')"
        "concat cs' = drop (n - length c) (concat cs)" by blast
    with False show ?thesis by simp
  qed (use "2.prems" in auto)
qed simp

lemma read_exact_short: "length (concat cs) < n \<Longrightarrow> read_exact n cs = None"
proof (cases "read_exact n cs")
  case (Some r)
  moreover assume "length (concat cs) < n"
  ultimately show ?thesis by (cases r) (auto dest: read_exact_consumes)
qed simp

lemma frame_layout:
  assumes "frame mt payload = Inr f"
  shows "f = int32_to_vector_big_endian (word_of_nat (length payload)) @ int32_to_vector_big_endian (int_of_message_type mt) @ payload
    \<and> 0 \<le> sint (word_of_nat (length payload) :: i32) \<and> length payload < 2 ^ 31"
proof -
  let ?len = "word_of_nat (length payload) :: i32"
  have c: "\<not> 8 + sint ?len < 0" "\<not> 2 ^ 31 \<le> 8 + sint ?len" using assms by (auto simp: frame_def Let_def split: if_splits)
  show ?thesis
  proof (cases "8 \<le> nat (8 + sint ?len)")
    case True
    then have "write_header ?len (int_of_message_type mt) (replicate (nat (8 + sint ?len)) 0) =
        Inr (int32_to_vector_big_endian ?len @ int32_to_vector_big_endian (int_of_message_type mt)
          @ drop 8 (replicate (nat (8 + sint ?len)) 0))"
      by (intro write_header_layout) simp
    with assms c True show ?thesis
      by (auto simp: frame_def Let_def int32.enc_length split: if_splits)
  next
    case False
    then have "write_header ?len (int_of_message_type mt) (replicate (nat (8 + sint ?len)) 0)
        = Inl (Invalid_argument ''Vec size for header not enough.'')" by (simp add: write_header_def)
    with assms c show ?thesis by (simp add: frame_def Let_def)
  qed
qed

lemma int_length: "n < 2 ^ 31 \<Longrightarrow> sint (word_of_nat n :: i32) = int n"
  by (simp add: signed_of_nat signed_take_bit_int_eq_self)

lemma read_frame_frame:
  assumes "frame mt payload = Inr f" and "mt \<in> set enumerators" and "concat cs = f @ rest"
  shows "\<exists>cs'. read_frame cs = Inr (Some ((mt, payload), cs')) \<and> concat cs' = rest"
proof -
  let ?len = "word_of_nat (length payload) :: i32"
  let ?h = "int32_to_vector_big_endian ?len @ int32_to_vector_big_endian (int_of_message_type mt)"
  from frame_layout [OF assms(1)] have f: "f = ?h @ payload" "length payload < 2 ^ 31" by simp_all
  have h: "length ?h = 8" by (simp add: int32.enc_length)
  with assms(3) f read_exact_enough [of 8 cs] obtain cs1 where
    1: "read_exact 8 cs = Some (?h, cs1)" "concat cs1 = payload @ rest" by auto
  have parse: "parse_header ?h = Inr (?len, mt)"
    using int32.dec_enc [of "?len"] int32.dec_enc_exact
    by (simp add: parse_header_def int32.enc_length int_of_message_type_inverse [OF assms(2)])
  have "sint ?len = int (length payload)" using f(2) by (rule int_length)
  with 1 parse read_exact_enough [of "length payload" cs1] show ?thesis by (auto simp: read_frame_def)
qed

lemma frame_made:
  assumes "length payload < 2 ^ 31 - 8"
  shows "frame mt payload =
    Inr (int32_to_vector_big_endian (word_of_nat (length payload)) @ int32_to_vector_big_endian (int_of_message_type mt) @ payload)"
proof -
  have "sint (word_of_nat (length payload) :: i32) = int (length payload)" using assms by (intro int_length) simp
  moreover have "8 \<le> nat (8 + int (length payload))" by simp
  ultimately show ?thesis using assms by (simp add: frame_def write_header_layout int32.enc_length)
qed

text \<open>Messages given to the router one after the other.\<close>

fun deliver ::
  "(message_type \<Rightarrow> bytes \<Rightarrow> 's \<Rightarrow> (bytes \<times> 's) result) \<Rightarrow> (message_type \<times> bytes) list \<Rightarrow> 's \<Rightarrow> (bytes \<times> 's) result" where
  "deliver route [] s = Inr ([], s)"
| "deliver route ((mt, data) # ms) s =
     (case route mt data s of Inl e \<Rightarrow> Inl e
      | Inr (resp, s1) \<Rightarrow> map_sum id (\<lambda>(out, s2). (resp @ out, s2)) (deliver route ms s1))"

lemma listen_frames:
  assumes "map_res (\<lambda>(mt, data). frame mt data) ms = Inr fs" and "\<forall>m \<in> set ms. fst m \<in> set enumerators"
    and "concat cs = concat fs @ rest" and "length rest < 8"
  shows "\<exists>cs'. concat cs' = rest
    \<and> listen_loop route cs out s = map_sum id (\<lambda>(resps, s'). (out @ resps, cs', s')) (deliver route ms s)"
  using assms
proof (induction ms arbitrary: fs cs out s)
  case Nil
  then have "read_exact 8 cs = None" by (intro read_exact_short) simp
  with Nil show ?case by (intro exI [of _ cs]) (simp add: listen_loop.simps read_frame_def)
next
  case (Cons m ms)
  obtain mt data where m: "m = (mt, data)" by (cases m)
  with Cons.prems(1) obtain f fs' where f: "frame mt data = Inr f" "map_res (\<lambda>(mt, data). frame mt data) ms = Inr fs'" "fs = f # fs'"
    by (auto split: sum.splits)
  from Cons.prems(2,3) f(3) m obtain cs1 where
    1: "read_frame cs = Inr (Some ((mt, data), cs1))" "concat cs1 = concat fs' @ rest"
    using read_frame_frame [OF f(1), of cs "concat fs' @ rest"] by auto
  show ?case
  proof (cases "route mt data s")
    case (Inl e)
    have "\<exists>cs' :: bytes list. concat cs' = rest" by (intro exI [of _ "[rest]"]) simp
    with 1 Inl show ?thesis by (auto simp: listen_loop.simps [of route cs] m)
  next
    case (Inr r)
    obtain resp s1 where r: "r = (resp, s1)" by (cases r)
    have "\<forall>m \<in> set ms. fst m \<in> set enumerators" using Cons.prems(2) by simp
    from Cons.IH [OF f(2) this 1(2) assms(4), of "out @ resp" s1] obtain cs' where "concat cs' = rest"
      "listen_loop route cs1 (out @ resp) s1 = map_sum id (\<lambda>(resps, s'). ((out @ resp) @ resps, cs', s')) (deliver route ms s1)"
      by blast
    with 1 Inr r show ?thesis
      by (intro exI [of _ cs'] conjI) (simp_all add: listen_loop.simps [of route cs] m sum.map_comp comp_def case_prod_unfold id_def)
  qed
qed

text \<open>C20. What a node sends is what its peer handles: when the bytes of a sequence of framed messages arrive,
  cut into chunks anyhow, \<open>listen\<close> gives exactly these messages to the router, in their order, with
  the types and contents that they were framed with, and keeps the bytes of an unfinished header.\<close>

theorem frames_delivered:
  assumes "map_res (\<lambda>(mt, data). frame mt data) ms = Inr fs" and "\<forall>m \<in> set ms. fst m \<in> set enumerators"
    and "concat cs = concat fs @ rest" and "length rest < 8"
  shows "\<exists>cs'. concat cs' = rest
    \<and> listen_loop route cs out s = map_sum id (\<lambda>(resps, s'). (out @ resps, cs', s')) (deliver route ms s)"
  using assms by (rule listen_frames)

text \<open>A router that answers every message with its type and length.\<close>

definition echo :: "message_type \<Rightarrow> bytes \<Rightarrow> nat \<Rightarrow> (bytes \<times> nat) result" where
  "echo mt data n = Inr ([ucast (int_of_message_type mt), word_of_nat (length data)], n + 1)"

theorem frames_delivered_witness:
  "\<exists>cs'. concat cs' = [0, 0] \<and>
     listen_loop echo [[0, 0, 0], [2, 0, 0, 0, 4, 7, 8, 0, 0], [0, 0, 0, 0, 0, 13], [0], [0]] [] 0 = Inr ([4, 2, 13, 0], cs', 2)"
proof -
  have "map_res (\<lambda>(mt, data). frame mt data) [(InvBlock, [7, 8]), (SyncBlock, [])]
      = Inr [[0, 0, 0, 2, 0, 0, 0, 4, 7, 8], [0, 0, 0, 0, 0, 0, 0, 13]]"
  proof -
    have "int32_to_vector_big_endian 2 = [0, 0, 0, 2]" "int32_to_vector_big_endian 4 = [0, 0, 0, 4]"
      "int32_to_vector_big_endian 0 = [0, 0, 0, 0]" "int32_to_vector_big_endian 13 = [0, 0, 0, 13]" by code_simp+
    then show ?thesis by (simp add: frame_made)
  qed
  moreover have "\<forall>m \<in> set [(InvBlock, [7, 8]), (SyncBlock, [] :: bytes)]. fst m \<in> set enumerators" by (simp add: enumerators_def)
  moreover have "concat [[0, 0, 0], [2, 0, 0, 0, 4, 7, 8, 0, 0], [0, 0, 0, 0, 0, 13], [0], [0 :: byte]]
      = concat [[0, 0, 0, 2, 0, 0, 0, 4, 7, 8], [0, 0, 0, 0, 0, 0, 0, 13]] @ [0, 0]" by simp
  moreover have "length [0, 0 :: byte] < 8" by simp
  ultimately have "\<exists>cs'. concat cs' = [0, 0] \<and>
      listen_loop echo [[0, 0, 0], [2, 0, 0, 0, 4, 7, 8, 0, 0], [0, 0, 0, 0, 0, 13], [0], [0]] [] 0 =
        map_sum id (\<lambda>(resps, s'). ([] @ resps, cs', s')) (deliver echo [(InvBlock, [7, 8]), (SyncBlock, [])] 0)"
    by (rule frames_delivered)
  moreover have "Suc (Suc 0) = 2" by simp
  ultimately show ?thesis by (simp add: echo_def del: One_nat_def)
qed

text \<open>
  The contract between the reading loop and the handler of messages: each message moves the state along
  a reflexive and transitive relation.  Then so does whatever arrives, in whatever pieces, and what the
  loop has read is a prefix of it.
\<close>

locale message_handler =
  fixes handle :: "message_type \<Rightarrow> bytes \<Rightarrow> 's \<Rightarrow> (bytes \<times> 's) result"
    and rel :: "'s \<Rightarrow> 's \<Rightarrow> bool"
  assumes rel_refl: "rel s s"
    and rel_trans: "rel s t \<Longrightarrow> rel t u \<Longrightarrow> rel s u"
    and handled: "handle mt data s = Inr (resp, s') \<Longrightarrow> rel s s'"
begin

lemma listen_step:
  assumes "listen_loop handle cs out s = Inr (out', cs', s')"
  obtains "cs' = cs" "s' = s"
    | mt data cs1 resp s1 where "read_frame cs = Inr (Some ((mt, data), cs1))" "handle mt data s = Inr (resp, s1)"
        "listen_loop handle cs1 (out @ resp) s1 = Inr (out', cs', s')"
  using assms that by (auto simp: listen_loop.simps [of handle cs] split: sum.splits option.splits prod.splits)

lemma listen_related: "listen_loop handle cs out s = Inr (out', cs', s') \<Longrightarrow> rel s s'"
proof (induction "length (concat cs)" arbitrary: cs out s rule: less_induct)
  case less
  from less.prems show ?case
  proof (cases rule: listen_step)
    case (2 mt data cs1 resp s1)
    from less.hyps [OF read_frame_consumes [OF 2(1)] 2(3)] show ?thesis using handled [OF 2(2)] by (rule rel_trans [rotated])
  qed (simp add: rel_refl)
qed

end

subsection \<open>The maps of the connection manager\<close>

text \<open>A map of live peers under their own ids, no larger than its limit.\<close>

definition entry_ok :: "conn_mngr \<Rightarrow> string \<Rightarrow> nat option \<Rightarrow> bool" where
  "entry_ok cm k v \<longleftrightarrow> (\<exists>p < next_peer cm. v = Some p \<and> k = p_id (peer_heap cm p))"

definition map_ok :: "conn_mngr \<Rightarrow> peer_map \<Rightarrow> i32 \<Rightarrow> bool" where
  "map_ok cm m lim \<longleftrightarrow> distinct (map fst m) \<and> int (length m) \<le> sint lim
     \<and> (\<forall>k v. map_of m k = Some v \<longrightarrow> entry_ok cm k v)"

text \<open>No peer is in both maps.\<close>

definition apart :: "peer_map \<Rightarrow> peer_map \<Rightarrow> bool" where
  "apart m m' \<longleftrightarrow> (\<forall>k k' v. map_of m k = Some v \<longrightarrow> map_of m' k' \<noteq> Some v)"

definition conn_ok :: "conn_mngr \<Rightarrow> bool" where
  "conn_ok cm \<longleftrightarrow> map_ok cm (inbound_peer_map cm) (inbound_peers_lim cm)
     \<and> map_ok cm (outbound_peer_map cm) (outbound_peers_lim cm)
     \<and> apart (inbound_peer_map cm) (outbound_peer_map cm)"

lemma map_okD: "map_ok cm m lim \<Longrightarrow> map_of m k = Some v \<Longrightarrow> entry_ok cm k v"
  unfolding map_ok_def by blast

lemma size_is_iff:
  assumes "int (length m) \<le> sint lim"
  shows "size_is m lim \<longleftrightarrow> int (length m) = sint lim"
proof -
  have lim: "0 \<le> sint lim" "sint lim < 2 ^ 31" using assms sint_less [of lim] by simp_all
  then have "uint (scast lim :: u64) = sint lim"
    unfolding scast_eq uint_word_of_int by (intro mod_pos_pos_trivial) simp_all
  moreover have "uint (word_of_nat (length m) :: u64) = int (length m)"
    using assms lim by (simp add: unsigned_of_nat take_bit_nat_eq_self)
  ultimately show ?thesis by (simp add: size_is_def word_uint_eq_iff)
qed

lemma length_keys: "distinct (map fst m) \<Longrightarrow> length m = card (dom (map_of m))"
  using distinct_card [of "map fst m"] by (simp add: dom_map_of_conv_image_fst)

lemma length_update: "length (AList.update k v m) \<le> Suc (length m)"
  by (induction m) auto

text \<open>Entering a peer, and keeping the entries when the heap grows.\<close>

lemma map_ok_insert:
  assumes "map_ok cm m lim" and "int (length m) < sint lim" and "p < next_peer cm"
  shows "map_ok cm (AList.update (p_id (peer_heap cm p)) (Some p) m) lim"
proof -
  have "distinct (map fst m)" using assms(1) by (simp add: map_ok_def)
  moreover have "int (length (AList.update (p_id (peer_heap cm p)) (Some p) m)) \<le> sint lim"
    using length_update [of "p_id (peer_heap cm p)" "Some p" m] assms(2) by linarith
  ultimately show ?thesis
    using assms(1,3) by (auto simp: map_ok_def distinct_update update_conv' entry_ok_def)
qed

lemma map_ok_make_peer:
  assumes "make_peer s cm = (p, cm1)"
  shows "map_ok cm m lim \<Longrightarrow> map_ok cm1 m lim" and "p < next_peer cm1" and "p = next_peer cm"
    and "inbound_peer_map cm1 = inbound_peer_map cm" and "outbound_peer_map cm1 = outbound_peer_map cm"
    and "inbound_peers_lim cm1 = inbound_peers_lim cm" and "outbound_peers_lim cm1 = outbound_peers_lim cm"
    and "sent cm1 = sent cm" and "p_id (peer_heap cm1 p) = addr_and_port_to_str (fst (fst s)) (snd (fst s))"
  using assms by (fastforce simp: make_peer_def map_ok_def entry_ok_def new_peer_def)+

lemma new_peer_apart:
  "map_ok cm m lim \<Longrightarrow> map_of m k \<noteq> Some (Some (next_peer cm))"
  by (auto dest!: map_okD simp: entry_ok_def)

lemma apart_update1: "apart m m' \<Longrightarrow> (\<And>k. map_of m' k \<noteq> Some v) \<Longrightarrow> apart (AList.update k v m) m'"
  and apart_update2: "apart m m' \<Longrightarrow> (\<And>k. map_of m k \<noteq> Some v) \<Longrightarrow> apart m (AList.update k v m')"
  and apart_delete: "apart m m' \<Longrightarrow> apart (AList.delete k m) m'"
  by (auto simp: apart_def update_conv' delete_conv' split: if_splits)

lemma map_ok_cong:
  "next_peer cm' = next_peer cm \<Longrightarrow> (\<And>p. p_id (peer_heap cm' p) = p_id (peer_heap cm p)) \<Longrightarrow> map_ok cm' m lim = map_ok cm m lim"
  by (simp add: map_ok_def entry_ok_def)

lemma conn_okI:
  assumes "map_ok cm (inbound_peer_map cm') (inbound_peers_lim cm')" "map_ok cm (outbound_peer_map cm') (outbound_peers_lim cm')"
    and "apart (inbound_peer_map cm') (outbound_peer_map cm')"
    and "next_peer cm' = next_peer cm" and "\<And>p. p_id (peer_heap cm' p) = p_id (peer_heap cm p)"
  shows "conn_ok cm'"
  using assms(1-3) unfolding conn_ok_def map_ok_cong [OF assms(4,5)] by blast

lemma conn_okD:
  assumes "conn_ok cm"
  shows "map_ok cm (inbound_peer_map cm) (inbound_peers_lim cm)" "map_ok cm (outbound_peer_map cm) (outbound_peers_lim cm)"
    "apart (inbound_peer_map cm) (outbound_peer_map cm)"
  using assms by (simp_all add: conn_ok_def)

text \<open>A new peer goes into one of the maps, or into none.\<close>

lemma conn_ok_make_peer:
  assumes "conn_ok cm" and "make_peer s cm = (p, cm1)"
  shows "conn_ok cm1" and "conn_ok (add_to_inbound p cm1)" and "conn_ok (add_to_outbound p cm1)"
proof -
  note mk = map_ok_make_peer [OF assms(2)]
  have i: "map_ok cm (inbound_peer_map cm) (inbound_peers_lim cm)" and o: "map_ok cm (outbound_peer_map cm) (outbound_peers_lim cm)"
    and ap: "apart (inbound_peer_map cm) (outbound_peer_map cm)" using assms(1) by (simp_all add: conn_ok_def)
  note i1 = mk(1) [OF i] and o1 = mk(1) [OF o]
  show ok: "conn_ok cm1" using i1 o1 ap mk(4-7) by (simp add: conn_ok_def)
  have li: "int (length (inbound_peer_map cm)) \<le> sint (inbound_peers_lim cm)"
    and lo: "int (length (outbound_peer_map cm)) \<le> sint (outbound_peers_lim cm)" using i o by (simp_all add: map_ok_def)
  have new: "map_of (inbound_peer_map cm) k \<noteq> Some (Some p)" "map_of (outbound_peer_map cm) k \<noteq> Some (Some p)" for k
    using new_peer_apart [OF i] new_peer_apart [OF o] mk(3) by simp_all
  show "conn_ok (add_to_inbound p cm1)"
  proof (cases "inbound_full cm1")
    case False
    then have "int (length (inbound_peer_map cm)) < sint (inbound_peers_lim cm)"
      using size_is_iff [OF li] li mk(4,6) by (simp add: inbound_full_def)
    from map_ok_insert [OF i1 this mk(2)] apart_update1 [OF ap new(2)] False o1 mk(4-7) show ?thesis
      by (intro conn_okI [where cm = cm1]) (simp_all add: add_to_inbound_def)
  qed (use ok in \<open>simp add: add_to_inbound_def\<close>)
  show "conn_ok (add_to_outbound p cm1)"
  proof (cases "outbound_full cm1")
    case False
    then have "int (length (outbound_peer_map cm)) < sint (outbound_peers_lim cm)"
      using size_is_iff [OF lo] lo mk(5,7) by (simp add: outbound_full_def)
    from map_ok_insert [OF o1 this mk(2)] apart_update2 [OF ap new(1)] False i1 mk(4-7) show ?thesis
      by (intro conn_okI [where cm = cm1]) (simp_all add: add_to_outbound_def)
  qed (use ok in \<open>simp add: add_to_outbound_def\<close>)
qed

lemma conn_ok_accept: "conn_ok cm \<Longrightarrow> conn_ok (snd (accept s cm))"
  by (cases "make_peer s cm") (simp add: accept_def conn_ok_make_peer)

lemma map_ok_delete: "map_ok cm m lim \<Longrightarrow> map_ok cm (AList.delete k m) lim"
proof -
  assume m: "map_ok cm m lim"
  then have "distinct (map fst (AList.delete k m))" by (simp add: map_ok_def distinct_delete)
  moreover have "length (AList.delete k m) \<le> length m" by (simp add: length_delete_le)
  moreover have "entry_ok cm k' v" if "map_of (AList.delete k m) k' = Some v" for k' v
    using that map_okD [OF m, of k' v] by (simp add: delete_conv' split: if_splits)
  ultimately show ?thesis using m unfolding map_ok_def by auto
qed

lemma conn_ok_failed:
  assumes "conn_ok cm"
  shows "conn_ok (listen_failed p cm)"
  by (rule conn_okI [where cm = cm])
    (simp_all add: listen_failed_def remove_peer_from_inbound_def map_ok_delete apart_delete conn_okD [OF assms])

text \<open>A message with the listening address moves the entry to the new id.\<close>

lemma length_delete_less: "distinct (map fst m) \<Longrightarrow> map_of m k = Some v \<Longrightarrow> Suc (length (AList.delete k m)) = length m"
proof (induction m)
  case (Cons e m)
  show ?case
  proof (cases "fst e = k")
    case True
    with Cons.prems(1) have "k \<notin> fst ` set m" by auto
    with True show ?thesis by (cases e) simp
  qed (use Cons in \<open>cases e; auto\<close>)
qed simp

lemma conn_ok_update:
  assumes ok: "conn_ok cm" and u: "update_inb_peer_addr_info peerID a prt cm = Inr cm'"
  shows "conn_ok cm'"
proof -
  let ?m = "inbound_peer_map cm" and ?id = "addr_and_port_to_str a prt"
  note d = conn_okD [OF ok]
  from u obtain p where p: "map_of ?m peerID = Some (Some p)"
    by (auto simp: update_inb_peer_addr_info_def map_index_def split: option.splits)
  from map_okD [OF d(1) p] have id: "p_id (peer_heap cm p) = peerID" "p < next_peer cm" by (auto simp: entry_ok_def)
  let ?heap = "(peer_heap cm)(p := update_addr_info a prt (peer_heap cm p))"
  let ?m1 = "AList.update ?id (Some p) ?m"
  let ?m2 = "if peerID \<noteq> ?id then AList.delete peerID ?m1 else ?m1"
  have cm': "cm' = cm\<lparr>peer_heap := ?heap, inbound_peer_map := ?m2\<rparr>"
    using u p by (auto simp: update_inb_peer_addr_info_def map_index_def Let_def update_addr_info_def)
  have dist: "distinct (map fst ?m)" "int (length ?m) \<le> sint (inbound_peers_lim cm)" using d(1) by (simp_all add: map_ok_def)
  have dist2: "distinct (map fst ?m2)" using dist(1) by (simp add: distinct_update distinct_delete)
  have "length ?m2 \<le> length ?m"
  proof (cases "peerID = ?id")
    case True
    with p have "?m1 = ?m" by (metis update_triv)
    with True show ?thesis by simp
  next
    case False
    then have "map_of ?m1 peerID = Some (Some p)" using p by (simp add: update_conv')
    from length_delete_less [OF distinct_update [OF dist(1)] this] length_update [of ?id "Some p" ?m] False
    show ?thesis by simp
  qed
  moreover have "entry_ok cm' k v" if "map_of ?m2 k = Some v" for k v
  proof (cases "k = ?id")
    case True
    with that id(2) show ?thesis
      by (auto simp: update_conv' delete_conv' entry_ok_def cm' update_addr_info_def split: if_splits)
  next
    case False
    with that have k: "map_of ?m k = Some v" "k \<noteq> peerID" by (auto simp: update_conv' delete_conv' split: if_splits)
    from map_okD [OF d(1) k(1)] obtain q where q: "q < next_peer cm" "v = Some q" "k = p_id (peer_heap cm q)" by (auto simp: entry_ok_def)
    with k(2) id(1) show ?thesis by (auto simp: entry_ok_def cm' update_addr_info_def)
  qed
  ultimately have i: "map_ok cm' (inbound_peer_map cm') (inbound_peers_lim cm')"
    using dist dist2 by (auto simp: map_ok_def cm')
  have notp: "map_of (outbound_peer_map cm) k \<noteq> Some (Some p)" for k using d(3) p by (auto simp: apart_def)
  have "entry_ok cm' k v" if kv: "map_of (outbound_peer_map cm) k = Some v" for k v
    using map_okD [OF d(2) kv] kv notp [of k] by (auto simp: entry_ok_def cm')
  with d(2) have "map_ok cm' (outbound_peer_map cm') (outbound_peers_lim cm')" by (simp add: map_ok_def cm')
  moreover have "apart (inbound_peer_map cm') (outbound_peer_map cm')"
    using apart_update1 [OF d(3) notp] apart_delete by (simp add: cm')
  ultimately show ?thesis using i by (simp add: conn_ok_def)
qed

lemma conn_ok_send_bytes: "conn_ok cm \<Longrightarrow> conn_ok (send_bytes data p cm)"
  by (intro conn_okI [where cm = cm]) (simp_all add: send_bytes_def conn_okD)

lemma peer_for_ok:
  assumes "conn_ok cm" and "peer_for dial addr port cm = Inr (Some p, cm')"
  shows "conn_ok cm'"
proof -
  consider "cm' = cm" | s q cm1 where "make_peer s cm = (q, cm1)" "cm' = add_to_outbound q cm1"
    using assms(2)
    by (auto simp: peer_for_def connect_to_peer_def map_index_def Let_def split: if_splits sum.splits prod.splits option.splits)
  then show ?thesis using assms(1) conn_ok_make_peer(3) by cases auto
qed

lemma async_send_ok:
  "conn_ok cm \<Longrightarrow> async_send_to_peer dial addr port data cm = Inr cm' \<Longrightarrow> conn_ok cm'"
  by (auto simp: async_send_to_peer_def async_send_def split: sum.splits prod.splits option.splits
      intro!: conn_ok_send_bytes dest: peer_for_ok)

lemma send_to_peer_ok:
  assumes ok: "conn_ok cm"
  shows "conn_ok (snd (send_to_peer dial addr port data expecting cm))"
proof (cases "peer_for dial addr port cm")
  case (Inr r)
  show ?thesis
  proof (cases "fst r")
    case (Some p)
    let ?cm2 = "send_bytes data p (snd r)"
    from Inr Some have "peer_for dial addr port cm = Inr (Some p, snd r)" by (cases r) simp
    then have ok2: "conn_ok ?cm2" by (intro conn_ok_send_bytes peer_for_ok [OF ok])
    have answer: "receive_answer x = Inr (resp, q) \<Longrightarrow> p_id q = p_id x" for x resp q
      by (auto simp: receive_answer_def split: sum.splits option.splits)
    show ?thesis
    proof (cases "\<not> expecting \<or> (\<exists>e. receive_answer (peer_heap ?cm2 p) = Inl e)")
      case True
      with Inr Some ok2 show ?thesis by (cases r) (auto simp: send_to_peer_def Let_def)
    next
      case False
      then obtain resp q where q: "receive_answer (peer_heap ?cm2 p) = Inr (resp, q)" and e: expecting
        by (cases "receive_answer (peer_heap ?cm2 p)") auto
      with Inr Some have "snd (send_to_peer dial addr port data expecting cm) = ?cm2\<lparr>peer_heap := (peer_heap ?cm2)(p := q)\<rparr>"
        by (cases r) (simp add: send_to_peer_def Let_def)
      with answer [OF q] ok2 show ?thesis
        by (simp only:) (intro conn_okI [where cm = ?cm2], simp_all add: conn_okD)
    qed
  qed (use Inr ok in \<open>cases r; simp add: send_to_peer_def\<close>)
qed (simp add: send_to_peer_def ok)

subsection \<open>Reachable states of the connection manager\<close>

inductive conn_reachable :: "dialler \<Rightarrow> conn_mngr \<Rightarrow> bool" for dial where
  started: "inbound_peer_map cm = [] \<Longrightarrow> outbound_peer_map cm = [] \<Longrightarrow> 0 \<le> sint (inbound_peers_lim cm) \<Longrightarrow>
    0 \<le> sint (outbound_peers_lim cm) \<Longrightarrow> conn_reachable dial cm"
| accepted: "conn_reachable dial cm \<Longrightarrow> conn_reachable dial (snd (accept s cm))"
| broken: "conn_reachable dial cm \<Longrightarrow> conn_reachable dial (listen_failed p cm)"
| announced: "conn_reachable dial cm \<Longrightarrow> update_inb_peer_addr_info peerID addr port cm = Inr cm' \<Longrightarrow> conn_reachable dial cm'"
| sent_async: "conn_reachable dial cm \<Longrightarrow> async_send_to_peer dial addr port data cm = Inr cm' \<Longrightarrow> conn_reachable dial cm'"
| sent_sync: "conn_reachable dial cm \<Longrightarrow> conn_reachable dial (snd (send_to_peer dial addr port data expecting cm))"
| sent_all: "conn_reachable dial cm \<Longrightarrow> async_broadcast data cm = Inr cm' \<Longrightarrow> conn_reachable dial cm'"

lemma broadcast_ok: "conn_ok cm \<Longrightarrow> async_broadcast data cm = Inr cm' \<Longrightarrow> conn_ok cm'"
  unfolding async_broadcast_def
  by (erule fold_res_invariant) (auto simp: async_send_def intro: conn_ok_send_bytes split: option.splits)

lemma reachable_ok: "conn_reachable dial cm \<Longrightarrow> conn_ok cm"
proof (induction rule: conn_reachable.induct)
  case (started cm)
  then show ?case by (simp add: conn_ok_def map_ok_def apart_def)
qed (blast intro: conn_ok_accept conn_ok_failed conn_ok_update async_send_ok send_to_peer_ok broadcast_ok)+

text \<open>The peers behind the pointers.\<close>

definition live_peers :: "conn_mngr \<Rightarrow> nat list" where
  "live_peers cm = map (the \<circ> snd) (inbound_peer_map cm @ outbound_peer_map cm)"

lemma broadcast_log:
  "\<forall>(k, v) \<in> set m. v \<noteq> None \<Longrightarrow>
   fold_res (\<lambda>(_, p). async_send p data) m cm = Inr (cm\<lparr>sent := sent cm @ map (\<lambda>p. (the (snd p), data)) m\<rparr>)"
  by (induction m arbitrary: cm) (auto simp: async_send_def send_bytes_def)

lemma listening_addrs_total:
  "\<forall>(k, v) \<in> set m. v \<noteq> None \<Longrightarrow> listening_addrs h m = Inr (map (\<lambda>p. get_listening_addr (h (the (snd p)))) m)"
  by (induction m) auto

lemma ok_no_null:
  assumes "conn_ok cm"
  shows "\<forall>(k, v) \<in> set (inbound_peer_map cm @ outbound_peer_map cm). v \<noteq> None"
proof -
  have "v \<noteq> None" if "(k, v) \<in> set m" "map_ok cm m lim" for k v m lim
  proof -
    from that have "map_of m k = Some v" by (simp add: map_ok_def)
    with map_okD [OF that(2)] show ?thesis by (auto simp: entry_ok_def)
  qed
  with conn_okD(1,2) [OF assms] show ?thesis by fastforce
qed

text \<open>Whatever connections are made and lost and whatever addresses peers announce, no pointer that the
  connection manager keeps is null, no map grows past its limit, a broadcast reaches every peer once and
  peers can always be listed: as long as no step itself runs into a null pointer.\<close>

theorem connections_stay_usable:
  assumes "conn_reachable dial cm"
  shows "int (length (inbound_peer_map cm)) \<le> sint (inbound_peers_lim cm)
    \<and> int (length (outbound_peer_map cm)) \<le> sint (outbound_peers_lim cm)
    \<and> async_broadcast data cm = Inr (cm\<lparr>sent := sent cm @ map (\<lambda>p. (p, data)) (live_peers cm)\<rparr>)
    \<and> collect_peers cm = Inr (map (\<lambda>p. get_listening_addr (peer_heap cm p)) (live_peers cm))"
proof -
  note ok = reachable_ok [OF assms]
  from broadcast_log [OF ok_no_null [OF ok]] listening_addrs_total [OF ok_no_null [OF ok]]
  show ?thesis using conn_okD(1,2) [OF ok]
    by (simp add: map_ok_def async_broadcast_def collect_peers_def live_peers_def)
qed

text \<open>C22. A connection that is accepted beyond the limit is listened to without being entered in the map, so
  the announcement of its address, which every node sends first, dereferences a null pointer: any node
  that connects to a full one brings it down.\<close>

theorem full_inbound_crash:
  assumes "inbound_full cm" and "\<not> peer_exists_inbound (addr_and_port_to_str a n) cm"
    and "accept ((a, n), chunks) cm = (p, cm')"
  shows "update_inb_peer_addr_info (p_id (peer_heap cm' p)) addr port cm' = Inl (Undefined ''null peer'')
    \<and> inbound_peer_map cm' = inbound_peer_map cm"
proof -
  obtain q cm1 where mk: "make_peer ((a, n), chunks) cm = (q, cm1)" by (cases "make_peer ((a, n), chunks) cm")
  note m = map_ok_make_peer [OF mk]
  have "inbound_full cm1" using assms(1) m(4,6) by (simp add: inbound_full_def)
  with assms(3) mk have "cm' = cm1" "p = q" by (simp_all add: accept_def add_to_inbound_def)
  with assms(2) m(4,9) show ?thesis
    by (simp add: update_inb_peer_addr_info_def map_index_def peer_exists_inbound_def)
qed

text \<open>The same happens on the other side: a new address when no more outbound peers are taken.\<close>

theorem full_outbound_crash:
  assumes "outbound_full cm" and "\<not> peer_exists addr port cm" and "dial addr port = Inr s"
  shows "async_send_to_peer dial addr port data cm = Inl (Undefined ''null peer'')"
proof -
  obtain q cm1 where mk: "make_peer s cm = (q, cm1)" by (cases "make_peer s cm")
  note m = map_ok_make_peer [OF mk]
  have "outbound_full cm1" using assms(1) m(5,7) by (simp add: outbound_full_def)
  with assms(2,3) mk m(5) show ?thesis
    by (simp add: async_send_to_peer_def peer_for_def connect_to_peer_def add_to_outbound_def map_index_def
        peer_exists_def peer_exists_inbound_def peer_exists_outbound_def async_send_def Let_def)
qed

definition demo_conn :: conn_mngr where
  "demo_conn = \<lparr>peer_heap = (\<lambda>_. new_peer ([], 0) []), next_peer = 0, inbound_peer_map = [], outbound_peer_map = [],
     outbound_peers_lim = 8, inbound_peers_lim = 1, listening_address = ''10.0.0.1'', listening_port = 5000, sent = []\<rparr>"

definition one_inbound :: conn_mngr where
  "one_inbound = snd (accept ((''10.0.0.2'', 700), []) demo_conn)"

lemma one_inbound: "inbound_peer_map one_inbound = [(''10.0.0.2:700'', Some 0)]" "outbound_peer_map one_inbound = []"
    "sent one_inbound = []" "inbound_full one_inbound"
proof -
  have id: "addr_and_port_to_str ''10.0.0.2'' 700 = ''10.0.0.2:700''" by code_simp
  show "inbound_peer_map one_inbound = [(''10.0.0.2:700'', Some 0)]" "outbound_peer_map one_inbound = []" "sent one_inbound = []"
    by (simp_all add: one_inbound_def accept_def make_peer_def add_to_inbound_def inbound_full_def size_is_def demo_conn_def
        new_peer_def id)
  show "inbound_full one_inbound"
    by (simp add: one_inbound_def accept_def make_peer_def add_to_inbound_def inbound_full_def size_is_def demo_conn_def)
qed

lemma one_inbound_reachable: "conn_reachable dial one_inbound"
  unfolding one_inbound_def by (intro conn_reachable.intros) (simp_all add: demo_conn_def)

theorem connections_stay_usable_witness:
  "async_broadcast [1, 2] one_inbound = Inr (one_inbound\<lparr>sent := [(0, [1, 2])]\<rparr>)"
  using connections_stay_usable [OF one_inbound_reachable, of "[1, 2]"] by (simp add: live_peers_def one_inbound)

theorem full_inbound_crash_witness:
  "\<exists>p cm'. accept ((''10.0.0.3'', 701), []) one_inbound = (p, cm') \<and>
     update_inb_peer_addr_info (p_id (peer_heap cm' p)) ''10.0.0.3'' 5000 cm' = Inl (Undefined ''null peer'')"
proof -
  obtain p cm' where a: "accept ((''10.0.0.3'', 701), []) one_inbound = (p, cm')"
    by (cases "accept ((''10.0.0.3'', 701), []) one_inbound")
  have "addr_and_port_to_str ''10.0.0.3'' 701 = ''10.0.0.3:701''" by code_simp
  then have "\<not> peer_exists_inbound (addr_and_port_to_str ''10.0.0.3'' 701) one_inbound"
    by (simp add: peer_exists_inbound_def one_inbound)
  from full_inbound_crash [OF one_inbound(4) this a] a show ?thesis by blast
qed

end
