(* ===== verification/Node.thy ===== *)
theory Node
  imports Manager Net Fhe
begin

text \<open>
  \<^verbatim>\<open>src/src/node/node.cpp\<close> and \<^verbatim>\<open>src/src/net/router.cpp\<close>: the node, the messages it builds, and its
  message handlers.

  Protobuf is the record \<open>protobuf\<close>: the bytes of each message, and the message read from bytes
  (which never fails in the code, since the result of \<open>ParseFromArray\<close> is not looked at).  A
  handler returns its answer and the new node; an exception that no handler catches is \<open>Inl\<close>, and the
  node after it is not modelled.  Messages of distinct connections are handled one after the other.
\<close>

subsection \<open>Messages\<close>

text \<open>An unset block of \<open>InfoBlock\<close> reads as the default one.\<close>

record 'p info_block =
  ib_block :: "'p proto_block option"
  ib_out_of_range :: bool

definition block_of :: "'p info_block \<Rightarrow> 'p proto_block" where
  "block_of ib =
     (case ib_block ib of Some b \<Rightarrow> b
      | None \<Rightarrow> \<lparr>pb_header = \<lparr>ph_prev_block_hash = [], ph_merkle_root = [], ph_timestamp = 0, ph_difficulty = 0,
                             ph_computations = []\<rparr>, pb_transactions = []\<rparr>)"

record 'p protobuf =
  hello_bytes :: "string \<Rightarrow> i32 \<Rightarrow> bytes"
  getaddr_bytes :: "string \<times> i32 \<Rightarrow> bytes"
  getaddr_parse :: "bytes \<Rightarrow> string \<times> i32"
  addr_bytes :: "(string \<times> i32) list \<Rightarrow> bytes"
  addr_parse :: "bytes \<Rightarrow> (string \<times> i32) list"
  invalid_bytes :: bytes
  hash_bytes :: "message_type \<Rightarrow> bytes \<Rightarrow> bytes"
  hash_parse :: "message_type \<Rightarrow> bytes \<Rightarrow> bytes"
  infoblock_bytes :: "'p info_block \<Rightarrow> bytes"
  infoblock_parse :: "bytes \<Rightarrow> 'p info_block"
  infotx_bytes :: "proto_tx \<Rightarrow> bytes"
  infotx_parse :: "bytes \<Rightarrow> proto_tx"
  infocomp_bytes :: "'p \<Rightarrow> bytes"
  infocomp_parse :: "bytes \<Rightarrow> 'p"
  syncblock_bytes :: "u32 \<Rightarrow> bytes"
  syncblock_parse :: "bytes \<Rightarrow> u32"
  synctxs_bytes :: bytes
  listtxs_bytes :: "bytes list \<Rightarrow> bytes"
  listtxs_parse :: "bytes \<Rightarrow> bytes list"

subsection \<open>Node\<close>

record ('c, 'p) node_ctx =
  nc_env :: "('c, 'p) node_env"
  pb :: "'p protobuf"
  dial :: dialler
  sign_det :: sign_fun

record 'c node =
  n_manager :: "'c manager"
  n_conn :: conn_mngr
  n_synced :: bool
  sync_peer :: "nat option"

definition reply :: "message_type \<Rightarrow> bytes \<Rightarrow> 'c node \<Rightarrow> (bytes \<times> 'c node) result" where
  "reply mt payload nd = map_sum id (\<lambda>m. (m, nd)) (frame mt payload)"

definition broadcast :: "bytes result \<Rightarrow> 'c node \<Rightarrow> 'c node result" where
  "broadcast msg nd =
     (case msg of Inl e \<Rightarrow> Inl e | Inr data \<Rightarrow> map_sum id (\<lambda>cm. nd\<lparr>n_conn := cm\<rparr>) (async_broadcast data (n_conn nd)))"

definition send_sync_peer :: "bytes result \<Rightarrow> 'c node \<Rightarrow> 'c node result" where
  "send_sync_peer msg nd =
     (case msg of Inl e \<Rightarrow> Inl e
      | Inr data \<Rightarrow> map_sum id (\<lambda>cm. nd\<lparr>n_conn := cm\<rparr>) (async_send (sync_peer nd) data (n_conn nd)))"

definition set_synced :: "'c node \<Rightarrow> 'c node" where
  "set_synced nd = nd\<lparr>n_synced := True\<rparr>"

subsection \<open>Builders\<close>

definition build_getaddr :: "'p protobuf \<Rightarrow> conn_mngr \<Rightarrow> bytes result" where
  "build_getaddr b cm = frame GetAddr (getaddr_bytes b (listening_address cm, listening_port cm))"

definition build_hello :: "'p protobuf \<Rightarrow> bytes result" where
  "build_hello b = frame Hello (hello_bytes b ''Hello'' 1312)"

definition build_invalid :: "'p protobuf \<Rightarrow> bytes result" where
  "build_invalid b = frame Invalid (invalid_bytes b)"

definition build_inv_block :: "'p protobuf \<Rightarrow> bytes \<Rightarrow> bytes result" where
  "build_inv_block b h = frame InvBlock (hash_bytes b InvBlock h)"

definition build_inv_tx :: "'p protobuf \<Rightarrow> bytes \<Rightarrow> bytes result" where
  "build_inv_tx b txid = frame InvTransaction (hash_bytes b InvTransaction txid)"

definition build_sync_transactions :: "'p protobuf \<Rightarrow> bytes result" where
  "build_sync_transactions b = frame SyncTransactions (synctxs_bytes b)"

definition build_inv_computation :: "'p protobuf \<Rightarrow> bytes \<Rightarrow> bytes result" where
  "build_inv_computation b h = frame InvComputation (hash_bytes b InvComputation h)"

definition build_sync_block :: "'p protobuf \<Rightarrow> u32 \<Rightarrow> bytes result" where
  "build_sync_block b height = frame SyncBlock (syncblock_bytes b height)"

definition build_get_tx :: "'p protobuf \<Rightarrow> bytes \<Rightarrow> bytes result" where
  "build_get_tx b txid = frame GetTransaction (hash_bytes b GetTransaction txid)"

subsection \<open>Addresses\<close>

definition handle_get_peer_addrs ::
  "('c, 'p) node_ctx \<Rightarrow> string \<times> i32 \<Rightarrow> string \<Rightarrow> 'c node \<Rightarrow> (bytes \<times> 'c node) result" where
  "handle_get_peer_addrs ctx ga peerID nd =
     (case update_inb_peer_addr_info peerID (fst ga) (snd ga) (n_conn nd) of Inl e \<Rightarrow> Inl e
      | Inr cm \<Rightarrow>
          (case collect_peers cm of Inl e \<Rightarrow> Inl e
           | Inr peers \<Rightarrow> reply Addr (addr_bytes (pb ctx) peers) (nd\<lparr>n_conn := cm\<rparr>)))"

text \<open>A failing connection is caught; it fails before the peer is entered.\<close>

fun contact_peers :: "dialler \<Rightarrow> bytes \<Rightarrow> (string \<times> i32) list \<Rightarrow> conn_mngr \<Rightarrow> conn_mngr result" where
  "contact_peers d msg [] cm = Inr cm"
| "contact_peers d msg ((address, port) # pairs) cm =
     (if outbound_full cm then Inr cm
      else if address = listening_address cm \<and> port = listening_port cm then contact_peers d msg pairs cm
      else if peer_exists address port cm then contact_peers d msg pairs cm
      else case async_send_to_peer d address port msg cm of
             Inl e \<Rightarrow> (if is_exception e then contact_peers d msg pairs cm else Inl e)
           | Inr cm1 \<Rightarrow> contact_peers d msg pairs cm1)"

definition handle_addr :: "('c, 'p) node_ctx \<Rightarrow> (string \<times> i32) list \<Rightarrow> 'c node \<Rightarrow> 'c node result" where
  "handle_addr ctx addrpairs nd =
     (case build_getaddr (pb ctx) (n_conn nd) of Inl e \<Rightarrow> Inl e
      | Inr msg \<Rightarrow> map_sum id (\<lambda>cm. nd\<lparr>n_conn := cm\<rparr>) (contact_peers (dial ctx) msg addrpairs (n_conn nd)))"

subsection \<open>Blocks\<close>

definition handle_add_valid_block :: "('c, 'p) node_ctx \<Rightarrow> 'c block \<Rightarrow> 'c node \<Rightarrow> 'c node result" where
  "handle_add_valid_block ctx block nd =
     map_sum id (\<lambda>(good, m). nd\<lparr>n_manager := m\<rparr>) (manager_add_block (nc_env ctx) block True (n_manager nd))"

definition handle_inv_block :: "('c, 'p) node_ctx \<Rightarrow> bytes \<Rightarrow> 'c node \<Rightarrow> (bytes \<times> 'c node) result" where
  "handle_inv_block ctx h nd =
     (if manager_block_exists h (n_manager nd) then Inr ([], nd)
      else reply GetBlock (hash_bytes (pb ctx) GetBlock h) nd)"

definition block_message :: "('c, 'p) node_ctx \<Rightarrow> bytes \<Rightarrow> 'c node \<Rightarrow> 'p proto_block result" where
  "block_message ctx h nd =
     (case manager_get_block h (n_manager nd) of Inl e \<Rightarrow> Inl e
      | Inr block \<Rightarrow> block_to_proto (env_ops (nc_env ctx)) (env_gh (nc_env ctx)) block)"

definition handle_get_block :: "('c, 'p) node_ctx \<Rightarrow> bytes \<Rightarrow> 'c node \<Rightarrow> (bytes \<times> 'c node) result" where
  "handle_get_block ctx h nd =
     (if \<not> manager_block_exists h (n_manager nd) then Inr ([], nd)
      else case block_message ctx h nd of Inl e \<Rightarrow> Inl e
      | Inr p \<Rightarrow> reply InfoBlock (infoblock_bytes (pb ctx) \<lparr>ib_block = Some p, ib_out_of_range = False\<rparr>) nd)"

text \<open>Reading a received block, and adding it where it is not in the store: the shared part of the two handlers.\<close>

definition add_received_block ::
  "('c, 'p) node_ctx \<Rightarrow> 'p info_block \<Rightarrow> 'c node \<Rightarrow> (bytes \<times> bool \<times> 'c node) result" where
  "add_received_block ctx ib nd =
     (let env = nc_env ctx
      in case block_from_proto (env_ops env) (env_gh env) (block_of ib) of Inl e \<Rightarrow> Inl e
      | Inr block0 \<Rightarrow>
          (case block_hash (env_ops env) (env_gh env) False block0 of Inl e \<Rightarrow> Inl e
           | Inr (h, block) \<Rightarrow>
               if manager_block_exists h (n_manager nd) then Inr (h, False, nd)
               else map_sum id (\<lambda>(added, m). (h, added, nd\<lparr>n_manager := m\<rparr>))
                      (manager_add_block env block False (n_manager nd))))"

definition handle_info_block :: "('c, 'p) node_ctx \<Rightarrow> 'p info_block \<Rightarrow> 'c node \<Rightarrow> (bytes \<times> 'c node) result" where
  "handle_info_block ctx ib nd =
     (case add_received_block ctx ib nd of Inl e \<Rightarrow> Inl e
      | Inr (h, added, nd1) \<Rightarrow>
          if added then map_sum id (Pair []) (broadcast (build_inv_block (pb ctx) h) nd1) else Inr ([], nd1))"

definition sync_mempool :: "('c, 'p) node_ctx \<Rightarrow> 'c node \<Rightarrow> 'c node result" where
  "sync_mempool ctx nd = send_sync_peer (build_sync_transactions (pb ctx)) nd"

definition handle_info_block_sync :: "('c, 'p) node_ctx \<Rightarrow> 'p info_block \<Rightarrow> 'c node \<Rightarrow> (bytes \<times> 'c node) result" where
  "handle_info_block_sync ctx ib nd =
     (if ib_out_of_range ib then map_sum id (Pair []) (sync_mempool ctx (set_synced nd))
      else case add_received_block ctx ib nd of Inl e \<Rightarrow> Inl e
      | Inr (h, added, nd1) \<Rightarrow>
          if added
          then map_sum id (Pair [])
                 (send_sync_peer (build_sync_block (pb ctx) (current_height (main_chain (n_manager nd1)) + 1)) nd1)
          else Inr ([], nd1))"

definition handle_mined_block :: "('c, 'p) node_ctx \<Rightarrow> 'c block \<Rightarrow> 'c node \<Rightarrow> 'c node result" where
  "handle_mined_block ctx mined_block nd =
     (case block_hash (env_ops (nc_env ctx)) (env_gh (nc_env ctx)) False mined_block of Inl e \<Rightarrow> Inl e
      | Inr (h, _) \<Rightarrow> broadcast (build_inv_block (pb ctx) h) nd)"

definition handle_sync_block :: "('c, 'p) node_ctx \<Rightarrow> u32 \<Rightarrow> 'c node \<Rightarrow> (bytes \<times> 'c node) result" where
  "handle_sync_block ctx height_req nd =
     (let ch = main_chain (n_manager nd); env = nc_env ctx
      in if current_height ch < height_req
         then reply InfoBlock (infoblock_bytes (pb ctx) \<lparr>ib_block = None, ib_out_of_range = True\<rparr>) nd
         else case get_header ch height_req of Inl e \<Rightarrow> Inl e
         | Inr header \<Rightarrow>
             (case header_hash (env_ops env) (env_gh env) False header of Inl e \<Rightarrow> Inl e
              | Inr (h, _) \<Rightarrow>
                  (case block_message ctx h nd of Inl e \<Rightarrow> Inl e
                   | Inr p \<Rightarrow> reply InfoBlock (infoblock_bytes (pb ctx) \<lparr>ib_block = Some p, ib_out_of_range = False\<rparr>) nd)))"

subsection \<open>Transactions\<close>

definition handle_inv_tx :: "('c, 'p) node_ctx \<Rightarrow> bytes \<Rightarrow> 'c node \<Rightarrow> (bytes \<times> 'c node) result" where
  "handle_inv_tx ctx txid nd =
     (if manager_tx_exists txid (n_manager nd) then Inr ([], nd)
      else reply GetTransaction (hash_bytes (pb ctx) GetTransaction txid) nd)"

definition handle_get_tx :: "('c, 'p) node_ctx \<Rightarrow> bytes \<Rightarrow> 'c node \<Rightarrow> (bytes \<times> 'c node) result" where
  "handle_get_tx ctx txid nd =
     (if \<not> manager_tx_exists txid (n_manager nd) then Inr ([], nd)
      else case manager_get_tx txid (n_manager nd) of Inl e \<Rightarrow> Inl e
      | Inr t \<Rightarrow> reply InfoTransaction (infotx_bytes (pb ctx) (tx_to_proto t)) nd)"

definition handle_info_tx :: "('c, 'p) node_ctx \<Rightarrow> proto_tx \<Rightarrow> 'c node \<Rightarrow> (bytes \<times> 'c node) result" where
  "handle_info_tx ctx prototx nd =
     (let env = nc_env ctx
      in case tx_from_proto (env_gh env) prototx False of Inl e \<Rightarrow> Inl e
      | Inr t0 \<Rightarrow>
          (case TXID (env_gh env) t0 of Inl e \<Rightarrow> Inl e
           | Inr (txid, t) \<Rightarrow>
               if manager_tx_exists txid (n_manager nd) then Inr ([], nd)
               else case add_tx env t (n_manager nd) of Inl e \<Rightarrow> Inl e
               | Inr (added, m) \<Rightarrow>
                   (let nd1 = nd\<lparr>n_manager := m\<rparr>
                    in if added then map_sum id (Pair []) (broadcast (build_inv_tx (pb ctx) txid) nd1)
                       else Inr ([], nd1))))"

definition handle_sync_transactions :: "('c, 'p) node_ctx \<Rightarrow> 'c node \<Rightarrow> (bytes \<times> 'c node) result" where
  "handle_sync_transactions ctx nd =
     reply ListTransactions (listtxs_bytes (pb ctx) (mempool_list_txid (n_manager nd))) nd"

definition handle_list_transactions :: "('c, 'p) node_ctx \<Rightarrow> bytes list \<Rightarrow> 'c node \<Rightarrow> (bytes \<times> 'c node) result" where
  "handle_list_transactions ctx txids nd =
     map_sum id (Pair []) (fold_res (\<lambda>txid. broadcast (build_get_tx (pb ctx) txid)) txids nd)"

subsection \<open>Computations\<close>

definition handle_inv_computation :: "('c, 'p) node_ctx \<Rightarrow> bytes \<Rightarrow> 'c node \<Rightarrow> (bytes \<times> 'c node) result" where
  "handle_inv_computation ctx h nd =
     (if manager_computation_exists h (n_manager nd) then Inr ([], nd)
      else reply GetComputation (hash_bytes (pb ctx) GetComputation h) nd)"

definition handle_get_computation :: "('c, 'p) node_ctx \<Rightarrow> bytes \<Rightarrow> 'c node \<Rightarrow> (bytes \<times> 'c node) result" where
  "handle_get_computation ctx h nd =
     (if \<not> manager_computation_exists h (n_manager nd) then Inr ([], nd)
      else case manager_get_computation h (n_manager nd) of Inl e \<Rightarrow> Inl e
      | Inr c \<Rightarrow> reply InfoComputation (infocomp_bytes (pb ctx) (co_to_proto (env_ops (nc_env ctx)) c)) nd)"

definition handle_info_computation :: "('c, 'p) node_ctx \<Rightarrow> 'p \<Rightarrow> 'c node \<Rightarrow> (bytes \<times> 'c node) result" where
  "handle_info_computation ctx protocomp nd =
     (let env = nc_env ctx; ops = env_ops env
      in case co_create ops protocomp of Inl e \<Rightarrow> Inl e
      | Inr c \<Rightarrow>
          if manager_computation_exists (co_hash ops c) (n_manager nd) then Inr ([], nd)
          else let (added, m) = add_computation env c (n_manager nd); nd1 = nd\<lparr>n_manager := m\<rparr>
               in if added then map_sum id (Pair []) (broadcast (build_inv_computation (pb ctx) (co_hash ops c)) nd1)
                  else Inr ([], nd1))"

subsection \<open>Router\<close>

text \<open>Types without a case, \<open>Invalid\<close> and the two on lists of computations among them, are ignored.\<close>

definition route ::
  "('c, 'p) node_ctx \<Rightarrow> message_type \<Rightarrow> bytes \<Rightarrow> string \<Rightarrow> 'c node \<Rightarrow> (bytes \<times> 'c node) result" where
  "route ctx mt data peerID nd =
     (case mt of
        Hello \<Rightarrow> map_sum id (\<lambda>m. (m, nd)) (build_invalid (pb ctx))
      | GetAddr \<Rightarrow> handle_get_peer_addrs ctx (getaddr_parse (pb ctx) data) peerID nd
      | Addr \<Rightarrow> map_sum id (Pair []) (handle_addr ctx (addr_parse (pb ctx) data) nd)
      | InvBlock \<Rightarrow> handle_inv_block ctx (hash_parse (pb ctx) InvBlock data) nd
      | GetBlock \<Rightarrow> handle_get_block ctx (hash_parse (pb ctx) GetBlock data) nd
      | InfoBlock \<Rightarrow>
          if n_synced nd then handle_info_block ctx (infoblock_parse (pb ctx) data) nd
          else handle_info_block_sync ctx (infoblock_parse (pb ctx) data) nd
      | SyncBlock \<Rightarrow> handle_sync_block ctx (syncblock_parse (pb ctx) data) nd
      | InvTransaction \<Rightarrow> handle_inv_tx ctx (hash_parse (pb ctx) InvTransaction data) nd
      | GetTransaction \<Rightarrow> handle_get_tx ctx (hash_parse (pb ctx) GetTransaction data) nd
      | InfoTransaction \<Rightarrow> handle_info_tx ctx (infotx_parse (pb ctx) data) nd
      | InvComputation \<Rightarrow> handle_inv_computation ctx (hash_parse (pb ctx) InvComputation data) nd
      | GetComputation \<Rightarrow> handle_get_computation ctx (hash_parse (pb ctx) GetComputation data) nd
      | InfoComputation \<Rightarrow> handle_info_computation ctx (infocomp_parse (pb ctx) data) nd
      | SyncTransactions \<Rightarrow> handle_sync_transactions ctx nd
      | ListTransactions \<Rightarrow> handle_list_transactions ctx (listtxs_parse (pb ctx) data) nd
      | _ \<Rightarrow> Inr ([], nd))"

text \<open>What a peer sends is routed under the id that it has at that moment.\<close>

definition listen :: "('c, 'p) node_ctx \<Rightarrow> nat \<Rightarrow> bytes list \<Rightarrow> 'c node \<Rightarrow> (bytes \<times> bytes list \<times> 'c node) result" where
  "listen ctx p chunks nd =
     listen_loop (\<lambda>mt data nd. route ctx mt data (p_id (peer_heap (n_conn nd) p)) nd) chunks [] nd"

end
