(* ===== verification/NodeRun.thy ===== *)
theory NodeRun
  imports Node
begin

text \<open>
  The rest of \<^verbatim>\<open>src/src/node/node.cpp\<close>: construction, synchronisation, the mining loop and the
  handlers of requests; \<^verbatim>\<open>src/src/net/rpc_router.cpp\<close> and \<^verbatim>\<open>src/src/net/rpc_server.cpp\<close>.

  The JSON parser and printer and the contents of the secrets file are parameters.  A mining round is
  one iteration of the loop of \<open>Node::start\<close>; the clock is a parameter.
\<close>

subsection \<open>Synchronisation\<close>

definition start_sync :: "('c, 'p) node_ctx \<Rightarrow> 'c node \<Rightarrow> 'c node result" where
  "start_sync ctx nd =
     (case get_one_outbound (n_conn nd) of
        Inl e \<Rightarrow> (if e = Out_of_range then Inr (set_synced nd) else Inl e)
      | Inr p \<Rightarrow> send_sync_peer (build_sync_block (pb ctx) 1) (nd\<lparr>sync_peer := p\<rparr>))"

fun bootstrap_peers :: "('c, 'p) node_ctx \<Rightarrow> bytes \<Rightarrow> (string \<times> i32) list \<Rightarrow> 'c node \<Rightarrow> 'c node result" where
  "bootstrap_peers ctx msg [] nd = Inr nd"
| "bootstrap_peers ctx msg ((address, port) # eps) nd =
     (let (r, cm) = send_to_peer (dial ctx) address port msg True (n_conn nd); nd1 = nd\<lparr>n_conn := cm\<rparr>
      in case r of Inl e \<Rightarrow> (if is_exception e then bootstrap_peers ctx msg eps nd1 else Inl e)
      | Inr resp \<Rightarrow>
          (case route ctx Addr resp [] nd1 of
             Inl e \<Rightarrow> (if is_exception e then bootstrap_peers ctx msg eps nd1 else Inl e)
           | Inr (_, nd2) \<Rightarrow> bootstrap_peers ctx msg eps nd2))"

text \<open>\<open>bootstrap_addr_from_json\<close>: a list of pairs of an address and a port.\<close>

definition addr_from_json :: "json \<Rightarrow> (string \<times> i32) result" where
  "addr_from_json j =
     (case json_item 0 j of Inl e \<Rightarrow> Inl e
      | Inr a \<Rightarrow>
          (case json_item 1 j of Inl e \<Rightarrow> Inl e
           | Inr p \<Rightarrow>
               (case get_string a of Inl e \<Rightarrow> Inl e
                | Inr addr \<Rightarrow> map_sum id (Pair addr) (get_int p))))"

text \<open>The same list from a file: no content where it cannot be opened.\<close>

definition ipv4_addr_list_from_txt :: "json result option \<Rightarrow> (string \<times> i32) list result" where
  "ipv4_addr_list_from_txt file =
     (case file of None \<Rightarrow> Inl (Invalid_argument ''Could not open json file.'')
      | Some (Inl e) \<Rightarrow> Inl e
      | Some (Inr json_addr) \<Rightarrow> map_res addr_from_json (json_elements json_addr))"

definition bootstrap_addr_from_json :: "json \<Rightarrow> (string \<times> i32) list result" where
  "bootstrap_addr_from_json config =
     (case json_index ''net'' config of Inl e \<Rightarrow> Inl e
      | Inr net \<Rightarrow>
          (case json_index ''bootstrap'' net of Inl e \<Rightarrow> Inl e
           | Inr b \<Rightarrow> map_res addr_from_json (json_elements b)))"

definition bootstrap_from_config :: "('c, 'p) node_ctx \<Rightarrow> json \<Rightarrow> 'c node \<Rightarrow> 'c node result" where
  "bootstrap_from_config ctx config nd =
     (case bootstrap_addr_from_json config of Inl e \<Rightarrow> Inl e
      | Inr eps \<Rightarrow>
          (case build_getaddr (pb ctx) (n_conn nd) of Inl e \<Rightarrow> Inl e
           | Inr msg \<Rightarrow> bootstrap_peers ctx msg eps nd))"

subsection \<open>Construction\<close>

definition RPCServer :: "json \<Rightarrow> (string \<times> i32) result" where
  "RPCServer config =
     (case json_entry ''net'' config of Inl e \<Rightarrow> Inl e
      | Inr net \<Rightarrow>
          (case (json_entry ''rpc_address'' net, json_entry ''rpc_port'' net) of
             (Inr a, Inr p) \<Rightarrow>
               (case get_string a of Inl e \<Rightarrow> Inl e | Inr addr \<Rightarrow> map_sum id (Pair addr) (get_int p))
           | _ \<Rightarrow> Inl Json_type_error))"

text \<open>The wallet of the secrets file.\<close>

definition Wallet_json :: "json \<Rightarrow> wallet result" where
  "Wallet_json config =
     (case json_at ''ed25519'' config of Inl e \<Rightarrow> Inl e
      | Inr keys \<Rightarrow>
          (case decoded_at ''public_key'' keys of Inl e \<Rightarrow> Inl e
           | Inr pk \<Rightarrow> map_sum id (Wallet_from_config pk) (decoded_at ''secret_key'' keys)))"

definition make_node ::
  "('c, 'p) node_ctx \<Rightarrow> json \<Rightarrow> json result \<Rightarrow> bytes \<times> bytes \<Rightarrow> 'c node result" where
  "make_node ctx config secrets keypair =
     (case ConnectionManager config of Inl e \<Rightarrow> Inl e
      | Inr cm \<Rightarrow>
     (case RPCServer config of Inl e \<Rightarrow> Inl e
      | Inr _ \<Rightarrow>
     (case (if listening_port cm = 5000
            then case secrets of Inl e \<Rightarrow> Inl e | Inr secjson \<Rightarrow> Wallet_json secjson
            else Inr (Wallet_generated keypair)) of Inl e \<Rightarrow> Inl e
      | Inr w \<Rightarrow>
     (case new_manager (nc_env ctx) w of Inl e \<Rightarrow> Inl e
      | Inr m \<Rightarrow>
          bootstrap_from_config ctx config \<lparr>n_manager = m, n_conn = cm, n_synced = False, sync_peer = None\<rparr>))))"

subsection \<open>Mining\<close>

text \<open>One round; \<open>None\<close> where the loop is left.\<close>

definition mining_round :: "('c, 'p) node_ctx \<Rightarrow> u64 \<Rightarrow> 'c node \<Rightarrow> 'c node option result" where
  "mining_round ctx now nd =
     (if listening_port (n_conn nd) \<noteq> 5000 then Inr None
      else case start_mining (nc_env ctx) now (n_manager nd) of Inl e \<Rightarrow> Inl e
      | Inr m \<Rightarrow>
          (let nd1 = nd\<lparr>n_manager := m\<rparr>
           in case get_mined_block m of None \<Rightarrow> Inr (Some nd1)
           | Some block \<Rightarrow>
               (case handle_add_valid_block ctx block nd1 of Inl e \<Rightarrow> Inl e
                | Inr nd2 \<Rightarrow> map_sum id Some (handle_mined_block ctx block nd2))))"

subsection \<open>Requests\<close>

datatype rpc_type = RPC_Test | RPC_Transaction | RPC_Computation | RPC_Output | RPC_Other i32

definition rpc_type_of_int :: "i32 \<Rightarrow> rpc_type" where
  "rpc_type_of_int n =
     (if n = 0 then RPC_Test else if n = 1 then RPC_Transaction else if n = 2 then RPC_Computation
      else if n = 3 then RPC_Output else RPC_Other n)"

definition STATUS_OK :: json where "STATUS_OK = Number 200"
definition STATUS_BAD_REQUEST :: json where "STATUS_BAD_REQUEST = Number 400"
definition STATUS_PAYMENT_REQUIRED :: json where "STATUS_PAYMENT_REQUIRED = Number 402"
definition STATUS_NOT_FOUND :: json where "STATUS_NOT_FOUND = Number 404"
definition STATUS_INTERNAL_SERVER_ERROR :: json where "STATUS_INTERNAL_SERVER_ERROR = Number 500"

definition set_status :: "json \<Rightarrow> json \<Rightarrow> json" where
  "set_status code resp = json_set ''status'' code resp"

definition rpc_handle_say_hello :: "('c, 'p) node_ctx \<Rightarrow> 'c node \<Rightarrow> 'c node result" where
  "rpc_handle_say_hello ctx nd = broadcast (build_hello (pb ctx)) nd"

definition payment_request :: "json \<Rightarrow> (bytes \<times> u64 \<times> u64) result" where
  "payment_request msg =
     (case decoded_at ''recipient_public_key'' msg of Inl e \<Rightarrow> Inl e
      | Inr key \<Rightarrow>
          (case json_number_at ''amount'' msg of Inl e \<Rightarrow> Inl e
           | Inr amount \<Rightarrow> map_sum id (\<lambda>f. (key, amount, f)) (json_number_at ''fee'' msg)))"

text \<open>
  What \<open>add_tx\<close> says is not looked at.  The wallet belongs to the chain manager too; the payment
  fails with a \<open>runtime_error\<close> only before a coin is touched.
\<close>

definition rpc_handle_transaction :: "('c, 'p) node_ctx \<Rightarrow> json \<Rightarrow> json \<Rightarrow> 'c node \<Rightarrow> (json \<times> 'c node) result" where
  "rpc_handle_transaction ctx msg resp nd =
     (case payment_request msg of
        Inl e \<Rightarrow> (if e = Json_out_of_range then Inr (set_status STATUS_BAD_REQUEST resp, nd) else Inl e)
      | Inr (rec_pub_key, amount, f) \<Rightarrow>
     (case new_transaction (sign_det ctx) rec_pub_key amount f (m_wallet (n_manager nd)) of
        Inl (Runtime_error _) \<Rightarrow> Inr (set_status STATUS_PAYMENT_REQUIRED resp, nd)
      | Inl e \<Rightarrow> Inl e
      | Inr (t, w) \<Rightarrow>
     (case add_tx (nc_env ctx) t (set_wallet w (n_manager nd)) of Inl e \<Rightarrow> Inl e
      | Inr (_, m) \<Rightarrow>
     (case TXID (env_gh (nc_env ctx)) t of Inl e \<Rightarrow> Inl e
      | Inr (txid, _) \<Rightarrow>
          map_sum id (Pair (set_status STATUS_OK resp))
            (broadcast (build_inv_tx (pb ctx) txid) (nd\<lparr>n_manager := m\<rparr>))))))"

text \<open>A request for a computation is always one of \<open>FHEComputer\<close>.\<close>

definition rpc_handle_computation ::
  "('cc, 'ct, 'pk, 'ps, 'vars, 'f, 'arg) fhe_lib \<Rightarrow> (('ct, 'pk, 'ps) fhe_computer, 'p) node_ctx \<Rightarrow> json \<Rightarrow> json \<Rightarrow>
     ('ct, 'pk, 'ps) fhe_computer node \<Rightarrow> (json \<times> ('ct, 'pk, 'ps) fhe_computer node) result" where
  "rpc_handle_computation lib ctx req resp nd =
     (case FHEComputer lib req of
        Inl e \<Rightarrow> (if is_exception e then Inr (set_status STATUS_INTERNAL_SERVER_ERROR resp, nd) else Inl e)
      | Inr c \<Rightarrow>
          (let (_, m) = add_computation (nc_env ctx) c (n_manager nd)
           in map_sum id (Pair (set_status STATUS_OK resp))
                (broadcast (build_inv_computation (pb ctx) (co_hash (env_ops (nc_env ctx)) c)) (nd\<lparr>n_manager := m\<rparr>))))"

text \<open>The output of a computation in the header at a height; its memoised result is not followed.\<close>

definition requested_output :: "('c, 'p) node_ctx \<Rightarrow> json \<Rightarrow> 'c node \<Rightarrow> bytes result" where
  "requested_output ctx req nd =
     (case json_at ''block_height'' req of Inl e \<Rightarrow> Inl e
      | Inr jh \<Rightarrow>
     (case get_int jh of Inl e \<Rightarrow> Inl e
      | Inr height \<Rightarrow>
     (case get_header (main_chain (n_manager nd)) height of Inl e \<Rightarrow> Inl e
      | Inr header \<Rightarrow>
     (case json_number_at ''computation_index'' req of Inl e \<Rightarrow> Inl e
      | Inr idx \<Rightarrow>
          if length (computations header) \<le> unat (idx :: u64) then Inl Out_of_range
          else map_sum id fst (co_output (env_ops (nc_env ctx)) (computations header ! unat idx))))))"

definition rpc_handle_output :: "('c, 'p) node_ctx \<Rightarrow> json \<Rightarrow> json \<Rightarrow> 'c node \<Rightarrow> json result" where
  "rpc_handle_output ctx req resp nd =
     (case requested_output ctx req nd of
        Inr output \<Rightarrow> Inr (json_set ''output'' (String (map (\<lambda>b. char_of (unat b)) (encode output))) (set_status STATUS_OK resp))
      | Inl e \<Rightarrow>
          if e = Json_out_of_range then Inr (set_status STATUS_BAD_REQUEST resp)
          else if e = Out_of_range then Inr (set_status STATUS_NOT_FOUND resp)
          else if is_exception e then Inr (set_status STATUS_INTERNAL_SERVER_ERROR resp)
          else Inl e)"

definition rpc_route ::
  "('cc, 'ct, 'pk, 'ps, 'vars, 'f, 'arg) fhe_lib \<Rightarrow> (('ct, 'pk, 'ps) fhe_computer, 'p) node_ctx \<Rightarrow> json \<Rightarrow>
     ('ct, 'pk, 'ps) fhe_computer node \<Rightarrow> (json \<times> ('ct, 'pk, 'ps) fhe_computer node) result" where
  "rpc_route lib ctx msg nd =
     (case json_at ''type'' msg of Inl e \<Rightarrow> Inl e
      | Inr jt \<Rightarrow>
          (case get_number jt of Inl e \<Rightarrow> Inl e
           | Inr n \<Rightarrow>
               (case rpc_type_of_int n of
                  RPC_Test \<Rightarrow> map_sum id (Pair (set_status STATUS_OK Null)) (rpc_handle_say_hello ctx nd)
                | RPC_Transaction \<Rightarrow> rpc_handle_transaction ctx msg Null nd
                | RPC_Computation \<Rightarrow> rpc_handle_computation lib ctx msg Null nd
                | RPC_Output \<Rightarrow> map_sum id (\<lambda>resp. (resp, nd)) (rpc_handle_output ctx msg Null nd)
                | RPC_Other _ \<Rightarrow> Inl (Invalid_argument ''Unknown RPC type.''))))"

text \<open>One connection: four bytes of length, the request, the answer.  \<open>None\<close>: more bytes are awaited.\<close>

definition handle_connection ::
  "('cc, 'ct, 'pk, 'ps, 'vars, 'f, 'arg) fhe_lib \<Rightarrow> (('ct, 'pk, 'ps) fhe_computer, 'p) node_ctx \<Rightarrow>
     (bytes \<Rightarrow> json result) \<Rightarrow> (json \<Rightarrow> bytes result) \<Rightarrow> bytes list \<Rightarrow> ('ct, 'pk, 'ps) fhe_computer node \<Rightarrow>
     (bytes \<times> ('ct, 'pk, 'ps) fhe_computer node) option result" where
  "handle_connection lib ctx parse dump chunks nd =
     (case read_exact 4 chunks of None \<Rightarrow> Inr None
      | Some (header, chunks1) \<Rightarrow>
     (case chars_to_int32_big_endian header of Inl e \<Rightarrow> Inl e
      | Inr msg_len \<Rightarrow>
          if sint msg_len < 0 then Inl (Logic_error ''vector::_M_default_append'')
          else case read_exact (nat (sint msg_len)) chunks1 of None \<Rightarrow> Inr None
     | Some (data, _) \<Rightarrow>
     (case parse data of Inl e \<Rightarrow> Inl e
      | Inr msg_json \<Rightarrow>
     (case rpc_route lib ctx msg_json nd of Inl e \<Rightarrow> Inl e
      | Inr (resp, nd1) \<Rightarrow>
          if json_size resp = 0 then Inr (Some ([], nd1)) else map_sum id (\<lambda>s. Some (s, nd1)) (dump resp)))))"

end
