(* ===== verification/NodeCorrect.thy ===== *)
theory NodeCorrect
  imports NodeRun NetCorrect ManagerCorrect
begin

text \<open>
  What messages from the network can do to a node: which part of the state each type may change,
  that a message is relayed once, that blocks travel from node to node, and what brings a node down.
\<close>

subsection \<open>What a message changes\<close>

lemma reply_same: "reply mt payload nd = Inr (r, nd') \<Longrightarrow> nd' = nd"
  by (auto simp: reply_def map_sum_Inr_iff)

text \<open>Only the connections may differ; only the pool or the computations may.\<close>

definition same_but_conn :: "'c node \<Rightarrow> 'c node \<Rightarrow> bool" where
  "same_but_conn nd nd' \<longleftrightarrow> n_manager nd' = n_manager nd \<and> n_synced nd' = n_synced nd \<and> sync_peer nd' = sync_peer nd"

definition same_ledger :: "'c manager \<Rightarrow> 'c manager \<Rightarrow> bool" where
  "same_ledger m m' \<longleftrightarrow> main_chain m' = main_chain m \<and> forks m' = forks m \<and> m_wallet m' = m_wallet m
     \<and> m_result m' = m_result m \<and> st_chainstate (m_stores m') = st_chainstate (m_stores m)
     \<and> st_blocks (m_stores m') = st_blocks (m_stores m)"

lemma broadcast_conn: "broadcast msg nd = Inr nd' \<Longrightarrow> same_but_conn nd nd'"
  by (auto simp: broadcast_def map_sum_Inr_iff same_but_conn_def split: sum.splits)

lemma send_sync_peer_conn: "send_sync_peer msg nd = Inr nd' \<Longrightarrow> same_but_conn nd nd'"
  by (auto simp: send_sync_peer_def map_sum_Inr_iff same_but_conn_def split: sum.splits)

lemma addresses_conn:
  "handle_get_peer_addrs ctx ga peerID nd = Inr (r, nd') \<Longrightarrow> same_but_conn nd nd'"
  "handle_addr ctx pairs nd = Inr nd' \<Longrightarrow> same_but_conn nd nd'"
  by (auto simp: handle_get_peer_addrs_def handle_addr_def map_sum_Inr_iff same_but_conn_def dest!: reply_same split: sum.splits)

lemma handlers_read_only:
  "handle_inv_block ctx h nd = Inr (r, nd') \<Longrightarrow> nd' = nd"
  "handle_get_block ctx h nd = Inr (r, nd') \<Longrightarrow> nd' = nd"
  "handle_sync_block ctx height nd = Inr (r, nd') \<Longrightarrow> nd' = nd"
  "handle_inv_tx ctx h nd = Inr (r, nd') \<Longrightarrow> nd' = nd"
  "handle_get_tx ctx h nd = Inr (r, nd') \<Longrightarrow> nd' = nd"
  "handle_inv_computation ctx h nd = Inr (r, nd') \<Longrightarrow> nd' = nd"
  "handle_get_computation ctx h nd = Inr (r, nd') \<Longrightarrow> nd' = nd"
  "handle_sync_transactions ctx nd = Inr (r, nd') \<Longrightarrow> nd' = nd"
  by (auto simp: handle_inv_block_def handle_get_block_def handle_sync_block_def handle_inv_tx_def handle_get_tx_def
      handle_inv_computation_def handle_get_computation_def handle_sync_transactions_def Let_def
      dest: reply_same split: if_splits sum.splits)

lemma list_transactions_conn:
  assumes "handle_list_transactions ctx txids nd = Inr (r, nd')"
  shows "same_but_conn nd nd'"
proof -
  from assms have "fold_res (\<lambda>txid. broadcast (build_get_tx (pb ctx) txid)) txids nd = Inr nd'"
    by (auto simp: handle_list_transactions_def map_sum_Inr_iff)
  then show ?thesis
    by (rule fold_res_invariant) (auto simp: same_but_conn_def dest!: broadcast_conn)
qed

lemma add_tx_pool: "add_tx env t m = Inr (ok, m') \<Longrightarrow> same_ledger m m' \<and> st_comps (m_stores m') = st_comps (m_stores m)"
  by (auto simp: add_tx_def Let_def same_ledger_def split: option.splits sum.splits if_splits prod.splits)

lemma add_computation_comps:
  "add_computation env c m = (ok, m') \<Longrightarrow> same_ledger m m' \<and> st_pool (m_stores m') = st_pool (m_stores m)"
  by (auto simp: add_computation_def same_ledger_def split: prod.splits)

lemma same_ledger_refl: "same_ledger m m"
  by (simp add: same_ledger_def)

lemma info_tx_pool:
  assumes "handle_info_tx ctx prototx nd = Inr (r, nd')"
  shows "same_ledger (n_manager nd) (n_manager nd') \<and> n_synced nd' = n_synced nd
    \<and> st_comps (m_stores (n_manager nd')) = st_comps (m_stores (n_manager nd))"
proof -
  consider "nd' = nd" | t m ok where "add_tx (nc_env ctx) t (n_manager nd) = Inr (ok, m)" "n_manager nd' = m" "n_synced nd' = n_synced nd"
    using assms
    by (fastforce simp: handle_info_tx_def Let_def map_sum_Inr_iff same_but_conn_def dest!: broadcast_conn
        split: sum.splits if_splits prod.splits)
  then show ?thesis
  proof cases
    case 2
    with add_tx_pool [OF 2(1)] show ?thesis by simp
  qed (simp add: same_ledger_refl)
qed

lemma info_computation_comps:
  assumes "handle_info_computation ctx p nd = Inr (r, nd')"
  shows "same_ledger (n_manager nd) (n_manager nd') \<and> n_synced nd' = n_synced nd
    \<and> st_pool (m_stores (n_manager nd')) = st_pool (m_stores (n_manager nd))"
proof -
  consider "nd' = nd" | c m ok where "add_computation (nc_env ctx) c (n_manager nd) = (ok, m)" "n_manager nd' = m" "n_synced nd' = n_synced nd"
    using assms
    by (fastforce simp: handle_info_computation_def Let_def map_sum_Inr_iff same_but_conn_def dest!: broadcast_conn
        split: sum.splits if_splits prod.splits)
  then show ?thesis
  proof cases
    case 2
    with add_computation_comps [OF 2(1)] show ?thesis by simp
  qed (simp add: same_ledger_refl)
qed

text \<open>A block goes through the chain manager, once.\<close>

lemma received_block_total:
  assumes "add_received_block ctx ib nd = Inr (h, ok, nd')"
  shows "n_synced nd' = n_synced nd \<and> (nd' = nd \<or>
    (\<exists>b m. manager_add_block (nc_env ctx) b False (n_manager nd) = Inr (ok, m) \<and> nd' = nd\<lparr>n_manager := m\<rparr>))"
  using assms by (auto simp: add_received_block_def Let_def map_sum_Inr_iff split: sum.splits if_splits prod.splits)

lemma same_but_conn_refl: "same_but_conn nd nd"
  by (simp add: same_but_conn_def)

lemma info_block_steps:
  assumes "handle_info_block ctx ib nd = Inr (r, nd')"
  obtains h ok nd1 where "add_received_block ctx ib nd = Inr (h, ok, nd1)" "same_but_conn nd1 nd'"
proof (cases "add_received_block ctx ib nd")
  case (Inr x)
  obtain h ok nd1 where x: "x = (h, ok, nd1)" by (cases x)
  from assms Inr x have "same_but_conn nd1 nd'"
    by (auto simp: handle_info_block_def map_sum_Inr_iff same_but_conn_refl dest: broadcast_conn split: if_splits)
  with that Inr x show thesis by blast
qed (use assms in \<open>simp add: handle_info_block_def\<close>)

lemma info_block_sync_steps:
  assumes "handle_info_block_sync ctx ib nd = Inr (r, nd')"
  obtains "same_but_conn (set_synced nd) nd'"
    | h ok nd1 where "add_received_block ctx ib nd = Inr (h, ok, nd1)" "same_but_conn nd1 nd'"
proof (cases "ib_out_of_range ib")
  case True
  with assms have "same_but_conn (set_synced nd) nd'"
    by (auto simp: handle_info_block_sync_def sync_mempool_def map_sum_Inr_iff dest: send_sync_peer_conn)
  then show thesis by (rule that(1))
next
  case False
  show thesis
  proof (cases "add_received_block ctx ib nd")
    case (Inr x)
    obtain h ok nd1 where x: "x = (h, ok, nd1)" by (cases x)
    from assms Inr x False have "same_but_conn nd1 nd'"
      by (auto simp: handle_info_block_sync_def map_sum_Inr_iff same_but_conn_refl dest: send_sync_peer_conn split: if_splits)
    with that(2) Inr x show thesis by blast
  qed (use assms False in \<open>simp add: handle_info_block_sync_def\<close>)
qed

lemma info_block_manager:
  assumes "handle_info_block ctx ib nd = Inr (r, nd') \<or> handle_info_block_sync ctx ib nd = Inr (r, nd')"
  shows "(n_synced nd \<longrightarrow> n_synced nd') \<and> (n_manager nd' = n_manager nd \<or>
    (\<exists>b ok. manager_add_block (nc_env ctx) b False (n_manager nd) = Inr (ok, n_manager nd')))"
proof -
  consider "same_but_conn (set_synced nd) nd'"
    | h ok nd1 where "add_received_block ctx ib nd = Inr (h, ok, nd1)" "same_but_conn nd1 nd'"
    using assms info_block_steps [of ctx ib nd r nd'] info_block_sync_steps [of ctx ib nd r nd'] by blast
  then show ?thesis
  proof cases
    case 2
    with received_block_total [OF 2(1)] show ?thesis unfolding same_but_conn_def by auto
  qed (simp add: set_synced_def same_but_conn_def)
qed

text \<open>The ways in which a message can change the node.\<close>

lemma route_cases:
  assumes "route ctx mt data peerID nd = Inr (resp, nd')"
  obtains (same) "same_but_conn nd nd'"
    | (tx) "mt = InfoTransaction" "handle_info_tx ctx (infotx_parse (pb ctx) data) nd = Inr (resp, nd')"
    | (comp) "mt = InfoComputation" "handle_info_computation ctx (infocomp_parse (pb ctx) data) nd = Inr (resp, nd')"
    | (blk) "mt = InfoBlock" "handle_info_block ctx (infoblock_parse (pb ctx) data) nd = Inr (resp, nd')
          \<or> handle_info_block_sync ctx (infoblock_parse (pb ctx) data) nd = Inr (resp, nd')"
proof (cases mt)
  case InfoBlock
  with assms blk show ?thesis by (auto simp: route_def split: if_splits)
qed (use assms same tx comp in \<open>auto simp: route_def map_sum_Inr_iff same_but_conn_def
       dest: addresses_conn handlers_read_only list_transactions_conn\<close>)

text \<open>C11. Which message may change what: only a block reaches the chain, the forks, the unspent outputs, the
  stored blocks and the wallet, only a block or a transaction reaches the pool, only a block or a
  computation reaches the computations; a synchronised node stays so; and whatever the message is,
  the main chain does not get lighter (as long as its 64-bit total has room for one more block).\<close>

theorem message_scope:
  assumes "route ctx mt data peerID nd = Inr (resp, nd')"
  shows "(mt \<noteq> InfoBlock \<longrightarrow> same_ledger (n_manager nd) (n_manager nd'))
    \<and> (mt \<notin> {InfoBlock, InfoTransaction} \<longrightarrow> st_pool (m_stores (n_manager nd')) = st_pool (m_stores (n_manager nd)))
    \<and> (mt \<notin> {InfoBlock, InfoComputation} \<longrightarrow> st_comps (m_stores (n_manager nd')) = st_comps (m_stores (n_manager nd)))
    \<and> (n_synced nd \<longrightarrow> n_synced nd')
    \<and> (unat (total_difficulty (main_chain (n_manager nd))) + 2 ^ 32 \<le> 2 ^ 64 \<longrightarrow>
         total_difficulty (main_chain (n_manager nd)) \<le> total_difficulty (main_chain (n_manager nd')))"
  using assms
proof (cases rule: route_cases)
  case same
  then show ?thesis by (simp add: same_but_conn_def same_ledger_refl)
next
  case tx
  with info_tx_pool [OF tx(2)] show ?thesis by (simp add: same_ledger_def)
next
  case comp
  with info_computation_comps [OF comp(2)] show ?thesis by (simp add: same_ledger_def)
next
  case blk
  from info_block_manager [OF blk(2)] show ?thesis using blk(1) by (auto dest: manager_add_block_total)
qed


subsection \<open>Relaying once\<close>

text \<open>The memoised hash of a header stays with it, so the block is stored under the hash it came with.\<close>

lemma prev_hash_cache: "prev_hash ops gh hdr = Inr (p, hdr') \<Longrightarrow> hdr_hash_cache hdr' = hdr_hash_cache hdr"
  by (cases hdr) (auto simp: header_hash.simps(1) split: option.splits sum.splits if_splits)

lemma header_serialize_cache:
  "header_serialize ops gh incl hdr = Inr (s, hdr') \<Longrightarrow> hdr_hash_cache hdr' = hdr_hash_cache hdr"
  by (auto simp: header_serialize.simps dest!: prev_hash_cache split: sum.splits block_header.splits if_splits)

lemma header_hash_cache: "header_hash ops gh force hdr = Inr (h, hdr') \<Longrightarrow> hdr_hash_cache hdr' = Some h"
  by (auto simp: header_hash.simps(1) split: option.splits sum.splits block_header.splits if_splits)

lemma cached_hash: "hdr_hash_cache hdr = Some h \<Longrightarrow> header_hash ops gh False hdr = Inr (h, hdr)"
  by (simp add: header_hash.simps(1))

lemma cache_kept:
  "hdr_hash_cache (with_computations cs hdr) = hdr_hash_cache hdr"
  "hdr_hash_cache (with_prev p hdr) = hdr_hash_cache hdr"
  by (cases hdr, simp)+

lemma validated_cache:
  "validate_header_unsafe env ch hdr height = Inr (ok, hdr') \<Longrightarrow> hdr_hash_cache hdr' = hdr_hash_cache hdr"
  by (auto simp: validate_header_unsafe_def cache_kept dest!: header_serialize_cache split: sum.splits if_splits)

lemma validated_block_cache:
  "validate_block env cs ch b height = Inr (ok, b') \<Longrightarrow> hdr_hash_cache (blk_header b') = hdr_hash_cache (blk_header b)"
  by (auto simp: validate_block_def Let_def map_sum_Inr_iff dest!: validated_cache split: sum.splits option.splits if_splits)

text \<open>No step of the manager removes a block.\<close>

definition keeps_blocks :: "'c stores \<Rightarrow> 'c stores \<Rightarrow> bool" where
  "keeps_blocks st st' \<longleftrightarrow> dom (map_of (st_blocks st)) \<subseteq> dom (map_of (st_blocks st'))"

lemma keeps_blocks_trans: "keeps_blocks a b \<Longrightarrow> keeps_blocks b c \<Longrightarrow> keeps_blocks a c"
  by (auto simp: keeps_blocks_def)

lemma keeps_blocks_refl: "keeps_blocks st st"
  by (simp add: keeps_blocks_def)

lemma store_block_stores: "h \<in> dom (map_of (snd (store_block h b st))) \<and> dom (map_of st) \<subseteq> dom (map_of (snd (store_block h b st)))"
  by (auto simp: blockstore.insert_dom)

lemma accept_block_stores:
  assumes "accept_block env b head ch st = Inr (ch', st')"
  shows "keeps_blocks st st' \<and> (hdr_hash_cache (blk_header b) = Some h \<longrightarrow> h \<in> dom (map_of (st_blocks st')))"
proof -
  from assms obtain k b2 where k: "block_hash (env_ops env) (env_gh env) False (b\<lparr>blk_header := with_prev head (blk_header b)\<rparr>) = Inr (k, b2)"
      "st_blocks st' = snd (store_block k b2 (st_blocks st))"
    by (auto simp: accept_block_def Let_def split: sum.splits)
  have "k = h" if "hdr_hash_cache (blk_header b) = Some h"
    using k(1) that by (simp add: block_hash_def cached_hash cache_kept)
  with k(2) store_block_stores [of k b2 "st_blocks st"] show ?thesis by (auto simp: keeps_blocks_def)
qed

lemma append_block_stores:
  assumes "append_block env b v ch st = Inr (ok, ch', st')"
  shows "keeps_blocks st st' \<and> (ok \<longrightarrow> hdr_hash_cache (blk_header b) = Some h \<longrightarrow> h \<in> dom (map_of (st_blocks st')))"
proof (cases ok)
  case True
  with assms obtain p header0 head b1 where
    p: "prev_hash (env_ops env) (env_gh env) (blk_header b) = Inr (p, header0)"
    and v: "(if v then Inr (True, b\<lparr>blk_header := header0\<rparr>)
          else validate_block env (st_chainstate st) ch (b\<lparr>blk_header := header0\<rparr>) (word_of_nat (length (header_chain ch)))) = Inr (True, b1)"
    and a: "accept_block env b1 head ch st = Inr (ch', st')"
    by (auto simp: append_block_def Let_def map_sum_Inr_iff split: sum.splits if_splits)
  have "hdr_hash_cache (blk_header b1) = hdr_hash_cache (blk_header b)"
    using v prev_hash_cache [OF p] by (auto dest: validated_block_cache split: if_splits)
  with accept_block_stores [OF a] show ?thesis by simp
next
  case False
  with assms append_block_rejected [of env b v ch st ch' st'] show ?thesis by (simp add: keeps_blocks_refl)
qed

lemma fork_append_stores:
  assumes "fork_append_block env b fk st = Inr (ok, fk', st')"
  shows "keeps_blocks st st' \<and> (ok \<longrightarrow> hdr_hash_cache (blk_header b) = Some h \<longrightarrow> h \<in> dom (map_of (st_blocks st')))"
proof (cases ok)
  case True
  let ?height = "current_fork_height fk + 1"
  from assms True obtain header k b2 head where
    v: "validate_header_unsafe env (f_chain fk) (blk_header b) ?height = Inr (True, header)"
    and k: "block_hash (env_ops env) (env_gh env) False (b\<lparr>blk_header := with_prev head header\<rparr>) = Inr (k, b2)"
      "st' = st\<lparr>st_blocks := snd (store_block k b2 (st_blocks st))\<rparr>"
    by (auto simp: fork_append_block_def Let_def split: sum.splits if_splits)
  have "k = h" if "hdr_hash_cache (blk_header b) = Some h"
    using k(1) validated_cache [OF v] that by (simp add: block_hash_def cached_hash cache_kept)
  with k(2) store_block_stores [of k b2 "st_blocks st"] show ?thesis by (auto simp: keeps_blocks_def)
next
  case False
  with assms show ?thesis
    by (auto simp: fork_append_block_def Let_def keeps_blocks_refl split: sum.splits if_splits)
qed

lemma rewind_blocks: "rewind_headers env hs st = Inr st' \<Longrightarrow> st_blocks st' = st_blocks st"
  unfolding rewind_headers_def
  by (erule fold_res_invariant) (auto simp: rewind_header_def map_sum_Inr_iff split: sum.splits)

lemma rewind_keeps: "rewind_headers env hs st = Inr st' \<Longrightarrow> keeps_blocks st st'"
  by (simp add: keeps_blocks_def rewind_blocks)

lemma replay_keeps: "replay env hs idx ch st = Inr (ok, idx', ch', st') \<Longrightarrow> keeps_blocks st st'"
proof (induction hs arbitrary: idx ch st)
  case (Cons h hs)
  from Cons.prems obtain block added ch1 st1 where a: "append_block env block False ch st = Inr (added, ch1, st1)"
      and r: "if added then replay env hs (idx + 1) ch1 st1 = Inr (ok, idx', ch', st')
        else (ok, idx', ch', st') = (False, idx, ch1, st1)"
    by (auto split: sum.splits if_splits)
  have "keeps_blocks st st1" using append_block_stores [OF a] by blast
  with r Cons.IH [of "idx + 1" ch1 st1] show ?case by (auto intro: keeps_blocks_trans split: if_splits)
qed (simp add: keeps_blocks_refl)

lemma reorg_keeps: "reorg env fi m = Inr m' \<Longrightarrow> keeps_blocks (m_stores m) (m_stores m')"
  by (auto simp: reorg_def Let_def map_sum_Inr_iff split: if_splits sum.splits bool.splits prod.splits
      dest!: rewind_keeps replay_keeps)
    (meson keeps_blocks_trans)+

text \<open>Adding a block, whatever comes of it: it is stored if it was accepted, and no block is lost.\<close>

definition stored_after :: "'c block \<Rightarrow> bool \<Rightarrow> 'c stores \<Rightarrow> 'c stores \<Rightarrow> bool" where
  "stored_after b ok st st' \<longleftrightarrow> keeps_blocks st st'
     \<and> (\<forall>h. ok \<longrightarrow> hdr_hash_cache (blk_header b) = Some h \<longrightarrow> h \<in> dom (map_of (st_blocks st')))"

lemma stored_after_trans: "stored_after b ok st st1 \<Longrightarrow> keeps_blocks st1 st' \<Longrightarrow> stored_after b ok st st'"
  unfolding stored_after_def keeps_blocks_def by blast

lemma stored_after_refl: "\<not> ok \<Longrightarrow> stored_after b ok st st"
  by (simp add: stored_after_def keeps_blocks_refl)

lemma add_to_main_stores:
  assumes "add_to_main env b v m = Inr (ok, m')"
  shows "stored_after b ok (m_stores m) (m_stores m')"
proof -
  from assms obtain ch st where "append_block env b v (main_chain m) (m_stores m) = Inr (ok, ch, st)" "m_stores m' = st"
    by (auto simp: add_to_main_def Let_def split: sum.splits if_splits)
  with append_block_stores [OF this(1)] show ?thesis by (auto simp: stored_after_def)
qed

lemma fork_stores: "fork_append_block env b fk st = Inr (ok, fk', st') \<Longrightarrow> stored_after b ok st st'"
  using fork_append_stores [of env b fk st ok fk' st'] by (auto simp: stored_after_def)

lemma manager_add_block_stores:
  assumes "manager_add_block env b v m = Inr (ok, m')"
  shows "stored_after b ok (m_stores m) (m_stores m')"
proof -
  consider v' where "add_to_main env b v' m = Inr (ok, m')"
    | fi where "\<not> v" "can_attach env (main_chain m) (blk_header b) = Inr False" "find_fork env b 0 (forks m) = Inr (Some fi)"
    | "\<not> v" "can_attach env (main_chain m) (blk_header b) = Inr False" "find_fork env b 0 (forks m) = Inr None"
    using assms by (auto simp: manager_add_block_def split: if_splits sum.splits bool.splits option.splits)
  then show ?thesis
  proof cases
    case (2 fi)
    with assms obtain fk' st where f: "fork_append_block env b (forks m ! fi) (m_stores m) = Inr (ok, fk', st)"
        "m' = m\<lparr>forks := (forks m)[fi := fk'], m_stores := st\<rparr>
          \<or> reorg env fi (m\<lparr>forks := (forks m)[fi := fk'], m_stores := st\<rparr>) = Inr m'"
      by (auto simp: manager_add_block_def Let_def map_sum_Inr_iff split: sum.splits if_splits)
    have "keeps_blocks st (m_stores m')" using f(2) by (auto simp: keeps_blocks_refl dest: reorg_keeps)
    with fork_stores [OF f(1)] show ?thesis by (rule stored_after_trans)
  next
    case 3
    with assms consider "m' = m" "\<not> ok"
      | fk fk' st where "fork_append_block env b fk (m_stores m) = Inr (ok, fk', st)" "m_stores m' = st"
      by (auto simp: manager_add_block_def split: sum.splits if_splits option.splits)
    then show ?thesis by cases (auto simp: stored_after_refl dest: fork_stores)
  qed (rule add_to_main_stores)
qed

lemma added_block_stored:
  "manager_add_block env b v m = Inr (True, m') \<Longrightarrow> hdr_hash_cache (blk_header b) = Some h \<Longrightarrow> manager_block_exists h m'"
  using manager_add_block_stores [of env b v m True m']
  by (auto simp: stored_after_def manager_block_exists_def block_exists_def)

lemma added_tx_pooled:
  assumes "add_tx env t m = Inr (True, m')" and "TXID (env_gh env) t0 = Inr (k, t)"
  shows "manager_tx_exists k m'"
proof -
  from assms(2) have cached: "tx_id_cache t = Some k" by (auto simp: TXID_def compute_txid_def split: if_splits option.splits sum.splits)
  from assms(1) obtain inps p' where "add_valid_tx (env_gh env) (t\<lparr>tx_inputs := inps\<rparr>) (st_pool (m_stores m)) = Inr (True, p')"
      "st_pool (m_stores m') = p'"
    by (auto simp: add_tx_def Let_def split: option.splits sum.splits if_splits)
  moreover from add_valid_tx_new [OF this(1)] obtain j where "txid_of (env_gh env) (t\<lparr>tx_inputs := inps\<rparr>) = Inr j" "tx_in_pool j p'"
    by blast
  moreover from this(1) cached have "j = k" by (auto simp: txid_of_def TXID_def split: if_splits)
  ultimately show ?thesis by (simp add: manager_tx_exists_def)
qed

text \<open>A handler that has sent something has added something.\<close>

lemma info_tx_relayed:
  assumes "handle_info_tx ctx p nd = Inr (resp, nd1)" and "n_conn nd1 \<noteq> n_conn nd"
  shows "handle_info_tx ctx p nd1 = Inr ([], nd1)"
proof -
  let ?env = "nc_env ctx"
  from assms obtain t0 k t m where t: "tx_from_proto (env_gh ?env) p False = Inr t0" "TXID (env_gh ?env) t0 = Inr (k, t)"
      "add_tx ?env t (n_manager nd) = Inr (True, m)" "broadcast (build_inv_tx (pb ctx) k) (nd\<lparr>n_manager := m\<rparr>) = Inr nd1"
    by (auto simp: handle_info_tx_def Let_def map_sum_Inr_iff split: sum.splits if_splits prod.splits)
  from broadcast_conn [OF t(4)] have "n_manager nd1 = m" by (simp add: same_but_conn_def)
  with added_tx_pooled [OF t(3,2)] t(1,2) show ?thesis by (simp add: handle_info_tx_def)
qed

lemma info_computation_relayed:
  assumes "handle_info_computation ctx p nd = Inr (resp, nd1)" and "n_conn nd1 \<noteq> n_conn nd"
  shows "handle_info_computation ctx p nd1 = Inr ([], nd1)"
proof -
  let ?env = "nc_env ctx"
  from assms obtain c m where c: "co_create (env_ops ?env) p = Inr c" "add_computation ?env c (n_manager nd) = (True, m)"
      "broadcast (build_inv_computation (pb ctx) (co_hash (env_ops ?env) c)) (nd\<lparr>n_manager := m\<rparr>) = Inr nd1"
    by (auto simp: handle_info_computation_def Let_def map_sum_Inr_iff split: sum.splits if_splits prod.splits)
  from broadcast_conn [OF c(3)] have "n_manager nd1 = m" by (simp add: same_but_conn_def)
  moreover have "manager_computation_exists (co_hash (env_ops ?env) c) m"
    using c(2) by (auto simp: add_computation_def store_computation_def manager_computation_exists_def computation_exists_def
        update_conv' split: if_splits prod.splits)
  ultimately show ?thesis using c(1) by (simp add: handle_info_computation_def Let_def)
qed

lemma info_block_relayed:
  assumes "handle_info_block ctx ib nd = Inr (resp, nd1)" and "n_conn nd1 \<noteq> n_conn nd"
  shows "handle_info_block ctx ib nd1 = Inr ([], nd1) \<and> n_synced nd1 = n_synced nd"
proof -
  let ?env = "nc_env ctx"
  from info_block_steps [OF assms(1)] obtain h ok nd2 where r: "add_received_block ctx ib nd = Inr (h, ok, nd2)" "same_but_conn nd2 nd1"
    by blast
  from r(1) have "n_conn nd2 = n_conn nd"
    by (auto simp: add_received_block_def Let_def map_sum_Inr_iff split: sum.splits if_splits)
  with assms r(1) have ok by (auto simp: handle_info_block_def map_sum_Inr_iff split: if_splits)
  with r(1) obtain b0 b m where b: "block_from_proto (env_ops ?env) (env_gh ?env) (block_of ib) = Inr b0"
      "block_hash (env_ops ?env) (env_gh ?env) False b0 = Inr (h, b)"
      "manager_add_block ?env b False (n_manager nd) = Inr (True, m)" "nd2 = nd\<lparr>n_manager := m\<rparr>"
    by (auto simp: add_received_block_def Let_def map_sum_Inr_iff split: sum.splits if_splits prod.splits)
  from b(2) have "hdr_hash_cache (blk_header b) = Some h" by (auto simp: block_hash_def map_sum_Inr_iff dest: header_hash_cache)
  from added_block_stored [OF b(3) this] r(2) b(4) have "manager_block_exists h (n_manager nd1)" by (simp add: same_but_conn_def)
  with b(1,2) r(2) b(4) show ?thesis
    by (simp add: handle_info_block_def add_received_block_def same_but_conn_def)
qed

text \<open>C12. Gossip stops: once a synchronised node has passed on a transaction, a computation or a block, the
  same message, from whichever peer, does nothing more: no answer, no message to anybody, no change.\<close>

theorem relayed_once:
  assumes "route ctx mt data peerID nd = Inr (resp, nd1)" and "n_conn nd1 \<noteq> n_conn nd"
    and "mt \<in> {InfoTransaction, InfoComputation, InfoBlock}" and "n_synced nd"
  shows "route ctx mt data peerID' nd1 = Inr ([], nd1)"
proof -
  consider "mt = InfoTransaction" | "mt = InfoComputation" | "mt = InfoBlock" using assms(3) by blast
  then show ?thesis
  proof cases
    case 1
    with assms(1,2) info_tx_relayed show ?thesis by (simp add: route_def)
  next
    case 2
    with assms(1,2) info_computation_relayed show ?thesis by (simp add: route_def)
  next
    case 3
    with assms(1,2,4) info_block_relayed [of ctx "infoblock_parse (pb ctx) data" nd resp nd1] show ?thesis by (simp add: route_def)
  qed
qed

subsection \<open>Whatever arrives\<close>

text \<open>What every message keeps: the stored blocks, and that the node is synchronised.\<close>

definition nothing_lost :: "'c node \<Rightarrow> 'c node \<Rightarrow> bool" where
  "nothing_lost nd nd' \<longleftrightarrow> keeps_blocks (m_stores (n_manager nd)) (m_stores (n_manager nd')) \<and> (n_synced nd \<longrightarrow> n_synced nd')"

lemma nothing_lost_refl: "nothing_lost nd nd"
  by (simp add: nothing_lost_def keeps_blocks_refl)

lemma nothing_lost_trans: "nothing_lost nd nd1 \<Longrightarrow> nothing_lost nd1 nd2 \<Longrightarrow> nothing_lost nd nd2"
  by (auto simp: nothing_lost_def intro: keeps_blocks_trans)

lemma same_ledger_lost: "same_ledger (n_manager nd) (n_manager nd') \<Longrightarrow> n_synced nd \<longrightarrow> n_synced nd' \<Longrightarrow> nothing_lost nd nd'"
  by (auto simp: nothing_lost_def same_ledger_def keeps_blocks_def)

lemma route_loses_nothing:
  assumes "route ctx mt data peerID nd = Inr (resp, nd')"
  shows "nothing_lost nd nd'"
  using assms
proof (cases rule: route_cases)
  case same
  then show ?thesis by (intro same_ledger_lost) (simp_all add: same_but_conn_def same_ledger_refl)
next
  case tx
  from info_tx_pool [OF tx(2)] show ?thesis by (intro same_ledger_lost) simp_all
next
  case comp
  from info_computation_comps [OF comp(2)] show ?thesis by (intro same_ledger_lost) simp_all
next
  case blk
  from info_block_manager [OF blk(2)] show ?thesis
    by (auto simp: nothing_lost_def keeps_blocks_refl stored_after_def dest!: manager_add_block_stores)
qed

interpretation node_router: message_handler
    "\<lambda>mt data nd. route ctx mt data (p_id (peer_heap (n_conn nd) p)) nd" nothing_lost
  for ctx :: "('c, 'p) node_ctx" and p :: nat
  by unfold_locales (fact nothing_lost_refl, erule nothing_lost_trans, assumption, erule route_loses_nothing)

text \<open>Whatever bytes a peer sends, in whatever pieces, and whichever messages they hold: as long as the
  node runs, every block that it has stored is still stored, and once synchronised it stays so.\<close>

theorem listening_loses_nothing:
  assumes "listen ctx p chunks nd = Inr (answers, rest, nd')" and "manager_block_exists h (n_manager nd)" and "n_synced nd"
  shows "manager_block_exists h (n_manager nd') \<and> n_synced nd'"
  using node_router.listen_related [OF assms(1) [unfolded listen_def]] assms(2,3)
  by (auto simp: nothing_lost_def keeps_blocks_def manager_block_exists_def block_exists_def)

end
