(* ===== verification/NodeProtocol.thy ===== *)
theory NodeProtocol
  imports NodeCorrect FheMining
begin

text \<open>
  Conversations: a block travels from one node to another, a client gets an output, and the requests
  that end a node or its mining.
\<close>

subsection \<open>A block travels\<close>

lemma listen_one:
  assumes "frame mt data = Inr f" and "mt \<in> set enumerators" and "concat cs = f"
  shows "\<exists>cs'. concat cs' = [] \<and> listen ctx p cs nd =
    map_sum id (\<lambda>(resp, nd'). (resp, cs', nd')) (route ctx mt data (p_id (peer_heap (n_conn nd) p)) nd)"
proof -
  let ?route = "\<lambda>mt data nd. route ctx mt data (p_id (peer_heap (n_conn nd) p)) nd"
  have "map_res (\<lambda>(mt, data). frame mt data) [(mt, data)] = Inr [f]" using assms(1) by simp
  from listen_frames [OF this, of cs "[]" ?route "[]" nd] assms(2,3) obtain cs' where cs': "concat cs' = []"
    "listen_loop ?route cs [] nd = map_sum id (\<lambda>(resps, s'). ([] @ resps, cs', s')) (deliver ?route [(mt, data)] nd)"
    by auto
  have "map_sum id (\<lambda>(resps, s'). ([] @ resps, cs', s')) (deliver ?route [(mt, data)] nd)
      = map_sum id (\<lambda>(resp, nd'). (resp, cs', nd')) (?route mt data nd)"
    by (cases "?route mt data nd") auto
  with cs' show ?thesis by (auto simp: listen_def)
qed

text \<open>C17. A block announced is a block delivered: a node that hears of a block it lacks asks for it and does
  nothing else; the node that has it answers, unchanged, with the message of the block; and when these
  bytes arrive at the first, cut anyhow, it handles exactly that message.\<close>

theorem block_travels:
  assumes "manager_block_exists h (n_manager A)" and "block_message ctxA h A = Inr p"
    and "\<not> manager_block_exists h (n_manager B)"
    and "pb ctxA = b" and "pb ctxB = b" and "hash_parse b InvBlock announced = h"
    and "hash_parse b GetBlock (hash_bytes b GetBlock h) = h"
    and "infoblock_parse b (infoblock_bytes b ib) = ib" and "ib = \<lparr>ib_block = Some p, ib_out_of_range = False\<rparr>"
    and "length (hash_bytes b GetBlock h) < 2 ^ 31 - 8" and "length (infoblock_bytes b ib) < 2 ^ 31 - 8"
  shows "\<exists>request answer. route ctxB InvBlock announced idA B = Inr (request, B)
    \<and> (\<forall>cs. concat cs = request \<longrightarrow> (\<exists>cs'. concat cs' = [] \<and> listen ctxA peerB cs A = Inr (answer, cs', A)))
    \<and> (\<forall>cs. concat cs = answer \<longrightarrow> (\<exists>cs'. concat cs' = [] \<and> listen ctxB peerA cs B =
         map_sum id (\<lambda>(resp, B'). (resp, cs', B'))
           (if n_synced B then handle_info_block ctxB ib B else handle_info_block_sync ctxB ib B)))"
proof -
  have types: "GetBlock \<in> set enumerators" "InfoBlock \<in> set enumerators" by (simp_all add: enumerators_def)
  obtain request where request: "frame GetBlock (hash_bytes b GetBlock h) = Inr request" using frame_made [OF assms(10)] by blast
  obtain answer where answer: "frame InfoBlock (infoblock_bytes b ib) = Inr answer" using frame_made [OF assms(11)] by blast
  have "route ctxB InvBlock announced idA B = Inr (request, B)"
    using assms(3,5,6) request by (simp add: route_def handle_inv_block_def reply_def)
  moreover have "\<exists>cs'. concat cs' = [] \<and> listen ctxA peerB cs A = Inr (answer, cs', A)" if "concat cs = request" for cs
  proof -
    have "route ctxA GetBlock (hash_bytes b GetBlock h) k A = Inr (answer, A)" for k
      using assms(1,2,4,7,9) answer by (simp add: route_def handle_get_block_def reply_def)
    with listen_one [OF request types(1) that, of ctxA peerB A] show ?thesis by simp
  qed
  moreover have "\<exists>cs'. concat cs' = [] \<and> listen ctxB peerA cs B = map_sum id (\<lambda>(resp, B'). (resp, cs', B'))
      (if n_synced B then handle_info_block ctxB ib B else handle_info_block_sync ctxB ib B)" if "concat cs = answer" for cs
  proof -
    have "route ctxB InfoBlock (infoblock_bytes b ib) k B =
        (if n_synced B then handle_info_block ctxB ib B else handle_info_block_sync ctxB ib B)" for k
      by (simp only: route_def assms(5,8) message_type.case)
    with listen_one [OF answer types(2) that, of ctxB peerA B] show ?thesis by simp
  qed
  ultimately show ?thesis by blast
qed

subsection \<open>Outputs\<close>

lemma string_of_bytes: "string_bytes (map (\<lambda>b. char_of (unat b)) bs) = bs"
proof -
  have "of_char (char_of (unat b)) = b" for b :: byte
  proof -
    have "(of_char (char_of (unat b)) :: byte) = of_nat (of_char (char_of (unat b)))" by (simp only: of_nat_of_char)
    also have "\<dots> = b" using unat_byte [of b] by simp
    finally show ?thesis .
  qed
  then show ?thesis by (induction bs) (simp_all add: string_bytes_def)
qed


subsection \<open>Requests that end a node\<close>

lemma genesis_stored:
  assumes "new_manager env w = Inr m"
  obtains h g b where "header_chain (main_chain m) = [g]" "hdr_hash_cache g = Some h"
    "manager_get_block h m = Inr b" "prev_block_header (blk_header b) = None" "blk_header b = g" "forks m = []"
proof -
  from assms obtain h g cs where g: "create_genesis env = Inr (h, g)" "header_chain (main_chain m) = [blk_header g]"
      "st_blocks (m_stores m) = snd (store_block h g [])" "forks m = []"
    by (auto simp: new_manager_def new_chain_def map_sum_Inr_iff split: sum.splits)
  from g(1) obtain b0 where b0: "genesis_block (env_gh env) (cfg_timestamp (env_cfg env)) (cfg_difficulty (env_cfg env))
        (cfg_public_key (env_cfg env) @ [0]) (cfg_reward (env_cfg env)) = Inr b0"
      "block_hash (env_ops env) (env_gh env) False b0 = Inr (h, g)"
    by (auto simp: create_genesis_def Let_def split: sum.splits if_splits)
  from b0(1) obtain root where "blk_header b0 = BlockHeader None root (cfg_timestamp (env_cfg env)) (cfg_difficulty (env_cfg env)) [] None []"
    by (auto simp: genesis_block_def new_block_def BlockHeader_after_def split: sum.splits)
  with b0(2) have "hdr_hash_cache (blk_header g) = Some h" "prev_block_header (blk_header g) = None"
    by (auto simp: block_hash_def map_sum_Inr_iff header_hash.simps(1) header_serialize.simps split: sum.splits)
  with g(2-4) that show thesis by (simp add: manager_get_block_def get_block_def store_block_def)
qed

text \<open>C23. A node can be brought down by one message: on a request for the block of height zero, and on one
  for the genesis block by its hash, a freshly started node dereferences the null predecessor of the
  genesis header.\<close>

theorem genesis_request_crashes:
  assumes "new_manager (nc_env ctx) w = Inr (n_manager nd)" and "syncblock_parse (pb ctx) data = 0"
  shows "route ctx SyncBlock data peerID nd = Inl (Undefined ''null previous header'')
    \<and> (\<exists>h. \<forall>data'. hash_parse (pb ctx) GetBlock data' = h \<longrightarrow>
         route ctx GetBlock data' peerID nd = Inl (Undefined ''null previous header''))"
proof -
  from genesis_stored [OF assms(1)] obtain h g b where g: "header_chain (main_chain (n_manager nd)) = [g]" "hdr_hash_cache g = Some h"
    "manager_get_block h (n_manager nd) = Inr b" "prev_block_header (blk_header b) = None" by blast
  have m: "block_message ctx h nd = Inl (Undefined ''null previous header'')"
    using g(3,4) by (simp add: block_message_def block_to_proto_def header_to_proto_def)
  have "manager_block_exists h (n_manager nd)"
    using g(3) by (auto simp: manager_get_block_def get_block_def manager_block_exists_def block_exists_def split: option.splits)
  with m have "route ctx GetBlock data' peerID nd = Inl (Undefined ''null previous header'')" if "hash_parse (pb ctx) GetBlock data' = h" for data'
    using that by (simp add: route_def handle_get_block_def)
  moreover have "route ctx SyncBlock data peerID nd = Inl (Undefined ''null previous header'')"
    using assms(2) g(1,2) m by (simp add: route_def handle_sync_block_def Let_def current_height_def get_header_def cached_hash)
  ultimately show ?thesis by blast
qed

subsection \<open>A computation that blocks mining\<close>

text \<open>The left operand of the root names a ciphertext that is not there, as in \<open>9+0\<close> with one ciphertext.\<close>

definition missing_operand :: "('ct, 'pk, 'ps) fhe_computer \<Rightarrow> bool" where
  "missing_operand c \<longleftrightarrow>
     (case ast_root (c_ast c) of None \<Rightarrow> False
      | Some r \<Rightarrow>
          (let h = ast_nodes (c_ast c)
           in \<not> is_leaf (h r) \<and> right_child (h r) \<noteq> None \<and>
              (case left_child (h r) of None \<Rightarrow> False
               | Some l \<Rightarrow> is_leaf (h l) \<and> \<not> (0 \<le> val_of (h l) \<and> nat (val_of (h l)) < length (ciphertexts (computation c))))))"

lemma bound_inputs:
  assumes "bind_inputs_to_data lib d fc = Inr fc'"
  shows "length (ciphertexts fc') = length (ciphertexts fc) \<and> ciphertexts fc \<noteq> []"
proof -
  from assms obtain cc cts where "GetCryptoContext lib fc = Inr cc" "bind_from lib cc (publicKey fc) d 0 (ciphertexts fc) = Inr cts"
      "fc' = fc\<lparr>ciphertexts := cts, unbound_ciphertexts_archive := original_ciphertexts fc, is_bound := True\<rparr>"
    by (rule bind_inputsE)
  with bind_from_length [OF this(2)] show ?thesis by (auto simp: GetCryptoContext_def)
qed

lemma missing_operand_bound:
  assumes "missing_operand c" and "bind_to_data lib d c = Inr c1"
  shows "missing_operand c1 \<and> (\<exists>cc. GetCryptoContext lib (computation c1) = Inr cc)"
proof -
  from assms(2) obtain fc where fc: "bind_inputs_to_data lib d (computation c) = Inr fc" "c1 = c\<lparr>computation := fc\<rparr>"
    by (auto simp: bind_to_data_def map_sum_Inr_iff)
  from bound_inputs [OF fc(1)] have l: "length (ciphertexts fc) = length (ciphertexts (computation c))" "ciphertexts fc \<noteq> []" by auto
  with assms(1) fc(2) have "missing_operand c1" by (auto simp: missing_operand_def Let_def split: option.splits)
  with l(2) fc(2) show ?thesis by (simp add: GetCryptoContext_def split: list.splits)
qed

lemma missing_operand_interrupts:
  assumes "missing_operand c" and "GetCryptoContext lib (computation c) = Inr cc"
  shows "generate_proof lib c = Inl Out_of_range"
proof -
  from assms(1) obtain r l rt where r: "ast_root (c_ast c) = Some r" "\<not> is_leaf (ast_nodes (c_ast c) r)"
      "left_child (ast_nodes (c_ast c) r) = Some l" "right_child (ast_nodes (c_ast c) r) = Some rt"
      "is_leaf (ast_nodes (c_ast c) l)"
      "ciphertext_at (ciphertexts (computation c)) (val_of (ast_nodes (c_ast c) l)) = Inl Out_of_range"
    by (auto simp: missing_operand_def Let_def ciphertext_at_def split: option.splits if_splits)
  let ?bk = "context_backend lib (computation c)" and ?cts = "ciphertexts (computation c)" and ?h = "ast_nodes (c_ast c)"
  have "eval ?bk stop ?cts ?h l () = Some (Inl Out_of_range)" for stop
    using r(5,6) by (subst eval.simps) simp
  then have "eval ?bk stop ?cts ?h r () = Some (Inl Out_of_range)" for stop
    using r(2-4) by (subst eval.simps) simp
  then have "evaluate lib c = Inl Out_of_range"
    using r(1) by (simp add: evaluate_def eval_root_def root_of_def ended_def)
  with assms(2) show ?thesis by (simp add: generate_proof_def generate_constraints_def)
qed

lemma blocked_proving:
  assumes "missing_operand c" and "prove_computations (fhe_ops lib gh) ser i (c # cs) = Inr (finished, left_over)"
  shows "\<not> finished \<and> (\<exists>c1. left_over = c1 # cs \<and> missing_operand c1)"
proof -
  from assms(2) obtain c1 where b: "bind_to_data lib (ser @ uint64_to_vector_big_endian i) c = Inr c1"
    by (auto simp: fhe_ops_def split: sum.splits)
  from missing_operand_bound [OF assms(1) b] obtain cc where m: "missing_operand c1" "GetCryptoContext lib (computation c1) = Inr cc"
    by blast
  from missing_operand_interrupts [OF m] have "generate_proof lib c1 = Inl Out_of_range" .
  with assms(2) b m(1) show ?thesis by (auto simp: fhe_ops_def)
qed

lemma blocked_serialize:
  assumes "serialize_computations (fhe_ops lib gh) False cs = Inr (s, cs')"
  shows "cs' = cs"
  using assms
  by (induction cs arbitrary: s cs') (auto simp: fhe_ops_def computer_serialize_def map_sum_Inr_iff split: sum.splits)

lemma blocked_mine:
  assumes "missing_operand c" and "env_ops env = fhe_ops lib gh"
    and "mine env now pk p height diff reward txs (c # cs) = Inr (r, left_over)"
  shows "r = None \<and> (\<exists>c1. left_over = c1 # cs \<and> missing_operand c1)"
proof -
  let ?proved = "\<lambda>hser hdr. prove_computations (env_ops env) hser 0 (computations hdr)"
  from assms(3) obtain cb block hser hdr where
    nb: "new_block (env_gh env) now (Some p) diff (c # cs) (cb # txs) = Inr block"
    and s: "header_serialize (env_ops env) (env_gh env) False (blk_header block) = Inr (hser, hdr)"
    and pr: "(\<exists>comps. ?proved hser hdr = Inr (True, comps)) \<or> ?proved hser hdr = Inr (False, left_over) \<and> r = None"
    unfolding mine_def by (auto split: sum.splits bool.splits prod.splits)
  from nb obtain mroot where b: "blk_header block = BlockHeader_after (Some p) mroot now diff (c # cs)"
    by (auto simp: new_block_def split: sum.splits)
  with s obtain cser where "serialize_computations (fhe_ops lib gh) False (c # cs) = Inr (cser, computations hdr)"
    by (auto simp: header_serialize.simps BlockHeader_after_def assms(2) split: sum.splits)
  then have "computations hdr = c # cs" by (rule blocked_serialize)
  with blocked_proving [OF assms(1), of lib gh hser 0 cs] pr assms(2) show ?thesis by auto
qed

text \<open>The computation stays in front of the store, under its key.\<close>

definition blocked :: "bytes \<Rightarrow> ('ct, 'pk, 'ps) fhe_computer manager \<Rightarrow> bool" where
  "blocked k m \<longleftrightarrow> (\<exists>c rest. st_comps (m_stores m) = (k, c) # rest \<and> missing_operand c)"

lemma blocked_start_mining:
  assumes "blocked k m" and "env_ops env = fhe_ops lib gh" and "start_mining env now m = Inr m'"
  shows "m_result m' = None \<and> blocked k m' \<and> main_chain m' = main_chain m"
proof -
  from assms(1) obtain c rest where st: "st_comps (m_stores m) = (k, c) # rest" "missing_operand c" by (auto simp: blocked_def)
  let ?d = "co_difficulty (env_ops env)"
  let ?h = "current_height (main_chain m) + 1" and ?st = "st_comps (m_stores m)"
  from assms(3) obtain txs target reward where base: "get_top (cfg_tx_per_block (env_cfg env)) (st_pool (m_stores m)) = Inr txs"
      "get_difficulty_for_height (env_fl env) (env_cfg env) (main_chain m) ?h = Inr target"
      "reward_for_height (env_cfg env) ?h = Inr reward"
    by (auto simp: start_mining_def Let_def split: sum.splits)
  show ?thesis
  proof (cases "collect_computations ?d target ?st")
    case Nil
    with assms(3) base have "m' = m\<lparr>m_result := None\<rparr>" by (simp add: start_mining_def Let_def)
    with st show ?thesis by (simp add: blocked_def)
  next
    case (Cons c0 cs)
    with collect_from_spec [of ?d target 0 "[]" "map snd ?st"] st(1) have "c0 = c"
      by (auto simp: collect_computations_def take_Cons' split: if_splits)
    with Cons assms(3) base obtain hd r comps where
      mined: "mine env now (w_public_key (m_wallet m)) hd ?h target reward txs (c # cs) = Inr (r, comps)"
        "m' = m\<lparr>m_result := r, m_stores := (m_stores m)\<lparr>st_comps := put_back comps ?st\<rparr>\<rparr>"
      by (auto simp: start_mining_def Let_def map_sum_Inr_iff split: sum.splits)
    from blocked_mine [OF st(2) assms(2) mined(1)] obtain c1 where "r = None" "comps = c1 # cs" "missing_operand c1" by blast
    with mined(2) st(1) show ?thesis by (simp add: blocked_def put_back_def)
  qed
qed

text \<open>C16. One bad computation stops a miner for good: when the one in front of the store names a ciphertext
  that it does not have, the exception of the evaluation is taken for the stop flag; the round gives
  no block, changes no connection and leaves the computation in front, so it blocks the next round.\<close>

theorem bad_computation_blocks_mining:
  assumes "env_ops (nc_env ctx) = fhe_ops lib gh" and "blocked k (n_manager nd)"
    and "mining_round ctx now nd = Inr (Some nd')"
  shows "blocked k (n_manager nd') \<and> get_mined_block (n_manager nd') = None
    \<and> main_chain (n_manager nd') = main_chain (n_manager nd) \<and> n_conn nd' = n_conn nd"
proof -
  from assms(3) obtain m where m: "start_mining (nc_env ctx) now (n_manager nd) = Inr m"
    by (auto simp: mining_round_def split: if_splits sum.splits)
  from blocked_start_mining [OF assms(2,1) m] have b: "m_result m = None" "blocked k m" "main_chain m = main_chain (n_manager nd)"
    by auto
  with assms(3) m have "nd' = nd\<lparr>n_manager := m\<rparr>"
    by (auto simp: mining_round_def get_mined_block_def split: if_splits)
  with b show ?thesis by (simp add: get_mined_block_def)
qed

subsection \<open>Small nodes\<close>

text \<open>
  Hashes and computations stand for their messages; every connection is refused.
\<close>

definition demo_pb_of :: "('p \<Rightarrow> bytes) \<Rightarrow> (bytes \<Rightarrow> 'p) \<Rightarrow> 'p info_block \<Rightarrow> 'p protobuf" where
  "demo_pb_of enc dec ib = \<lparr>hello_bytes = (\<lambda>_ _. [0]), getaddr_bytes = (\<lambda>_. [1]), getaddr_parse = (\<lambda>_. (''10.0.0.2'', 5000)),
     addr_bytes = (\<lambda>_. [2]), addr_parse = (\<lambda>_. []), invalid_bytes = [], hash_bytes = (\<lambda>_ h. h), hash_parse = (\<lambda>_ d. d),
     infoblock_bytes = (\<lambda>_. [3]), infoblock_parse = (\<lambda>_. ib), infotx_bytes = (\<lambda>_. [4]),
     infotx_parse = (\<lambda>_. \<lparr>pt_inputs = [], pt_outputs = []\<rparr>), infocomp_bytes = enc, infocomp_parse = dec,
     syncblock_bytes = uint32_to_vector_big_endian, syncblock_parse = (\<lambda>_. 0), synctxs_bytes = [],
     listtxs_bytes = concat, listtxs_parse = (\<lambda>d. [d])\<rparr>"

definition demo_pb :: "bytes info_block \<Rightarrow> bytes protobuf" where
  "demo_pb = demo_pb_of (\<lambda>c. c) (\<lambda>d. d)"

definition demo_ctx :: "bytes info_block \<Rightarrow> (bytes, bytes) node_ctx" where
  "demo_ctx ib = \<lparr>nc_env = demo_env\<lparr>env_cfg := demo_cfg\<lparr>cfg_hash := replicate 32 0\<rparr>\<rparr>, pb = demo_pb ib,
     dial = (\<lambda>_ _. Inl (Runtime_error ''refused'')), sign_det = (\<lambda>_ _. [])\<rparr>"

definition demo_node :: "bytes manager \<Rightarrow> bytes node" where
  "demo_node m = \<lparr>n_manager = m, n_conn = one_inbound, n_synced = True, sync_peer = None\<rparr>"

lemmas demo_node_defs = demo_ctx_def demo_pb_def demo_pb_of_def demo_node_def

lemma frame_total: "length payload < 2 ^ 31 - 8 \<Longrightarrow> \<exists>f. frame mt payload = Inr f"
  using frame_made by blast

text \<open>A node that has a block.\<close>

definition stored_block :: "bytes block" where
  "stored_block = \<lparr>blk_header = BlockHeader (Some demo_genesis) (replicate 32 0) 2 5 [[8, 9]] (Some [6]) [], blk_transactions = []\<rparr>"

definition stored_message :: "bytes info_block" where
  "stored_message = \<lparr>ib_block = Some \<lparr>pb_header = \<lparr>ph_prev_block_hash = replicate 32 0, ph_merkle_root = replicate 32 0, ph_timestamp = 2,
     ph_difficulty = 5, ph_computations = [[8, 9]]\<rparr>, pb_transactions = []\<rparr>, ib_out_of_range = False\<rparr>"

definition with_block :: "bytes manager" where
  "with_block = demo_manager\<lparr>m_stores := demo_stores\<lparr>st_blocks := [([6], stored_block)]\<rparr>\<rparr>"

text \<open>A new computation is passed on to the one peer.\<close>

lemma demo_relay:
  assumes "map_of (st_comps (m_stores m)) [7] = None"
  shows "\<exists>nd1. route (demo_ctx ib) InfoComputation [7] k (demo_node m) = Inr ([], nd1) \<and> n_conn nd1 \<noteq> one_inbound"
proof -
  obtain f where f: "frame InvComputation [7] = Inr f" using frame_total [of "[7]"] by auto
  have "async_broadcast f one_inbound = Inr (one_inbound\<lparr>sent := [(0, f)]\<rparr>)"
    by (simp add: async_broadcast_def async_send_def send_bytes_def one_inbound)
  moreover have "one_inbound\<lparr>sent := [(0, f)]\<rparr> \<noteq> one_inbound"
  proof
    assume "one_inbound\<lparr>sent := [(0, f)]\<rparr> = one_inbound"
    then have "sent (one_inbound\<lparr>sent := [(0, f)]\<rparr>) = sent one_inbound" by (rule arg_cong)
    then show False by (simp add: one_inbound(3))
  qed
  ultimately show ?thesis
    by (simp add: assms route_def handle_info_computation_def demo_node_defs demo_env_def demo_ops_def Let_def add_computation_def
        store_computation_def manager_computation_exists_def computation_exists_def
        broadcast_def build_inv_computation_def f)
qed

lemma no_comps: "map_of (st_comps (m_stores demo_manager)) [7] = None" "map_of (st_comps (m_stores with_block)) [7] = None"
  by (simp_all add: demo_manager_def with_block_def demo_stores_def)

theorem message_scope_witness:
  "\<exists>nd1. route (demo_ctx stored_message) InfoComputation [7] ''10.0.0.2:5000'' (demo_node demo_manager) = Inr ([], nd1)
    \<and> same_ledger demo_manager (n_manager nd1) \<and> st_pool (m_stores (n_manager nd1)) = empty_mempool"
proof -
  obtain nd1 where nd1: "route (demo_ctx stored_message) InfoComputation [7] ''10.0.0.2:5000'' (demo_node demo_manager) = Inr ([], nd1)" using demo_relay [OF no_comps(1)] by blast
  from message_scope [OF this] nd1 show ?thesis by (auto simp: demo_node_def demo_manager_def demo_stores_def)
qed

theorem listening_loses_nothing_witness:
  "\<exists>f answers rest nd'. frame InfoComputation [7] = Inr f
    \<and> listen (demo_ctx stored_message) 0 [take 5 f, drop 5 f] (demo_node with_block) = Inr (answers, rest, nd')
    \<and> manager_block_exists [6] (n_manager nd') \<and> n_synced nd'"
proof -
  obtain f where f: "frame InfoComputation [7] = Inr f" using frame_total [of "[7]"] by auto
  obtain nd1 where nd1: "route (demo_ctx stored_message) InfoComputation [7] (p_id (peer_heap (n_conn (demo_node with_block)) 0))
      (demo_node with_block) = Inr ([], nd1)"
    using demo_relay [OF no_comps(2)] by blast
  have "concat [take 5 f, drop 5 f] = f" and "InfoComputation \<in> set enumerators" by (simp_all add: enumerators_def)
  from listen_one [OF f this(2,1), of "demo_ctx stored_message" 0 "demo_node with_block"] nd1
  obtain rest where l: "listen (demo_ctx stored_message) 0 [take 5 f, drop 5 f] (demo_node with_block) = Inr ([], rest, nd1)"
    by auto
  have "manager_block_exists [6] (n_manager (demo_node with_block))" "n_synced (demo_node with_block)"
    by (simp_all add: demo_node_def with_block_def manager_block_exists_def block_exists_def demo_manager_def)
  from listening_loses_nothing [OF l this] f l show ?thesis by blast
qed

theorem relayed_once_witness:
  "\<exists>nd1. route (demo_ctx stored_message) InfoComputation [7] ''10.0.0.2:5000'' (demo_node demo_manager) = Inr ([], nd1)
    \<and> route (demo_ctx stored_message) InfoComputation [7] ''10.0.0.3:5000'' nd1 = Inr ([], nd1)"
proof -
  obtain nd1 where nd1: "route (demo_ctx stored_message) InfoComputation [7] ''10.0.0.2:5000'' (demo_node demo_manager) = Inr ([], nd1)"
      "n_conn nd1 \<noteq> n_conn (demo_node demo_manager)"
    using demo_relay [OF no_comps(1)] by (auto simp: demo_node_def)
  from relayed_once [OF nd1] nd1(1) show ?thesis by (auto simp: demo_node_def)
qed

theorem block_travels_witness:
  "\<exists>request answer cs' cs''. route (demo_ctx stored_message) InvBlock [6] ''10.0.0.2:5000'' (demo_node demo_manager) = Inr (request, demo_node demo_manager)
    \<and> listen (demo_ctx stored_message) 0 [request] (demo_node with_block) = Inr (answer, cs', demo_node with_block)
    \<and> listen (demo_ctx stored_message) 0 [answer] (demo_node demo_manager) = map_sum id (\<lambda>(resp, B'). (resp, cs'', B'))
        (handle_info_block (demo_ctx stored_message) stored_message (demo_node demo_manager))"
proof -
  let ?A = "demo_node with_block" and ?B = "demo_node demo_manager" and ?c = "demo_ctx stored_message"
  have "manager_block_exists [6] (n_manager ?A)" "\<not> manager_block_exists [6] (n_manager ?B)"
    by (simp_all add: demo_node_def with_block_def demo_manager_def demo_stores_def manager_block_exists_def block_exists_def)
  moreover have "block_message ?c [6] ?A = Inr (the (ib_block stored_message))"
    by (simp add: block_message_def demo_node_defs with_block_def demo_manager_def manager_get_block_def get_block_def stored_block_def
        block_to_proto_def header_to_proto_def demo_genesis_def demo_env_def demo_ops_def stored_message_def header_hash.simps(1))
  moreover have "hash_parse (demo_pb stored_message) GetBlock (hash_bytes (demo_pb stored_message) GetBlock [6]) = [6]"
      "hash_parse (demo_pb stored_message) InvBlock [6] = [6]"
      "infoblock_parse (demo_pb stored_message) (infoblock_bytes (demo_pb stored_message) stored_message) = stored_message"
      "length (hash_bytes (demo_pb stored_message) GetBlock [6]) < 2 ^ 31 - 8"
      "length (infoblock_bytes (demo_pb stored_message) stored_message) < 2 ^ 31 - 8"
    by (simp_all add: demo_pb_def demo_pb_of_def)
  moreover have "stored_message = \<lparr>ib_block = Some (the (ib_block stored_message)), ib_out_of_range = False\<rparr>"
    by (simp add: stored_message_def)
  ultimately have travels: "\<exists>request answer. route ?c InvBlock [6] ''10.0.0.2:5000'' ?B = Inr (request, ?B)
    \<and> (\<forall>cs. concat cs = request \<longrightarrow> (\<exists>cs'. concat cs' = [] \<and> listen ?c 0 cs ?A = Inr (answer, cs', ?A)))
    \<and> (\<forall>cs. concat cs = answer \<longrightarrow> (\<exists>cs'. concat cs' = [] \<and> listen ?c 0 cs ?B = map_sum id (\<lambda>(resp, B'). (resp, cs', B'))
         (if n_synced ?B then handle_info_block ?c stored_message ?B else handle_info_block_sync ?c stored_message ?B)))"
    by (intro block_travels [where b = "demo_pb stored_message" and h = "[6]"]) (simp_all add: demo_ctx_def)
  moreover have "n_synced ?B" by (simp add: demo_node_def)
  ultimately obtain request answer where r: "route ?c InvBlock [6] ''10.0.0.2:5000'' ?B = Inr (request, ?B)"
      "\<forall>cs. concat cs = request \<longrightarrow> (\<exists>cs'. concat cs' = [] \<and> listen ?c 0 cs ?A = Inr (answer, cs', ?A))"
      "\<forall>cs. concat cs = answer \<longrightarrow> (\<exists>cs'. concat cs' = [] \<and> listen ?c 0 cs ?B = map_sum id (\<lambda>(resp, B'). (resp, cs', B'))
         (handle_info_block ?c stored_message ?B))"
    by auto
  have "concat [request] = request" "concat [answer] = answer" by simp_all
  with r show ?thesis by blast
qed

lemma demo_started_any:
  assumes "env_gh env = zero_hash" and "env_cfg env = demo_cfg\<lparr>cfg_hash := replicate 32 0\<rparr>"
  shows "\<exists>m. new_manager env w = Inr m"
proof -
  let ?pk = "replicate 32 1 @ [0] :: bytes"
  obtain cb where cb: "CoinbaseTransaction ?pk 50 0 = Inr cb" "list_all wf_input (tx_inputs cb)"
      "list_all in_signed (tx_inputs cb)" "tx_id_cache cb = None"
      "tx_outputs cb = [\<lparr>out_amount = 50, out_public_key = take 32 ?pk, out_hash_cache = None\<rparr>]"
    using coinbase_made [of ?pk 50 0] by auto
  from TXID_value [OF cb(2-4), of zero_hash] obtain t where t: "TXID zero_hash cb = Inr (replicate 32 0, t)" "tx_outputs t = tx_outputs cb"
      "list_all in_signed (tx_inputs t)"
    using cb(3) by (auto simp: zero_hash_def list_all_iff filled_def)
  from TXID_memo [OF t(1,3)] have "txid_of zero_hash t = Inr (replicate 32 0)" by (simp add: txid_of_def)
  with t cb(1,5) show ?thesis
    by (simp add: assms demo_cfg_def new_manager_def new_chain_def create_genesis_def genesis_block_def new_block_def
        Block.root_of_def compute_root.simps BlockHeader_after_def block_hash_def header_hash.simps(1) header_serialize.simps
        serialize_proofs_def zero_hash_def add_block_def add_utxo_def UTXORecord_def sodium_sizes Let_def empty_chainstate_def)
qed

lemma demo_started: "\<exists>m. new_manager (nc_env (demo_ctx ib)) sample_wallet = Inr m"
  by (rule demo_started_any) (simp_all add: demo_ctx_def demo_env_def)

theorem genesis_request_crashes_witness:
  "\<exists>m. new_manager (nc_env (demo_ctx stored_message)) sample_wallet = Inr m
    \<and> route (demo_ctx stored_message) SyncBlock [] ''10.0.0.2:5000'' (demo_node m) = Inl (Undefined ''null previous header'')"
proof -
  obtain m where m: "new_manager (nc_env (demo_ctx stored_message)) sample_wallet = Inr m" using demo_started by blast
  then have "new_manager (nc_env (demo_ctx stored_message)) sample_wallet = Inr (n_manager (demo_node m))" by (simp add: demo_node_def)
  from genesis_request_crashes [OF this, of "[]" "''10.0.0.2:5000''"] m show ?thesis by (auto simp: demo_ctx_def demo_pb_def demo_pb_of_def)
qed

text \<open>A miner whose only computation adds the tenth of one ciphertext.\<close>

definition bad_computer :: "(byte, byte, bytes) fhe_computer result" where
  "bad_computer = FHEComputer_of (demo_computation ''9+0'' [3])"

definition miner_env :: "((byte, byte, bytes) fhe_computer, proto_computation) node_env" where
  "miner_env = \<lparr>env_ops = fhe_ops demo_lib zero_hash, env_gh = zero_hash, env_verify = (\<lambda>s m k. True), env_fl = (\<lambda>r. r),
     env_cfg = demo_cfg\<lparr>cfg_difficulty := 0\<rparr>, env_same_tx = (=)\<rparr>"

definition miner_genesis :: "(byte, byte, bytes) fhe_computer block_header" where
  "miner_genesis = BlockHeader None (replicate 32 0) 1 0 [] (Some (replicate 32 0)) []"

definition miner_manager :: "(byte, byte, bytes) fhe_computer \<Rightarrow> (byte, byte, bytes) fhe_computer manager" where
  "miner_manager c = \<lparr>main_chain = \<lparr>header_chain = [miner_genesis], total_difficulty = 0\<rparr>, forks = [],
     m_stores = \<lparr>st_chainstate = empty_chainstate, st_blocks = [], st_pool = empty_mempool, st_comps = [([1], c)]\<rparr>,
     m_wallet = sample_wallet, m_result = None\<rparr>"

lemma bad_computer: "\<exists>c. bad_computer = Inr c \<and> missing_operand c \<and> computation c = demo_computation ''9+0'' [3]"
proof -
  have "(case bad_computer of Inl _ \<Rightarrow> False | Inr c \<Rightarrow> missing_operand c)" by code_simp
  then show ?thesis by (auto simp: bad_computer_def FHEComputer_of_def map_sum_Inr_iff split: sum.splits)
qed

lemma miner_tries:
  assumes "missing_operand c" and "computation c = demo_computation ''9+0'' [3]"
  shows "\<exists>left_over. mine miner_env 7 (replicate 32 5) miner_genesis 1 0 50 [] [c] = Inr (None, left_over)"
proof -
  obtain cb where cb: "CoinbaseTransaction (replicate 32 5) 50 1 = Inr cb" "list_all wf_input (tx_inputs cb)"
      "list_all in_signed (tx_inputs cb)" "tx_id_cache cb = None"
    using coinbase_made [of "replicate 32 5" 50 1] by auto
  moreover obtain t where t: "TXID zero_hash cb = Inr (replicate 32 0, t)"
    using signed_TXID [OF cb(2-4), of zero_hash] by (auto simp: zero_hash_def)
  moreover obtain s where s: "computer_serialize demo_lib False c = Inr (s, c)"
    by (simp add: computer_serialize_def computation_serialize_def GetCryptoContext_def assms(2) demo_computation_def)
  let ?hdr = "BlockHeader (Some miner_genesis) (replicate 32 0) 7 0 [c] None []"
  have "new_block zero_hash 7 (Some miner_genesis) 0 [c] [cb] = Inr \<lparr>blk_header = ?hdr, blk_transactions = [t]\<rparr>"
    using t by (simp add: new_block_def Block.root_of_def compute_root.simps BlockHeader_after_def)
  moreover obtain ser where "header_serialize (fhe_ops demo_lib zero_hash) zero_hash False ?hdr = Inr (ser, ?hdr)"
    using s by (simp add: header_serialize.simps header_hash.simps(1) miner_genesis_def fhe_ops_def)
  moreover obtain c1 where c1: "bind_to_data demo_lib (ser @ uint64_to_vector_big_endian 0) c = Inr c1"
    by (simp add: bind_to_data_def bind_inputs_to_data_def GetCryptoContext_def assms(2) demo_computation_def demo_lib_def
        demo_backend_def Let_def)
  from missing_operand_bound [OF assms(1) c1] obtain cc where m: "missing_operand c1" "GetCryptoContext demo_lib (computation c1) = Inr cc"
    by blast
  from missing_operand_interrupts [OF m] have "generate_proof demo_lib c1 = Inl Out_of_range" .
  with c1 have "prove_computations (fhe_ops demo_lib zero_hash) ser 0 [c] = Inr (False, [c1])" by (simp add: fhe_ops_def)
  ultimately show ?thesis by (simp add: mine_def miner_env_def)
qed

theorem bad_computation_blocks_mining_witness:
  "\<forall>p d s. \<exists>c nd'. bad_computer = Inr c
    \<and> mining_round \<lparr>nc_env = miner_env, pb = p, dial = d, sign_det = s\<rparr> 7
        \<lparr>n_manager = miner_manager c, n_conn = one_inbound, n_synced = True, sync_peer = None\<rparr> = Inr (Some nd')
    \<and> blocked [1] (n_manager nd') \<and> get_mined_block (n_manager nd') = None"
proof (intro allI)
  fix p :: "proto_computation protobuf" and d s
  let ?ctx = "\<lparr>nc_env = miner_env, pb = p, dial = d, sign_det = s\<rparr>"
  obtain c where c: "bad_computer = Inr c" "missing_operand c" "computation c = demo_computation ''9+0'' [3]"
    using bad_computer by blast
  let ?m = "miner_manager c"
  let ?nd = "\<lparr>n_manager = ?m, n_conn = one_inbound, n_synced = True, sync_peer = None\<rparr>"
  obtain left_over where "mine miner_env 7 (replicate 32 5) miner_genesis 1 0 50 [] [c] = Inr (None, left_over)"
    using miner_tries [OF c(2,3)] by blast
  moreover have "current_height (main_chain ?m) = 0" "head_header (main_chain ?m) = Inr miner_genesis"
    by (simp_all add: current_height_def head_header_def miner_manager_def)
  moreover have "get_difficulty_for_height (env_fl miner_env) (env_cfg miner_env) (main_chain ?m) 1 = Inr 0"
      "reward_for_height (env_cfg miner_env) 1 = Inr 50"
      "get_top (cfg_tx_per_block (env_cfg miner_env)) (st_pool (m_stores ?m)) = Inr []"
    by (simp_all add: get_difficulty_for_height_def get_epoch_def reward_for_height_def get_top_def empty_mempool_def
        miner_env_def demo_cfg_def miner_manager_def)
  moreover have "collect_computations (co_difficulty (env_ops miner_env)) 0 (st_comps (m_stores ?m)) = [c]"
    by (simp add: collect_computations_def miner_manager_def)
  ultimately have "\<exists>m. start_mining miner_env 7 ?m = Inr m \<and> m_result m = None"
    by (simp add: start_mining_def Let_def miner_manager_def sample_wallet_def)
  then obtain m where m: "start_mining miner_env 7 ?m = Inr m" "m_result m = None" by blast
  moreover have "listening_port one_inbound = 5000"
    by (simp add: one_inbound_def accept_def make_peer_def add_to_inbound_def inbound_full_def size_is_def demo_conn_def)
  ultimately have round: "mining_round ?ctx 7 ?nd = Inr (Some (?nd\<lparr>n_manager := m\<rparr>))"
    by (simp add: mining_round_def get_mined_block_def)
  have "env_ops (nc_env ?ctx) = fhe_ops demo_lib zero_hash" "blocked [1] (n_manager ?nd)"
    using c(2) by (simp_all add: miner_env_def blocked_def miner_manager_def)
  from bad_computation_blocks_mining [OF this round] c(1) round
  show "\<exists>c nd'. bad_computer = Inr c
    \<and> mining_round ?ctx 7 \<lparr>n_manager = miner_manager c, n_conn = one_inbound, n_synced = True, sync_peer = None\<rparr> = Inr (Some nd')
    \<and> blocked [1] (n_manager nd') \<and> get_mined_block (n_manager nd') = None"
    by blast
qed

end
