(* ===== verification/NodeInvariant.thy ===== *)
theory NodeInvariant
  imports NodeProtocol
begin

text \<open>
  The states that a node can reach, from its construction on, by messages, requests, connections and
  rounds of mining, and what holds in all of them: the main chain and the forks are linked, and
  every block of theirs is in the store.
\<close>

subsection \<open>Linked headers\<close>

fun linked :: "'c block_header option \<Rightarrow> 'c block_header list \<Rightarrow> bool" where
  "linked p [] \<longleftrightarrow> True"
| "linked p (h # hs) \<longleftrightarrow> prev_block_header h = p \<and> linked (Some h) hs"

lemma linked_append:
  "linked p (xs @ ys) \<longleftrightarrow> linked p xs \<and> linked (if xs = [] then p else Some (last xs)) ys"
  by (induction xs arbitrary: p) auto

lemma linked_take: "linked p xs \<Longrightarrow> linked p (take n xs)"
  by (metis append_take_drop_id linked_append)

lemma linked_drop:
  assumes "linked p xs" and "n < length xs"
  shows "linked (Some (xs ! n)) (drop (Suc n) xs)"
proof -
  have "take (Suc n) xs = take n xs @ [xs ! n]" using assms(2) by (rule take_Suc_conv_app_nth)
  moreover from assms(1) have "linked p (take (Suc n) xs @ drop (Suc n) xs)" by simp
  then have "linked (if take (Suc n) xs = [] then p else Some (last (take (Suc n) xs))) (drop (Suc n) xs)"
    unfolding linked_append by blast
  ultimately show ?thesis by simp
qed

text \<open>Headers whose blocks are stored under their memoised hashes.\<close>

definition held :: "'c stores \<Rightarrow> 'c block_header list \<Rightarrow> bool" where
  "held st hs \<longleftrightarrow> (\<forall>h \<in> set hs. \<exists>k. hdr_hash_cache h = Some k \<and> k \<in> dom (map_of (st_blocks st)))"

lemma held_append: "held st (xs @ ys) \<longleftrightarrow> held st xs \<and> held st ys"
  by (auto simp: held_def)

lemma held_part: "held st xs \<Longrightarrow> held st (take n xs) \<and> held st (drop n xs)"
  by (auto simp: held_def dest: in_set_takeD in_set_dropD)

lemma held_kept: "held st xs \<Longrightarrow> keeps_blocks st st' \<Longrightarrow> held st' xs"
  unfolding held_def keeps_blocks_def by blast

definition younger :: "'c block_header list \<Rightarrow> bool" where
  "younger hs \<longleftrightarrow> sorted_wrt (\<lambda>a b. hdr_timestamp a <s hdr_timestamp b) hs"

lemma younger_snoc:
  assumes "younger hs" and "hs \<noteq> []" and "hdr_timestamp (last hs) <s hdr_timestamp new"
  shows "younger (hs @ [new])"
proof -
  have "hdr_timestamp x <s hdr_timestamp new" if "x \<in> set hs" for x
  proof (cases "x = last hs")
    case False
    have hs: "hs = butlast hs @ [last hs]" using assms(2) by simp
    with that False have "x \<in> set (butlast hs)" by (metis in_set_conv_decomp_last UnE set_append empty_iff set_ConsD list.set(1))
    with assms(1) hs have "hdr_timestamp x <s hdr_timestamp (last hs)"
      unfolding younger_def by (metis list.set_intros(1) sorted_wrt_append)
    with assms(3) show ?thesis by (simp add: word_sless_alt)
  qed (use assms(3) in simp)
  with assms(1) show ?thesis by (simp add: younger_def sorted_wrt_append)
qed

lemma younger_take: "younger hs \<Longrightarrow> younger (take n hs)"
  unfolding younger_def by (rule sorted_wrt_take)

subsection \<open>The chains of the manager\<close>

definition main_ok :: "'c chain \<Rightarrow> 'c stores \<Rightarrow> bool" where
  "main_ok ch st \<longleftrightarrow> header_chain ch \<noteq> [] \<and> linked None (header_chain ch) \<and> younger (header_chain ch) \<and> held st (header_chain ch)"

definition fork_ok :: "'c fork \<Rightarrow> 'c stores \<Rightarrow> bool" where
  "fork_ok fk st \<longleftrightarrow> linked (Some (chain_src_header fk)) (header_chain (f_chain fk)) \<and> held st (header_chain (f_chain fk))
     \<and> hdr_hash_cache (chain_src_header fk) \<noteq> None"

definition manager_ok :: "'c manager \<Rightarrow> bool" where
  "manager_ok m \<longleftrightarrow> main_ok (main_chain m) (m_stores m) \<and> (\<forall>fk \<in> set (forks m). fork_ok fk (m_stores m))"

lemma main_ok_kept: "main_ok ch st \<Longrightarrow> keeps_blocks st st' \<Longrightarrow> main_ok ch st'"
  by (auto simp: main_ok_def intro: held_kept)

lemma fork_ok_kept: "fork_ok fk st \<Longrightarrow> keeps_blocks st st' \<Longrightarrow> fork_ok fk st'"
  by (auto simp: fork_ok_def intro: held_kept)

lemma main_ok_take: "main_ok ch st \<Longrightarrow> main_ok (ch\<lparr>header_chain := take (Suc n) (header_chain ch)\<rparr>) st"
  by (auto simp: main_ok_def linked_take younger_take dest: held_part)

text \<open>Appending: the head is already hashed, so the new header is put on top of the unchanged list.\<close>

lemma append_block_ok:
  assumes "main_ok ch st" and "append_block env b v ch st = Inr (ok, ch', st')"
  shows "main_ok ch' st' \<and> keeps_blocks st st'"
proof (cases ok)
  case True
  let ?hs = "header_chain ch"
  from assms(2) True have "append_block env b v ch st = Inr (True, ch', st')" by simp
  from append_block_accepted [OF this] obtain h head b1 where
    hash: "header_hash (env_ops env) (env_gh env) False (last ?hs) = Inr (h, head)"
    and time: "\<not> hdr_timestamp (blk_header b1) \<le>s hdr_timestamp head"
    and acc: "accept_block env b1 head ch st = Inr (ch', st')"
    by blast
  from assms(1) obtain k where k: "hdr_hash_cache (last ?hs) = Some k"
    using last_in_set [of ?hs] unfolding main_ok_def held_def by blast
  with hash have head: "head = last ?hs" by (simp add: cached_hash)
  from accept_block_spec [OF acc] k head obtain j new where new: "header_chain ch' = butlast ?hs @ [last ?hs, new]"
      "prev_block_header new = Some (last ?hs)" "hdr_timestamp new = hdr_timestamp (blk_header b1)"
      "hdr_hash_cache new = Some j" "map_of (st_blocks st') j \<noteq> None"
    by auto
  have ne: "?hs \<noteq> []" using assms(1) by (simp add: main_ok_def)
  with new(1) have hs': "header_chain ch' = ?hs @ [new]" by (metis append.assoc append_Cons append_Nil append_butlast_last_id)
  have keeps: "keeps_blocks st st'" using append_block_stores [OF assms(2)] by blast
  moreover have "hdr_timestamp (last ?hs) <s hdr_timestamp new"
    using time new(3) head by (simp add: word_sless_alt word_sle_eq)
  ultimately show ?thesis
    using assms(1) new(2,4,5) ne
    by (auto simp: main_ok_def hs' linked_append held_append younger_snoc dest: held_kept) (auto simp: held_def)
next
  case False
  with assms append_block_rejected [of env b v ch st ch' st'] show ?thesis by (simp add: keeps_blocks_refl)
qed

lemma replay_ok:
  "replay env hs idx ch st = Inr (ok, idx', ch', st') \<Longrightarrow> main_ok ch st \<Longrightarrow> main_ok ch' st' \<and> keeps_blocks st st'"
proof (induction hs arbitrary: idx ch st)
  case (Cons h hs)
  from Cons.prems obtain block added ch1 st1 where a: "append_block env block False ch st = Inr (added, ch1, st1)"
      and r: "if added then replay env hs (idx + 1) ch1 st1 = Inr (ok, idx', ch', st')
        else (ok, idx', ch', st') = (False, idx, ch1, st1)"
    by (auto split: sum.splits if_splits)
  from append_block_ok [OF Cons.prems(2) a] r Cons.IH [of "idx + 1" ch1 st1] show ?case
    by (auto intro: keeps_blocks_trans split: if_splits)
qed (simp add: keeps_blocks_refl)

lemma fork_append_ok:
  assumes "fork_ok fk st" and "fork_append_block env b fk st = Inr (ok, fk', st')"
  shows "fork_ok fk' st' \<and> keeps_blocks st st'"
proof (cases ok)
  case True
  let ?hs = "header_chain (f_chain fk)" and ?head = "if header_chain (f_chain fk) = [] then chain_src_header fk else last (header_chain (f_chain fk))"
  have known: "hdr_hash_cache ?head \<noteq> None" using assms(1) by (auto simp: fork_ok_def held_def)
  from assms(2) True obtain header k b2 where
    k: "block_hash (env_ops env) (env_gh env) False (b\<lparr>blk_header := with_prev ?head header\<rparr>) = Inr (k, b2)"
    and r: "header_chain (f_chain fk') = ?hs @ [blk_header b2]" "chain_src_header fk' = chain_src_header fk"
      "st' = st\<lparr>st_blocks := snd (store_block k b2 (st_blocks st))\<rparr>"
    by (auto simp: fork_append_block_def Let_def split: sum.splits if_splits)
  from k have h: "header_hash (env_ops env) (env_gh env) False (with_prev ?head header) = Inr (k, blk_header b2)"
    by (auto simp: block_hash_def map_sum_Inr_iff)
  have "prev_known (with_prev ?head header)" using known by (simp add: prev_known_def with_prev_fields)
  from header_hash_keeps [OF this h] have "prev_block_header (blk_header b2) = Some ?head" "hdr_hash_cache (blk_header b2) = Some k"
    by (simp_all add: with_prev_fields)
  moreover have "k \<in> dom (map_of (st_blocks st'))" using store_block_stores [of k b2 "st_blocks st"] r(3) by simp
  moreover have keeps: "keeps_blocks st st'" using fork_append_stores [OF assms(2)] by blast
  ultimately show ?thesis
    using assms(1) held_kept [OF _ keeps, of ?hs] unfolding fork_ok_def r(1,2) linked_append held_append by (auto simp: held_def)
next
  case False
  with assms show ?thesis
    by (auto simp: fork_append_block_def Let_def keeps_blocks_refl split: sum.splits if_splits)
qed

text \<open>A switch: the old blocks above the fork point become a fork, or come back.\<close>

lemma reorg_ok:
  assumes "manager_ok m" and "reorg env fi m = Inr m'" and "fi < length (forks m)"
  shows "manager_ok m'"
proof -
  let ?fk = "forks m ! fi" and ?hs = "header_chain (main_chain m)"
  let ?src = "unat (chain_src ?fk)"
  have ok: "main_ok (main_chain m) (m_stores m)" "fork_ok ?fk (m_stores m)" "\<And>f. f \<in> set (forks m) \<Longrightarrow> fork_ok f (m_stores m)"
    using assms(1,3) by (simp_all add: manager_ok_def)
  from assms(2) obtain st1 r idx ch2 st2 where src: "?src < length ?hs"
    and w1: "rewind_headers env (drop (?src + 1) ?hs) (m_stores m) = Inr st1"
    and r1: "replay env (header_chain (f_chain ?fk)) 0 ((main_chain m)\<lparr>header_chain := take (?src + 1) ?hs\<rparr>) st1 = Inr (r, idx, ch2, st2)"
    by (auto simp: reorg_def Let_def not_le split: if_splits sum.splits prod.splits)
  note k1 = rewind_keeps [OF w1]
  from replay_ok [OF r1] main_ok_take [OF main_ok_kept [OF ok(1) k1], of ?src]
  have 2: "main_ok ch2 st2" "keeps_blocks (m_stores m) st2" using keeps_blocks_trans [OF k1] by auto
  show ?thesis
  proof (cases r)
    case True
    with assms(2) src w1 r1 obtain old where m': "main_chain m' = ch2\<lparr>total_difficulty := total_difficulty (f_chain ?fk)\<rparr>"
        "m_stores m' = st2" "forks m' = take fi (forks m) @ drop (fi + 1) (forks m) @ [old]"
        "chain_src_header old = ?hs ! ?src" "header_chain (f_chain old) = drop (?src + 1) ?hs"
      by (auto simp: reorg_def Let_def map_sum_Inr_iff Fork_def)
    have "fork_ok old (m_stores m)"
      using ok(1) src linked_drop [of None ?hs ?src] held_part [of "m_stores m" ?hs "?src + 1"]
      by (auto simp: fork_ok_def m'(4,5) main_ok_def held_def)
    then have "fork_ok f (m_stores m)" if "f \<in> set (forks m')" for f
      using that ok(3) by (auto simp: m'(3) dest: in_set_takeD in_set_dropD)
    with 2 show ?thesis by (auto simp: manager_ok_def m'(1,2) main_ok_def intro: fork_ok_kept)
  next
    case False
    with assms(2) src w1 r1 obtain st3 n ch4 st4 fk' where
      w3: "rewind_headers env (drop (?src + 1) (header_chain ch2)) st2 = Inr st3"
      and r3: "replay env (drop (?src + 1) ?hs) 0 (ch2\<lparr>header_chain := take (?src + 1) (header_chain ch2)\<rparr>) st3 = Inr (True, n, ch4, st4)"
      and m': "main_chain m' = ch4\<lparr>total_difficulty := total_difficulty (main_chain m)\<rparr>"
        "m_stores m' = st4" "forks m' = (forks m)[fi := fk']" "chain_src_header fk' = chain_src_header ?fk"
        "header_chain (f_chain fk') = take idx (header_chain (f_chain ?fk))"
      by (auto simp: reorg_def Let_def map_sum_Inr_iff Fork_def split: if_splits sum.splits bool.splits prod.splits)
    note k3 = rewind_keeps [OF w3]
    from replay_ok [OF r3] main_ok_take [OF main_ok_kept [OF 2(1) k3], of ?src]
    have 4: "main_ok ch4 st4" "keeps_blocks (m_stores m) st4"
      using keeps_blocks_trans [OF 2(2) k3] by (auto intro: keeps_blocks_trans)
    have "fork_ok fk' (m_stores m)" using ok(2) held_part by (auto simp: fork_ok_def m'(4,5) linked_take)
    then have "fork_ok f (m_stores m)" if "f \<in> set (forks m')" for f
      using that ok(3) by (auto simp: m'(3) dest: set_update_subset_insert [THEN subsetD])
    with 4 show ?thesis by (auto simp: manager_ok_def m'(1,2) main_ok_def intro: fork_ok_kept)
  qed
qed

text \<open>
  A fork that has lost its attachment block: after another fork has become the main chain, an attachment
  index above that switch points at a block of another branch.  Nothing looks after such forks
  (a switch leaves them as they are), and switching to one throws when the main chain has
  already been cut.
\<close>

theorem stranded_fork_fails:
  assumes "header_chain (f_chain (forks m ! fi)) = h # rest" and "hdr_hash_cache h = Some k"
    and "get_block k (st_blocks (m_stores m)) = Inr b" and "prev_hash (env_ops env) (env_gh env) (blk_header b) = Inr (p, hdr0)"
    and "hdr_hash_cache (header_chain (main_chain m) ! unat (chain_src (forks m ! fi))) = Some q" and "p \<noteq> q"
  shows "\<exists>e. reorg env fi m = Inl e"
proof (cases "unat (chain_src (forks m ! fi)) < length (header_chain (main_chain m))")
  case True
  let ?src = "unat (chain_src (forks m ! fi))" and ?hs = "header_chain (main_chain m)"
  let ?ch = "(main_chain m)\<lparr>header_chain := take (?src + 1) ?hs\<rparr>"
  have "replay env (h # rest) 0 ?ch st1 = Inl (Invalid_argument ''Cannot attach block to chain'')"
    if "rewind_headers env (drop (?src + 1) ?hs) (m_stores m) = Inr st1" for st1
  proof -
    have "st_blocks st1 = st_blocks (m_stores m)" using that by (rule rewind_blocks)
    moreover have "last (take (?src + 1) ?hs) = ?hs ! ?src" "take (?src + 1) ?hs \<noteq> []"
      using True by (auto simp: take_Suc_conv_app_nth)
    ultimately show ?thesis
      using assms(2-6) by (simp add: append_block_def cached_hash Let_def)
  qed
  with True assms(1) show ?thesis
    by (cases "rewind_headers env (drop (?src + 1) ?hs) (m_stores m)") (simp_all add: reorg_def Let_def)
next
  case False
  then show ?thesis by (simp add: reorg_def Let_def)
qed

text \<open>A new block of the network or of the miner.\<close>

lemma find_attachment_known:
  "find_attachment env b i d hs = Inr (Some (j, h, d')) \<Longrightarrow> h \<in> set hs"
proof (induction hs arbitrary: i d)
  case (Cons x hs)
  from Cons.prems Cons.IH [of "i + 1" "d + ucast (hdr_difficulty x)"] show ?case
    by (auto simp: Let_def split: sum.splits if_splits)
qed simp

lemma add_to_main_ok:
  assumes "manager_ok m" and "add_to_main env b v m = Inr (ok, m')"
  shows "manager_ok m'"
proof -
  from assms(2) obtain added ch st where a: "append_block env b v (main_chain m) (m_stores m) = Inr (added, ch, st)"
      "main_chain m' = ch" "m_stores m' = st" "forks m' = forks m"
    by (auto simp: add_to_main_def Let_def split: sum.splits if_splits)
  have "main_ok (main_chain m) (m_stores m)" using assms(1) by (simp add: manager_ok_def)
  from append_block_ok [OF this a(1)] a(2-4) assms(1) show ?thesis by (auto simp: manager_ok_def intro: fork_ok_kept)
qed

lemma with_fork_ok:
  assumes "manager_ok m" and "fork_append_block env b fk (m_stores m) = Inr (ok, fk', st)" and "fork_ok fk (m_stores m)"
  shows "manager_ok (m\<lparr>forks := (forks m)[fi := fk'], m_stores := st\<rparr>) \<and> manager_ok (m\<lparr>forks := forks m @ [fk'], m_stores := st\<rparr>)
    \<and> manager_ok (m\<lparr>m_stores := st\<rparr>)"
  using fork_append_ok [OF assms(3,2)] assms(1)
  by (auto simp: manager_ok_def intro: main_ok_kept fork_ok_kept dest: set_update_subset_insert [THEN subsetD])

lemma manager_add_block_ok:
  assumes "manager_ok m" and "manager_add_block env b v m = Inr (ok, m')"
  shows "manager_ok m'"
proof -
  consider v' where "add_to_main env b v' m = Inr (ok, m')"
    | fi where "\<not> v" "can_attach env (main_chain m) (blk_header b) = Inr False" "find_fork env b 0 (forks m) = Inr (Some fi)"
    | "\<not> v" "can_attach env (main_chain m) (blk_header b) = Inr False" "find_fork env b 0 (forks m) = Inr None"
    using assms(2) by (auto simp: manager_add_block_def split: if_splits sum.splits bool.splits option.splits)
  then show ?thesis
  proof cases
    case (2 fi)
    let ?m = "\<lambda>fk' st. m\<lparr>forks := (forks m)[fi := fk'], m_stores := st\<rparr>"
    from 2 assms(2) obtain fk' st where f: "fork_append_block env b (forks m ! fi) (m_stores m) = Inr (ok, fk', st)"
        "m' = ?m fk' st \<or> reorg env fi (?m fk' st) = Inr m'"
      by (auto simp: manager_add_block_def Let_def map_sum_Inr_iff split: sum.splits if_splits)
    have fi: "fi < length (forks m)" using find_fork_bound [OF 2(3)] by simp
    then have "manager_ok (?m fk' st)" using with_fork_ok [OF assms(1) f(1), of fi] assms(1) by (simp add: manager_ok_def)
    with f(2) reorg_ok [of "?m fk' st" env fi m'] fi show ?thesis by auto
  next
    case 3
    from 3 assms(2) consider "m' = m"
      | i h d fk' st where "find_attachment env b 0 0 (header_chain (main_chain m)) = Inr (Some (i, h, d))"
          "fork_append_block env b (Fork i h d) (m_stores m) = Inr (ok, fk', st)"
          "m' = m\<lparr>m_stores := st\<rparr> \<or> m' = m\<lparr>forks := forks m @ [fk'], m_stores := st\<rparr>"
      by (auto simp: manager_add_block_def split: sum.splits if_splits option.splits)
    then show ?thesis
    proof cases
      case (2 i h d fk' st)
      have "fork_ok (Fork i h d) (m_stores m)"
        using find_attachment_known [OF 2(1)] assms(1) by (auto simp: fork_ok_def Fork_def held_def manager_ok_def main_ok_def)
      with with_fork_ok [OF assms(1) 2(2)] 2(3) show ?thesis by auto
    qed (use assms(1) in simp)
  qed (rule add_to_main_ok [OF assms(1)])
qed

lemma held_block: "held (m_stores m) hs \<Longrightarrow> h \<in> set hs \<Longrightarrow> \<exists>k b. hdr_hash_cache h = Some k \<and> manager_get_block k m = Inr b"
  by (fastforce simp: held_def manager_get_block_def get_block_def)

subsection \<open>Nodes\<close>

lemma manager_ok_cong:
  assumes "main_chain m' = main_chain m" and "forks m' = forks m" and "st_blocks (m_stores m') = st_blocks (m_stores m)"
  shows "manager_ok m' \<longleftrightarrow> manager_ok m"
  using assms by (simp add: manager_ok_def main_ok_def fork_ok_def held_def)

lemma same_ledger_ok: "same_ledger m m' \<Longrightarrow> manager_ok m' \<longleftrightarrow> manager_ok m"
  by (rule manager_ok_cong) (simp_all add: same_ledger_def)

text \<open>What one step of a node does to its manager: nothing that matters here, or a block is added.\<close>

definition node_keeps :: "'c node \<Rightarrow> 'c node \<Rightarrow> bool" where
  "node_keeps nd nd' \<longleftrightarrow> (manager_ok (n_manager nd) \<longrightarrow> manager_ok (n_manager nd'))"

lemma keeps_conn: "same_but_conn nd nd' \<Longrightarrow> node_keeps nd nd'"
  by (simp add: node_keeps_def same_but_conn_def)

lemma keeps_trans: "node_keeps nd nd1 \<Longrightarrow> node_keeps nd1 nd2 \<Longrightarrow> node_keeps nd nd2"
  by (simp add: node_keeps_def)

lemma route_keeps:
  assumes "route ctx mt data peerID nd = Inr (resp, nd')"
  shows "node_keeps nd nd'"
  using assms
proof (cases rule: route_cases)
  case same
  then show ?thesis by (rule keeps_conn)
next
  case tx
  from info_tx_pool [OF tx(2)] same_ledger_ok [of "n_manager nd" "n_manager nd'"] show ?thesis by (simp add: node_keeps_def)
next
  case comp
  from info_computation_comps [OF comp(2)] same_ledger_ok [of "n_manager nd" "n_manager nd'"] show ?thesis by (simp add: node_keeps_def)
next
  case blk
  from info_block_manager [OF blk(2)] show ?thesis by (auto simp: node_keeps_def dest: manager_add_block_ok)
qed

interpretation ledger_router: message_handler
    "\<lambda>mt data nd. route ctx mt data (p_id (peer_heap (n_conn nd) p)) nd" node_keeps
  for ctx :: "('c, 'p) node_ctx" and p :: nat
  by unfold_locales (simp add: node_keeps_def, erule keeps_trans, assumption, erule route_keeps)

text \<open>What a peer that is sent to and a list of addresses keep, contacting the bootstrap peers keeps.\<close>

lemma bootstrap_related:
  assumes "bootstrap_peers ctx msg eps nd = Inr nd'"
    and refl: "\<And>nd. rel nd nd" and trans: "\<And>nd nd1 nd2. rel nd nd1 \<Longrightarrow> rel nd1 nd2 \<Longrightarrow> rel nd nd2"
    and sent: "\<And>address port nd r cm. send_to_peer (dial ctx) address port msg True (n_conn nd) = (r, cm) \<Longrightarrow> rel nd (nd\<lparr>n_conn := cm\<rparr>)"
    and heard: "\<And>resp nd r nd1. route ctx Addr resp [] nd = Inr (r, nd1) \<Longrightarrow> rel nd nd1"
  shows "rel nd nd'"
  using assms(1)
proof (induction eps arbitrary: nd)
  case (Cons ep eps)
  obtain address port where ep: "ep = (address, port)" by fastforce
  obtain r cm where s: "send_to_peer (dial ctx) address port msg True (n_conn nd) = (r, cm)" by fastforce
  let ?nd1 = "nd\<lparr>n_conn := cm\<rparr>"
  from Cons.prems s ep consider "bootstrap_peers ctx msg eps ?nd1 = Inr nd'"
    | resp resp' nd2 where "route ctx Addr resp [] ?nd1 = Inr (resp', nd2)" "bootstrap_peers ctx msg eps nd2 = Inr nd'"
    by (cases r) (auto simp: Let_def split: sum.splits if_splits)
  then have "rel ?nd1 nd'" by cases (blast intro: Cons.IH trans heard)+
  with sent [OF s] show ?case by (rule trans)
qed (simp add: refl)

lemma bootstrap_same: "bootstrap_peers ctx msg eps nd = Inr nd' \<Longrightarrow> same_but_conn nd nd'"
proof (erule bootstrap_related)
  show "route ctx Addr resp [] nd = Inr (r, nd1) \<Longrightarrow> same_but_conn nd nd1" for resp nd r nd1
    by (auto simp: route_def map_sum_Inr_iff dest: addresses_conn)
qed (simp_all add: same_but_conn_def)

lemma new_manager_ok:
  assumes "new_manager env w = Inr m"
  shows "manager_ok m"
proof -
  from genesis_stored [OF assms] obtain h g b where "header_chain (main_chain m) = [g]" "hdr_hash_cache g = Some h"
    "manager_get_block h m = Inr b" "prev_block_header g = None" "forks m = []" by metis
  then show ?thesis
    by (auto simp: manager_ok_def main_ok_def younger_def held_def manager_get_block_def get_block_def split: option.splits)
qed

lemma make_node_ok:
  assumes "make_node ctx config secrets keypair = Inr nd"
  shows "manager_ok (n_manager nd)"
proof -
  from assms obtain w m cm where m: "new_manager (nc_env ctx) w = Inr m"
      "bootstrap_from_config ctx config \<lparr>n_manager = m, n_conn = cm, n_synced = False, sync_peer = None\<rparr> = Inr nd"
    by (auto simp: make_node_def split: sum.splits if_splits)
  from m(2) obtain msg eps where "bootstrap_peers ctx msg eps \<lparr>n_manager = m, n_conn = cm, n_synced = False, sync_peer = None\<rparr> = Inr nd"
    by (auto simp: bootstrap_from_config_def split: sum.splits)
  from bootstrap_same [OF this] new_manager_ok [OF m(1)] show ?thesis by (simp add: same_but_conn_def)
qed

lemma start_mining_keeps:
  assumes "start_mining env now m = Inr m'"
  shows "manager_ok m' \<longleftrightarrow> manager_ok m"
  using assms by (intro manager_ok_cong) (auto simp: start_mining_def Let_def map_sum_Inr_iff split: sum.splits if_splits)

lemma mining_keeps:
  assumes "mining_round ctx now nd = Inr (Some nd')"
  shows "node_keeps nd nd'"
proof -
  from assms obtain m where m: "start_mining (nc_env ctx) now (n_manager nd) = Inr m"
      "nd' = nd\<lparr>n_manager := m\<rparr> \<or> (\<exists>b nd2. handle_add_valid_block ctx b (nd\<lparr>n_manager := m\<rparr>) = Inr nd2 \<and> handle_mined_block ctx b nd2 = Inr nd')"
    by (auto simp: mining_round_def Let_def map_sum_Inr_iff split: if_splits sum.splits option.splits)
  have "node_keeps (nd\<lparr>n_manager := m\<rparr>) nd'"
  proof (cases "nd' = nd\<lparr>n_manager := m\<rparr>")
    case False
    with m(2) obtain b nd2 where b: "handle_add_valid_block ctx b (nd\<lparr>n_manager := m\<rparr>) = Inr nd2" "handle_mined_block ctx b nd2 = Inr nd'"
      by blast
    from b(1) have "node_keeps (nd\<lparr>n_manager := m\<rparr>) nd2"
      by (auto simp: handle_add_valid_block_def map_sum_Inr_iff node_keeps_def dest: manager_add_block_ok)
    moreover from b(2) have "node_keeps nd2 nd'"
      by (auto simp: handle_mined_block_def intro: keeps_conn dest: broadcast_conn split: sum.splits)
    ultimately show ?thesis by (rule keeps_trans)
  qed (simp add: node_keeps_def)
  with start_mining_keeps [OF m(1)] show ?thesis by (simp add: node_keeps_def)
qed

lemma rpc_keeps:
  assumes "rpc_route lib ctx msg nd = Inr (resp, nd')"
  shows "node_keeps nd nd'"
proof -
  have same: "node_keeps nd nd'" if "same_but_conn (nd\<lparr>n_manager := m\<rparr>) nd'" "manager_ok m \<longleftrightarrow> manager_ok (n_manager nd)" for m
    using that by (simp add: node_keeps_def same_but_conn_def)
  from assms consider "nd' = nd" | "rpc_handle_say_hello ctx nd = Inr nd'"
    | "rpc_handle_transaction ctx msg Null nd = Inr (resp, nd')" | "rpc_handle_computation lib ctx msg Null nd = Inr (resp, nd')"
    by (auto simp: rpc_route_def map_sum_Inr_iff split: sum.splits rpc_type.splits)
  then show ?thesis
  proof cases
    case 3
    from 3 consider "nd' = nd" | t w ok m msg' where "add_tx (nc_env ctx) t (set_wallet w (n_manager nd)) = Inr (ok, m)"
        "broadcast msg' (nd\<lparr>n_manager := m\<rparr>) = Inr nd'"
      by (auto simp: rpc_handle_transaction_def map_sum_Inr_iff split: sum.splits if_splits cxx_error.splits)
    then show ?thesis
    proof cases
      case (2 t w ok m msg')
      from add_tx_pool [OF 2(1)] have "manager_ok m \<longleftrightarrow> manager_ok (n_manager nd)"
        by (intro manager_ok_cong) (simp_all add: same_ledger_def set_wallet_def)
      with same [OF broadcast_conn [OF 2(2)]] show ?thesis .
    qed (simp add: node_keeps_def)
  next
    case 4
    from 4 consider "nd' = nd" | c ok m msg' where "add_computation (nc_env ctx) c (n_manager nd) = (ok, m)"
        "broadcast msg' (nd\<lparr>n_manager := m\<rparr>) = Inr nd'"
      by (auto simp: rpc_handle_computation_def Let_def map_sum_Inr_iff split: sum.splits if_splits prod.splits)
    then show ?thesis
    proof cases
      case (2 c ok m msg')
      from add_computation_comps [OF 2(1)] have "manager_ok m \<longleftrightarrow> manager_ok (n_manager nd)" by (simp add: same_ledger_ok)
      with same [OF broadcast_conn [OF 2(2)]] show ?thesis .
    qed (simp add: node_keeps_def)
  qed (auto simp: node_keeps_def rpc_handle_say_hello_def same_but_conn_def dest!: broadcast_conn)
qed

subsection \<open>Reachable nodes\<close>

text \<open>
  The life of a node, as far as no handler fails: it is constructed, asks a peer for blocks, accepts and
  loses connections, hears messages in whatever pieces, serves requests and mines.
\<close>

inductive reachable_node ::
  "('cc, 'ct, 'pk, 'ps, 'vars, 'f, 'arg) fhe_lib \<Rightarrow> (('ct, 'pk, 'ps) fhe_computer, 'p) node_ctx \<Rightarrow>
     ('ct, 'pk, 'ps) fhe_computer node \<Rightarrow> bool"
  for lib :: "('cc, 'ct, 'pk, 'ps, 'vars, 'f, 'arg) fhe_lib" and ctx :: "(('ct, 'pk, 'ps) fhe_computer, 'p) node_ctx"
where
  constructed: "make_node ctx config secrets keypair = Inr nd \<Longrightarrow> reachable_node lib ctx nd"
| synchronises: "reachable_node lib ctx nd \<Longrightarrow> start_sync ctx nd = Inr nd' \<Longrightarrow> reachable_node lib ctx nd'"
| accepts: "reachable_node lib ctx nd \<Longrightarrow> reachable_node lib ctx (nd\<lparr>n_conn := snd (accept s (n_conn nd))\<rparr>)"
| loses: "reachable_node lib ctx nd \<Longrightarrow> reachable_node lib ctx (nd\<lparr>n_conn := listen_failed p (n_conn nd)\<rparr>)"
| hears: "reachable_node lib ctx nd \<Longrightarrow> listen ctx p chunks nd = Inr (answers, rest, nd') \<Longrightarrow> reachable_node lib ctx nd'"
| serves: "reachable_node lib ctx nd \<Longrightarrow> rpc_route lib ctx msg nd = Inr (resp, nd') \<Longrightarrow> reachable_node lib ctx nd'"
| mines: "reachable_node lib ctx nd \<Longrightarrow> mining_round ctx now nd = Inr (Some nd') \<Longrightarrow> reachable_node lib ctx nd'"

lemma reachable_node_ok: "reachable_node lib ctx nd \<Longrightarrow> manager_ok (n_manager nd)"
proof (induction rule: reachable_node.induct)
  case (constructed config secrets keypair nd)
  then show ?case by (rule make_node_ok)
next
  case (synchronises nd nd')
  then show ?case
    by (auto simp: start_sync_def set_synced_def same_but_conn_def dest!: send_sync_peer_conn split: sum.splits if_splits)
next
  case (hears nd p chunks answers rest nd')
  from ledger_router.listen_related [OF hears(2) [unfolded listen_def]] hears(3) show ?case by (simp add: node_keeps_def)
next
  case (serves nd msg resp nd')
  with rpc_keeps [OF serves(2)] show ?case by (simp add: node_keeps_def)
next
  case (mines nd now nd')
  with mining_keeps [OF mines(2)] show ?case by (simp add: node_keeps_def)
qed simp_all


text \<open>A node without bootstrap peers, that has accepted one connection.\<close>

definition node_config :: json where
  "node_config = Object [(''net'', Object [(''outbound_peers_limit'', Number 8), (''inbound_peers_limit'', Number 8),
     (''port'', Number 5001), (''address'', String ''127.0.0.1''), (''rpc_address'', String ''127.0.0.1''), (''rpc_port'', Number 6000),
     (''bootstrap'', Array [])])]"

definition miner_ctx :: "((byte, byte, bytes) fhe_computer, proto_computation) node_ctx" where
  "miner_ctx = \<lparr>nc_env = miner_env\<lparr>env_cfg := demo_cfg\<lparr>cfg_hash := replicate 32 0\<rparr>\<rparr>,
     pb = demo_pb_of pc_public_key (\<lambda>_. \<lparr>pc_expression = ''0'', pc_public_key = [9], pc_evalmult_key = [], pc_timestamp = 0,
       pc_ciphertexts = [], pc_proof = [], pc_output = []\<rparr>) \<lparr>ib_block = None, ib_out_of_range = True\<rparr>,
     dial = (\<lambda>_ _. Inl (Runtime_error ''refused'')), sign_det = (\<lambda>_ _. [])\<rparr>"

lemma demo_connections:
  "ConnectionManager node_config =
     Inr \<lparr>peer_heap = (\<lambda>_. new_peer ([], 0) []), next_peer = 0, inbound_peer_map = [], outbound_peer_map = [],
       outbound_peers_lim = 8, inbound_peers_lim = 8, listening_address = ''127.0.0.1'', listening_port = 5001, sent = []\<rparr>"
  by (simp add: node_config_def ConnectionManager_def json_entry_def json_index_def get_int_def get_number_def get_string_def Let_def)

lemma demo_node_made: "\<exists>nd. make_node miner_ctx node_config (Inr Null) ([], []) = Inr nd"
proof -
  obtain cm where "ConnectionManager node_config = Inr cm" "listening_port cm = 5001" using demo_connections by simp
  moreover have "RPCServer node_config = Inr (''127.0.0.1'', 6000)"
    "bootstrap_addr_from_json node_config = Inr []"
    by (simp_all add: node_config_def RPCServer_def bootstrap_addr_from_json_def json_entry_def json_index_def
        get_int_def get_number_def get_string_def json_elements_def Let_def)
  moreover obtain m where "new_manager (nc_env miner_ctx) (Wallet_generated ([], [])) = Inr m"
    using demo_started_any [of "nc_env miner_ctx"] by (auto simp: miner_ctx_def miner_env_def)
  moreover obtain f where "build_getaddr (pb miner_ctx) cm = Inr f"
    using frame_total [of "[1]"] by (auto simp: build_getaddr_def miner_ctx_def demo_pb_of_def)
  ultimately show ?thesis by (simp add: make_node_def bootstrap_from_config_def)
qed


end
