(* ===== verification/NodeConn.thy ===== *)
theory NodeConn
  imports NodeInvariant
begin

text \<open>
  The connections of a node: every step of the node keeps the invariant of its connection manager, so
  what is proved there of accepting, dialling and sending holds in every state that the node reaches.
\<close>

subsection \<open>Steps of the connection manager\<close>

text \<open>No step changes a limit, forgets a peer that was made, or breaks the maps.\<close>

definition conn_step :: "conn_mngr \<Rightarrow> conn_mngr \<Rightarrow> bool" where
  "conn_step cm cm' \<longleftrightarrow> inbound_peers_lim cm' = inbound_peers_lim cm \<and> outbound_peers_lim cm' = outbound_peers_lim cm
     \<and> next_peer cm \<le> next_peer cm' \<and> (conn_ok cm \<longrightarrow> conn_ok cm')"

lemma conn_step_refl [simp]: "conn_step cm cm"
  by (simp add: conn_step_def)

lemma conn_step_trans: "conn_step cm cm1 \<Longrightarrow> conn_step cm1 cm2 \<Longrightarrow> conn_step cm cm2"
  by (simp add: conn_step_def)

lemma async_send_step: "async_send p data cm = Inr cm' \<Longrightarrow> conn_step cm cm'"
  by (auto simp: async_send_def conn_step_def intro: conn_ok_send_bytes split: option.splits) (simp_all add: send_bytes_def)

lemma broadcast_step: "async_broadcast data cm = Inr cm' \<Longrightarrow> conn_step cm cm'"
  unfolding async_broadcast_def
  by (erule fold_res_invariant) (auto intro: conn_step_trans dest: async_send_step)

lemma update_step: "update_inb_peer_addr_info peerID addr port cm = Inr cm' \<Longrightarrow> conn_step cm cm'"
  by (auto simp: conn_step_def intro: conn_ok_update)
    (auto simp: update_inb_peer_addr_info_def Let_def split: prod.splits option.splits)

text \<open>A peer is made at the next address, or found.\<close>

lemma peer_for_frame:
  assumes "peer_for d addr port cm = Inr (p, cm')"
  shows "inbound_peers_lim cm' = inbound_peers_lim cm \<and> outbound_peers_lim cm' = outbound_peers_lim cm \<and> next_peer cm \<le> next_peer cm'"
  using assms
  by (auto simp: peer_for_def connect_to_peer_def make_peer_def add_to_outbound_def Let_def
      split: if_splits sum.splits prod.splits)

lemma send_async_step:
  assumes "async_send_to_peer d addr port data cm = Inr cm'"
  shows "conn_step cm cm'"
proof -
  from assms obtain p cm1 where "peer_for d addr port cm = Inr (p, cm1)" "async_send p data cm1 = Inr cm'"
    by (auto simp: async_send_to_peer_def split: sum.splits)
  with peer_for_frame [of d addr port cm p cm1] async_send_step [of p data cm1 cm'] async_send_ok [OF _ assms]
  show ?thesis by (auto simp: conn_step_def)
qed

lemma send_sync_step:
  assumes "send_to_peer d addr port data expecting cm = (r, cm')"
  shows "conn_step cm cm'"
proof -
  have "inbound_peers_lim cm' = inbound_peers_lim cm \<and> outbound_peers_lim cm' = outbound_peers_lim cm \<and> next_peer cm \<le> next_peer cm'"
    using assms
    by (auto simp: send_to_peer_def send_bytes_def Let_def dest: peer_for_frame split: sum.splits option.splits if_splits prod.splits)
  with send_to_peer_ok [of cm d addr port data expecting] assms show ?thesis by (simp add: conn_step_def)
qed

lemma accept_step: "conn_step cm (snd (accept s cm))"
proof -
  obtain p cm1 where mk: "make_peer s cm = (p, cm1)" by fastforce
  from map_ok_make_peer [OF mk] mk conn_ok_accept [of cm s] show ?thesis
    by (auto simp: conn_step_def accept_def add_to_inbound_def make_peer_def split: if_splits)
qed

lemma lost_step: "conn_step cm (listen_failed p cm)"
  by (simp add: conn_step_def conn_ok_failed) (simp add: listen_failed_def remove_peer_from_inbound_def)

lemma contact_step: "contact_peers d msg pairs cm = Inr cm' \<Longrightarrow> conn_step cm cm'"
proof (induction d msg pairs cm rule: contact_peers.induct)
  case (2 d msg address port pairs cm)
  then show ?case
    by (auto split: if_splits sum.splits dest!: send_async_step intro: conn_step_trans)
qed simp

subsection \<open>Steps of the node\<close>

definition node_conn :: "'c node \<Rightarrow> 'c node \<Rightarrow> bool" where
  "node_conn nd nd' \<longleftrightarrow> conn_step (n_conn nd) (n_conn nd') \<and> sync_peer nd' = sync_peer nd"

lemma node_conn_refl [simp]: "node_conn nd nd"
  by (simp add: node_conn_def)

lemma node_conn_trans: "node_conn nd nd1 \<Longrightarrow> node_conn nd1 nd2 \<Longrightarrow> node_conn nd nd2"
  by (auto simp: node_conn_def intro: conn_step_trans)

lemma node_conn_manager [simp]:
  "node_conn (nd\<lparr>n_manager := m\<rparr>) nd' \<longleftrightarrow> node_conn nd nd'" "node_conn nd (nd'\<lparr>n_manager := m\<rparr>) \<longleftrightarrow> node_conn nd nd'"
  "node_conn (set_synced nd) nd' \<longleftrightarrow> node_conn nd nd'" "node_conn nd (set_synced nd') \<longleftrightarrow> node_conn nd nd'"
  by (simp_all add: node_conn_def set_synced_def)

lemma sends_conn:
  "broadcast msg nd = Inr nd' \<Longrightarrow> node_conn nd nd'"
  "send_sync_peer msg nd = Inr nd' \<Longrightarrow> node_conn nd nd'"
  by (auto simp: broadcast_def send_sync_peer_def map_sum_Inr_iff node_conn_def split: sum.splits
      dest: broadcast_step async_send_step)

lemma addresses_steps:
  "handle_get_peer_addrs ctx ga peerID nd = Inr (r, nd') \<Longrightarrow> node_conn nd nd'"
  "handle_addr ctx pairs nd = Inr nd' \<Longrightarrow> node_conn nd nd'"
  by (auto simp: handle_get_peer_addrs_def handle_addr_def map_sum_Inr_iff node_conn_def split: sum.splits
      dest!: reply_same update_step contact_step)

lemma received_conn: "add_received_block ctx ib nd = Inr (h, ok, nd') \<Longrightarrow> node_conn nd nd'"
  by (auto simp: add_received_block_def Let_def map_sum_Inr_iff split: sum.splits if_splits prod.splits)

lemma info_blocks_conn:
  "handle_info_block ctx ib nd = Inr (r, nd') \<Longrightarrow> node_conn nd nd'"
  "handle_info_block_sync ctx ib nd = Inr (r, nd') \<Longrightarrow> node_conn nd nd'"
  by (auto simp: handle_info_block_def handle_info_block_sync_def sync_mempool_def map_sum_Inr_iff
      split: sum.splits if_splits dest!: received_conn sends_conn intro: node_conn_trans)

lemma info_others_conn:
  "handle_info_tx ctx ptx nd = Inr (r, nd') \<Longrightarrow> node_conn nd nd'"
  "handle_info_computation ctx pc nd = Inr (r, nd') \<Longrightarrow> node_conn nd nd'"
  by (auto simp: handle_info_tx_def handle_info_computation_def Let_def map_sum_Inr_iff
      split: sum.splits if_splits prod.splits dest!: sends_conn)

lemma list_txs_conn:
  assumes "handle_list_transactions ctx txids nd = Inr (r, nd')"
  shows "node_conn nd nd'"
proof -
  from assms have "fold_res (\<lambda>txid. broadcast (build_get_tx (pb ctx) txid)) txids nd = Inr nd'"
    by (auto simp: handle_list_transactions_def map_sum_Inr_iff)
  then show ?thesis by (rule fold_res_invariant) (auto dest: sends_conn intro: node_conn_trans)
qed

lemmas handlers_conn = addresses_steps info_blocks_conn info_others_conn list_txs_conn

lemma route_conn: "route ctx mt data peerID nd = Inr (resp, nd') \<Longrightarrow> node_conn nd nd'"
  by (cases mt) (auto simp: route_def map_sum_Inr_iff handle_sync_transactions_def
      dest!: handlers_conn handlers_read_only reply_same split: if_splits)

interpretation conn_router: message_handler
    "\<lambda>mt data nd. route ctx mt data (p_id (peer_heap (n_conn nd) p)) nd" node_conn
  for ctx :: "('c, 'p) node_ctx" and p :: nat
  by unfold_locales (simp, erule node_conn_trans, assumption, erule route_conn)


lemma bootstrap_conn: "bootstrap_peers ctx msg eps nd = Inr nd' \<Longrightarrow> node_conn nd nd'"
proof (erule bootstrap_related)
  show "send_to_peer (dial ctx) address port msg True (n_conn nd) = (r, cm) \<Longrightarrow> node_conn nd (nd\<lparr>n_conn := cm\<rparr>)" for address port nd r cm
    by (simp add: node_conn_def send_sync_step)
qed (auto intro: node_conn_trans route_conn)

lemma mining_conn: "mining_round ctx now nd = Inr (Some nd') \<Longrightarrow> node_conn nd nd'"
  by (auto simp: mining_round_def handle_add_valid_block_def handle_mined_block_def Let_def map_sum_Inr_iff
      split: if_splits sum.splits option.splits dest!: sends_conn)

lemma rpc_conn: "rpc_route lib ctx msg nd = Inr (resp, nd') \<Longrightarrow> node_conn nd nd'"
  by (auto simp: rpc_route_def rpc_handle_say_hello_def rpc_handle_transaction_def rpc_handle_computation_def Let_def
      map_sum_Inr_iff split: sum.splits rpc_type.splits if_splits cxx_error.splits prod.splits dest!: sends_conn)

subsection \<open>Connections of reachable nodes\<close>

text \<open>The limits come from the configuration, which is not checked.\<close>

definition limits_ok :: "conn_mngr \<Rightarrow> bool" where
  "limits_ok cm \<longleftrightarrow> 0 \<le> sint (inbound_peers_lim cm) \<and> 0 \<le> sint (outbound_peers_lim cm)"

text \<open>The peer that is asked for blocks is one that was made.\<close>

definition peers_ok :: "'c node \<Rightarrow> bool" where
  "peers_ok nd \<longleftrightarrow> conn_ok (n_conn nd) \<and> (\<forall>p. sync_peer nd = Some p \<longrightarrow> p < next_peer (n_conn nd))"

lemma limits_kept: "node_conn nd nd' \<Longrightarrow> limits_ok (n_conn nd') \<longleftrightarrow> limits_ok (n_conn nd)"
  by (simp add: node_conn_def conn_step_def limits_ok_def)

lemma peers_ok_step: "node_conn nd nd' \<Longrightarrow> peers_ok nd \<Longrightarrow> peers_ok nd'"
  by (auto simp: node_conn_def conn_step_def peers_ok_def intro: order.strict_trans2)

lemma ConnectionManager_empty:
  "ConnectionManager config = Inr cm \<Longrightarrow> inbound_peer_map cm = [] \<and> outbound_peer_map cm = []"
  by (auto simp: ConnectionManager_def Let_def map_sum_Inr_iff split: sum.splits prod.splits)

lemma make_node_conn:
  assumes "make_node ctx config secrets keypair = Inr nd"
  obtains nd0 where "node_conn nd0 nd" "same_but_conn nd0 nd" "\<not> n_synced nd0" "sync_peer nd0 = None"
    "ConnectionManager config = Inr (n_conn nd0)"
proof -
  from assms obtain cm m where cm: "ConnectionManager config = Inr cm"
      "bootstrap_from_config ctx config \<lparr>n_manager = m, n_conn = cm, n_synced = False, sync_peer = None\<rparr> = Inr nd"
    by (auto simp: make_node_def split: sum.splits if_splits)
  let ?nd0 = "\<lparr>n_manager = m, n_conn = cm, n_synced = False, sync_peer = None\<rparr>"
  from cm(2) obtain msg eps where "bootstrap_peers ctx msg eps ?nd0 = Inr nd"
    by (auto simp: bootstrap_from_config_def split: sum.splits)
  from bootstrap_conn [OF this] bootstrap_same [OF this] cm(1) show thesis by (intro that [of ?nd0]) simp_all
qed

text \<open>Asking the first outbound peer, which is never a null pointer.\<close>

lemma one_outbound_alive:
  assumes "conn_ok cm" and "get_one_outbound cm = Inr p"
  obtains q where "p = Some q" "q < next_peer cm"
proof -
  from assms(2) obtain k m where "outbound_peer_map cm = (k, p) # m"
    by (auto simp: get_one_outbound_def split: list.splits)
  with map_okD [OF conn_okD(2) [OF assms(1)], of k p] that show thesis by (auto simp: entry_ok_def)
qed

lemma start_sync_ok:
  assumes "start_sync ctx nd = Inr nd'"
  shows "limits_ok (n_conn nd') \<longleftrightarrow> limits_ok (n_conn nd)" and "peers_ok nd \<Longrightarrow> peers_ok nd'"
proof -
  from assms consider "nd' = set_synced nd"
    | p where "get_one_outbound (n_conn nd) = Inr p" "node_conn (nd\<lparr>sync_peer := p\<rparr>) nd'"
    by (auto simp: start_sync_def split: sum.splits if_splits dest: sends_conn)
  note steps = this
  from steps show "limits_ok (n_conn nd') \<longleftrightarrow> limits_ok (n_conn nd)"
    by cases (auto simp: set_synced_def dest: limits_kept)
  assume ok: "peers_ok nd"
  from steps show "peers_ok nd'"
  proof cases
    case (2 p)
    from ok have "conn_ok (n_conn nd)" by (simp add: peers_ok_def)
    from one_outbound_alive [OF this 2(1)] obtain q where "p = Some q" "q < next_peer (n_conn nd)" .
    with ok have "peers_ok (nd\<lparr>sync_peer := p\<rparr>)" by (simp add: peers_ok_def)
    with peers_ok_step [OF 2(2)] show ?thesis by blast
  qed (use ok in \<open>simp add: peers_ok_def set_synced_def\<close>)
qed

lemma reachable_peers_ok: "reachable_node lib ctx nd \<Longrightarrow> limits_ok (n_conn nd) \<Longrightarrow> peers_ok nd"
proof (induction rule: reachable_node.induct)
  case (constructed config secrets keypair nd)
  from make_node_conn [OF constructed(1)] obtain nd0 where nd0: "node_conn nd0 nd" "sync_peer nd0 = None"
    "ConnectionManager config = Inr (n_conn nd0)" .
  with constructed(2) limits_kept [OF nd0(1)] ConnectionManager_empty [OF nd0(3)] have "peers_ok nd0"
    by (simp add: peers_ok_def conn_ok_def map_ok_def apart_def limits_ok_def)
  with peers_ok_step [OF nd0(1)] show ?case .
next
  case (synchronises nd nd')
  with start_sync_ok [OF synchronises(2)] show ?case by blast
next
  case (accepts nd s)
  have "node_conn nd (nd\<lparr>n_conn := snd (accept s (n_conn nd))\<rparr>)" by (simp add: node_conn_def accept_step)
  with accepts limits_kept peers_ok_step show ?case by blast
next
  case (loses nd p)
  have "node_conn nd (nd\<lparr>n_conn := listen_failed p (n_conn nd)\<rparr>)" by (simp add: node_conn_def lost_step)
  with loses limits_kept peers_ok_step show ?case by blast
next
  case (hears nd p chunks answers rest nd')
  from conn_router.listen_related [OF hears(2) [unfolded listen_def]] hears limits_kept peers_ok_step show ?case by blast
next
  case (serves nd msg resp nd')
  with rpc_conn [OF serves(2)] limits_kept peers_ok_step show ?case by blast
next
  case (mines nd now nd')
  with mining_conn [OF mines(2)] limits_kept peers_ok_step show ?case by blast
qed


lemma live_part:
  assumes "map_ok cm m l"
  shows "distinct (map (the \<circ> snd) m) \<and> (\<forall>e \<in> set m. \<exists>p < next_peer cm. snd e = Some p)"
proof -
  have e: "\<exists>p < next_peer cm. v = Some p \<and> k = p_id (peer_heap cm p)" if "(k, v) \<in> set m" for k v
    using assms that map_okD [OF assms, of k v] by (simp add: map_ok_def entry_ok_def)
  from assms have "distinct (map fst m)" by (simp add: map_ok_def)
  then have "distinct m" by (simp add: distinct_map)
  moreover have "inj_on (the \<circ> snd) (set m)" by (rule inj_onI) (force dest!: e)
  ultimately show ?thesis using e by (force simp: distinct_map)
qed

lemma live_peers_distinct:
  assumes "conn_ok cm"
  shows "distinct (live_peers cm) \<and> (\<forall>p \<in> set (live_peers cm). p < next_peer cm)"
proof -
  note d = conn_okD [OF assms]
  let ?i = "inbound_peer_map cm" and ?o = "outbound_peer_map cm"
  from live_part [OF d(1)] live_part [OF d(2)] have
    e: "\<And>k v. (k, v) \<in> set ?i \<union> set ?o \<Longrightarrow> \<exists>p < next_peer cm. v = Some p" by force
  have "the v \<noteq> the w" if "(k, v) \<in> set ?i" "(l, w) \<in> set ?o" for k v l w
  proof -
    from that d(1,2) have "map_of ?i k = Some v" "map_of ?o l = Some w" by (simp_all add: map_ok_def)
    with d(3) have "v \<noteq> w" unfolding apart_def by blast
    with e [of k v] e [of l w] that show ?thesis by auto
  qed
  then have "set (map (the \<circ> snd) ?i) \<inter> set (map (the \<circ> snd) ?o) = {}" by fastforce
  with live_part [OF d(1)] live_part [OF d(2)] e show ?thesis by (fastforce simp: live_peers_def)
qed



text \<open>A node accepts connections before it has chosen the peer that it asks for blocks (\<open>Node::start\<close> sleeps for
  four seconds in between).  Whoever sends it an \<open>InfoBlock\<close> that says out of range in that time brings
  it down: the node counts itself as synchronised and asks a null pointer for the pool.\<close>

theorem early_info_block_crashes:
  assumes "make_node ctx config secrets keypair = Inr nd"
    and "ib_out_of_range (infoblock_parse (pb ctx) data)" and "build_sync_transactions (pb ctx) = Inr msg"
  shows "route ctx InfoBlock data peerID nd = Inl (Undefined ''null peer'')"
proof -
  from make_node_conn [OF assms(1)] obtain nd0 where "same_but_conn nd0 nd" "\<not> n_synced nd0" "sync_peer nd0 = None" .
  then have "sync_peer nd = None" "\<not> n_synced nd" by (simp_all add: same_but_conn_def)
  with assms(2,3) show ?thesis
    by (simp add: route_def handle_info_block_sync_def sync_mempool_def send_sync_peer_def async_send_def set_synced_def)
qed


theorem early_info_block_crashes_witness:
  "\<exists>nd. make_node miner_ctx node_config (Inr Null) ([], []) = Inr nd
    \<and> route miner_ctx InfoBlock [] ''10.0.0.2:4000'' nd = Inl (Undefined ''null peer'')"
proof -
  obtain nd where nd: "make_node miner_ctx node_config (Inr Null) ([], []) = Inr nd" using demo_node_made by blast
  have r: "ib_out_of_range (infoblock_parse (pb miner_ctx) [])" by (simp add: miner_ctx_def demo_pb_of_def)
  obtain msg where "build_sync_transactions (pb miner_ctx) = Inr msg"
    using frame_total [of "[1]"] frame_total [of "[]"] by (auto simp: build_sync_transactions_def miner_ctx_def demo_pb_of_def)
  from early_info_block_crashes [OF nd r this] nd show ?thesis by blast
qed

end
