(* ===== verification/Client.thy ===== *)
theory Client
  imports NodeProtocol
begin

text \<open>
  The programs around the node: \<^verbatim>\<open>src/src/conn.cpp\<close> (the node with its command line, and the
  computations that it writes), \<^verbatim>\<open>src/src/gen.cpp\<close>, \<^verbatim>\<open>src/src/gen_keys.cpp\<close> and
  \<^verbatim>\<open>src/src/decryptor.cpp\<close>.

  A file is its name with its content, JSON before printing; random choices are arguments.  The
  operations of OpenFHE that only a client calls are the record \<open>client_lib\<close>; keys that the code adds
  to a crypto context make a new one here, and the features that it enables are part of making it.
  Theorem: the whole way of a computation, from the plaintexts of a client through a miner, who
  binds it to a block, and back to the client.
\<close>

subsection \<open>Values that are written\<close>

definition base64_json :: "bytes \<Rightarrow> json" where
  "base64_json bs = String (map (\<lambda>b. char_of (unat b)) (encode bs))"

text \<open>Assigning below \<open>operator[]\<close>: null becomes an object, any other value must be one.\<close>

definition json_put :: "string \<Rightarrow> (json \<Rightarrow> json result) \<Rightarrow> json \<Rightarrow> json result" where
  "json_put key f j =
     (case j of
        Object kvs \<Rightarrow> map_sum id (\<lambda>v. Object (AList.update key v kvs)) (f (case map_of kvs key of None \<Rightarrow> Null | Some v \<Rightarrow> v))
      | Null \<Rightarrow> map_sum id (\<lambda>v. Object [(key, v)]) (f Null)
      | _ \<Rightarrow> Inl Json_type_error)"

lemma decoded_base64: "decode (string_bytes (map (\<lambda>b. char_of (unat b)) (encode bs))) = bs"
  by (simp add: string_of_bytes decode_encode del: string_bytes_def)

subsection \<open>Signing keys\<close>

text \<open>\<open>gen_keys\<close>: the exit code and the file, for the key pair that libsodium makes.\<close>

definition gen_keys_main :: "string list \<Rightarrow> bytes \<times> bytes \<Rightarrow> nat \<times> (string \<times> json) option" where
  "gen_keys_main argv keypair =
     (if length argv \<noteq> 2 then (1, None)
      else (0, Some (argv ! 1, json_set ''ed25519''
        (json_set ''public_key'' (base64_json (fst keypair)) (json_set ''secret_key'' (base64_json (snd keypair)) (Object [])))
        Null)))"

text \<open>The node that reads the file signs with these keys.\<close>

theorem generated_keys_read:
  assumes "gen_keys_main argv keypair = (code, Some (f, j))"
  shows "Wallet_json j = Inr (Wallet_from_config (fst keypair) (snd keypair))"
  using assms
  by (auto simp: gen_keys_main_def Wallet_json_def json_set_def json_at_def decoded_at_def json_string_at_def get_string_def
      base64_json_def decoded_base64 split: if_splits)

subsection \<open>The command line of the node\<close>

text \<open>
  With three or four arguments the first three override address, port and request port; a fourth, or
  the only one, is the number of computations.
\<close>

definition stoi_int :: "string \<Rightarrow> i32 result" where
  "stoi_int s = map_sum id word_of_int (stoi s)"

definition override_net :: "string \<Rightarrow> json \<Rightarrow> json \<Rightarrow> json result" where
  "override_net key v config = json_put ''net'' (json_put key (\<lambda>_. Inr v)) config"

definition override_port :: "string \<Rightarrow> string \<Rightarrow> json \<Rightarrow> json result" where
  "override_port key arg config = (case stoi arg of Inl e \<Rightarrow> Inl e | Inr v \<Rightarrow> override_net key (Number v) config)"

definition override_config :: "string list \<Rightarrow> json \<Rightarrow> (json \<times> i32) result" where
  "override_config argv config =
     (if length argv = 4 \<or> length argv = 5 then
        (case override_net ''address'' (String (argv ! 1)) config of Inl e \<Rightarrow> Inl e
         | Inr config1 \<Rightarrow>
        (case override_port ''port'' (argv ! 2) config1 of Inl e \<Rightarrow> Inl e
         | Inr config2 \<Rightarrow>
        (case override_port ''rpc_port'' (argv ! 3) config2 of Inl e \<Rightarrow> Inl e
         | Inr config3 \<Rightarrow>
             if length argv = 5 then map_sum id (Pair config3) (stoi_int (argv ! 4)) else Inr (config3, 1))))
      else if length argv = 2 then map_sum id (Pair config) (stoi_int (argv ! 1))
      else Inr (config, 1))"

lemma json_put_entry:
  assumes "json_put key f j = Inr j'"
  shows "\<exists>v0 v. json_entry key j = Inr v0 \<and> f v0 = Inr v \<and> json_entry key j' = Inr v
    \<and> (\<forall>k. k \<noteq> key \<longrightarrow> json_entry k j' = json_entry k j)"
  using assms by (auto simp: json_put_def json_entry_def map_sum_Inr_iff update_conv' split: json.splits option.splits)

lemma override_net_entry:
  assumes "override_net key v c = Inr c'"
  shows "\<exists>net net'. json_entry ''net'' c = Inr net \<and> json_entry ''net'' c' = Inr net' \<and> json_entry key net' = Inr v
    \<and> (\<forall>k. k \<noteq> key \<longrightarrow> json_entry k net' = json_entry k net)"
proof -
  from json_put_entry [OF assms [unfolded override_net_def]] obtain net net' where n: "json_entry ''net'' c = Inr net"
      "json_put key (\<lambda>_. Inr v) net = Inr net'" "json_entry ''net'' c' = Inr net'" by blast
  from json_put_entry [OF n(2)] n(1,3) show ?thesis by auto
qed

lemma override_port_entry:
  assumes "override_port key arg c = Inr c'"
  obtains v where "stoi arg = Inr v" "override_net key (Number v) c = Inr c'"
  using assms by (auto simp: override_port_def split: sum.splits)

text \<open>
  The node listens where the command line says: with three or four arguments the address and both
  ports of the configuration are replaced, the ports by the numbers that the arguments begin with.
\<close>

theorem command_line_reaches_node:
  assumes "override_config argv config = Inr (cfg, n)" and "length argv = 4 \<or> length argv = 5"
    and "ConnectionManager cfg = Inr cm" and "RPCServer cfg = Inr (rpc_addr, rpc_port)"
  shows "listening_address cm = argv ! 1 \<and> stoi_int (argv ! 2) = Inr (listening_port cm) \<and> stoi_int (argv ! 3) = Inr rpc_port
    \<and> (length argv = 4 \<longrightarrow> n = 1) \<and> (length argv = 5 \<longrightarrow> stoi_int (argv ! 4) = Inr n)"
proof -
  from assms(1,2) obtain c1 c2 where c: "override_net ''address'' (String (argv ! 1)) config = Inr c1"
      "override_port ''port'' (argv ! 2) c1 = Inr c2" "override_port ''rpc_port'' (argv ! 3) c2 = Inr cfg"
      "length argv = 4 \<longrightarrow> n = 1" "length argv = 5 \<longrightarrow> stoi_int (argv ! 4) = Inr n"
    by (auto simp: override_config_def map_sum_Inr_iff split: sum.splits if_splits)
  from override_net_entry [OF c(1)] obtain net1 where
    1: "json_entry ''net'' c1 = Inr net1" "json_entry ''address'' net1 = Inr (String (argv ! 1))" by blast
  from override_port_entry [OF c(2)] obtain p where p: "stoi (argv ! 2) = Inr p" "override_net ''port'' (Number p) c1 = Inr c2" .
  from override_net_entry [OF p(2)] 1 obtain net2 where 2: "json_entry ''net'' c2 = Inr net2"
      "json_entry ''address'' net2 = Inr (String (argv ! 1))" "json_entry ''port'' net2 = Inr (Number p)"
    by auto
  from override_port_entry [OF c(3)] obtain r where r: "stoi (argv ! 3) = Inr r" "override_net ''rpc_port'' (Number r) c2 = Inr cfg" .
  from override_net_entry [OF r(2)] 2 obtain net3 where 3: "json_entry ''net'' cfg = Inr net3"
      "json_entry ''address'' net3 = Inr (String (argv ! 1))" "json_entry ''port'' net3 = Inr (Number p)"
      "json_entry ''rpc_port'' net3 = Inr (Number r)"
    by auto
  have "listening_address cm = argv ! 1 \<and> listening_port cm = word_of_int p"
    using assms(3) 3 by (auto simp: ConnectionManager_def Let_def get_string_def get_int_def get_number_def map_sum_Inr_iff split: sum.splits)
  moreover have "rpc_port = word_of_int r"
    using assms(4) 3 by (auto simp: RPCServer_def get_int_def get_number_def map_sum_Inr_iff split: sum.splits)
  ultimately show ?thesis using c(4,5) p(1) r(1) by (simp add: stoi_int_def)
qed

subsection \<open>Requests for a computation\<close>

record cc_params =
  UID :: "bytes option"
  MultiplicativeDepth :: nat
  PlaintextModulus :: nat
  ScalingTechnique :: string
  KeySwitchTechnique :: string

text \<open>\<open>'r\<close>: what is drawn at random for one call.\<close>

record ('cc, 'ct, 'pk, 'sk, 'v, 'r) client_lib =
  GenCryptoContext :: "cc_params \<Rightarrow> 'cc"
  KeyGen :: "'r \<Rightarrow> 'cc \<Rightarrow> 'pk \<times> 'sk"
  EvalMultKeyGen :: "'sk \<Rightarrow> 'cc \<Rightarrow> 'cc"
  MakePackedPlaintext :: "'cc \<Rightarrow> int list \<Rightarrow> 'v result"
  Encrypt :: "'r \<Rightarrow> 'cc \<Rightarrow> 'pk \<Rightarrow> 'v \<Rightarrow> 'ct"
  Decrypt :: "'sk \<Rightarrow> 'ct \<Rightarrow> 'v"
  ser_sk :: "'sk \<Rightarrow> bytes"
  de_sk :: "bytes \<Rightarrow> 'sk result"

definition params_with :: "bytes option \<Rightarrow> cc_params" where
  "params_with uid = \<lparr>UID = uid, MultiplicativeDepth = 1, PlaintextModulus = 65537, ScalingTechnique = ''FIXEDMANUAL'',
     KeySwitchTechnique = ''BV''\<rparr>"

text \<open>A product of two \<open>int\<close>s.\<close>

definition int_times :: "int \<Rightarrow> int \<Rightarrow> int result" where
  "int_times a b = (if - (2 ^ 31) \<le> a * b \<and> a * b < 2 ^ 31 then Inr (a * b) else Inl (Undefined ''signed overflow''))"

definition conn_vector :: "nat \<Rightarrow> nat \<Rightarrow> int list result" where
  "conn_vector num i = map_res (int_times (int num + 1)) [int i + 1, int i - 2, int i + 3]"

definition gen_vector :: "nat \<Rightarrow> int list result" where
  "gen_vector i = Inr [int i + 1, int i - 2, int i + 3]"

definition plaintext_of :: "('cc, 'ct, 'pk, 'sk, 'v, 'r) client_lib \<Rightarrow> 'cc \<Rightarrow> (nat \<Rightarrow> int list result) \<Rightarrow> nat \<Rightarrow> 'v result" where
  "plaintext_of cl cc vec i = (case vec i of Inl e \<Rightarrow> Inl e | Inr p_vec \<Rightarrow> MakePackedPlaintext cl cc p_vec)"

text \<open>The five inputs, encrypted; \<open>rnd i\<close> is drawn for the \<open>i\<close>-th of them.\<close>

definition encrypted_inputs ::
  "('cc, 'ct, 'pk, 'sk, 'v, 'r) client_lib \<Rightarrow> (nat \<Rightarrow> 'r) \<Rightarrow> 'cc \<Rightarrow> 'pk \<Rightarrow> (nat \<Rightarrow> int list result) \<Rightarrow> 'ct list result" where
  "encrypted_inputs cl rnd cc pk vec = map_res (\<lambda>i. map_sum id (Encrypt cl (rnd i) cc pk) (plaintext_of cl cc vec i)) [0..<5]"

definition request_json ::
  "('cc, 'ct, 'pk, 'ps, 'vars, 'f, 'arg) fhe_lib \<Rightarrow> 'cc \<Rightarrow> 'pk \<Rightarrow> 'ct list \<Rightarrow> int \<Rightarrow> json" where
  "request_json lib cc pk cts timestamp =
     json_set ''expression'' (String ''(0+1)*(0-1)'')
       (json_set ''public_key'' (base64_json (ser_pk lib pk))
         (json_set ''eval_mult_key'' (base64_json (SerializeEvalMultKey lib cc))
           (json_set ''timestamp'' (Number timestamp)
             (json_set ''ciphertexts'' (Array (map (\<lambda>c. base64_json (ser_ct lib c)) cts)) Null))))"

text \<open>\<open>gen\<close>: the file of the private key and the file of the request.\<close>

definition gen_main ::
  "('cc, 'ct, 'pk, 'ps, 'vars, 'f, 'arg) fhe_lib \<Rightarrow> ('cc, 'ct, 'pk, 'sk, 'v, 'r) client_lib \<Rightarrow> int \<Rightarrow> (nat \<Rightarrow> 'r) \<Rightarrow>
     ((string \<times> bytes) \<times> (string \<times> json)) result" where
  "gen_main lib cl now rnd =
     (let cc0 = GenCryptoContext cl (params_with None); (pk, sk) = KeyGen cl (rnd 5) cc0; cc = EvalMultKeyGen cl sk cc0
      in map_sum id (\<lambda>cts. ((''privateKey.dat'', ser_sk cl sk), (''computation.json'', request_json lib cc pk cts now)))
           (encrypted_inputs cl rnd cc pk gen_vector))"

text \<open>One round of the loop of \<open>generate_computations\<close>: the two files, and the computation, which is also built.\<close>

definition generate_computation ::
  "('cc, 'ct, 'pk, 'ps, 'vars, 'f, 'arg) fhe_lib \<Rightarrow> ('cc, 'ct, 'pk, 'sk, 'v, 'r) client_lib \<Rightarrow> bytes \<Rightarrow> (nat \<Rightarrow> 'r) \<Rightarrow> nat \<Rightarrow>
     ((string \<times> bytes) \<times> (string \<times> json) \<times> ('ct, 'pk, 'ps) fhe_computer) result" where
  "generate_computation lib cl uid rnd num =
     (let cc0 = GenCryptoContext cl (params_with (Some uid)); (pk, sk) = KeyGen cl (rnd 5) cc0; cc = EvalMultKeyGen cl sk cc0
      in case encrypted_inputs cl rnd cc pk (conn_vector num) of Inl e \<Rightarrow> Inl e
      | Inr cts \<Rightarrow>
          (let out_json = json_set ''type'' (Number 2) (request_json lib cc pk cts (int num))
           in map_sum id (\<lambda>c. ((''privateKey_'' @ digits_of num @ ''.dat'', ser_sk cl sk),
                                (''computation_'' @ digits_of num @ ''.json'', out_json), c))
                (FHEComputer lib out_json)))"

definition generate_computations ::
  "('cc, 'ct, 'pk, 'ps, 'vars, 'f, 'arg) fhe_lib \<Rightarrow> ('cc, 'ct, 'pk, 'sk, 'v, 'r) client_lib \<Rightarrow> (nat \<Rightarrow> bytes) \<Rightarrow>
     (nat \<Rightarrow> nat \<Rightarrow> 'r) \<Rightarrow> i32 \<Rightarrow> ((string \<times> bytes) \<times> (string \<times> json) \<times> ('ct, 'pk, 'ps) fhe_computer) list result" where
  "generate_computations lib cl uids rnds num_of_comps =
     map_res (\<lambda>num. generate_computation lib cl (uids num) (rnds num) num) [0..<nat (sint num_of_comps)]"

text \<open>\<open>conn\<close> up to \<open>node.start()\<close>; the generated computations are written and otherwise not used.\<close>

definition conn_main ::
  "('cc, 'ct, 'pk, 'ps, 'vars, 'f, 'arg) fhe_lib \<Rightarrow> ('cc, 'ct, 'pk, 'sk, 'v, 'r) client_lib \<Rightarrow>
     (('ct, 'pk, 'ps) fhe_computer, 'p) node_ctx \<Rightarrow> json result option \<Rightarrow> json result \<Rightarrow> bytes \<times> bytes \<Rightarrow>
     (nat \<Rightarrow> bytes) \<Rightarrow> (nat \<Rightarrow> nat \<Rightarrow> 'r) \<Rightarrow> string list \<Rightarrow>
     (((string \<times> bytes) \<times> (string \<times> json)) list \<times> ('ct, 'pk, 'ps) fhe_computer node) result" where
  "conn_main lib cl ctx config_file secrets keypair uids rnds argv =
     (case config_file of None \<Rightarrow> Inl (Invalid_argument ''Could not open json file.'')
      | Some (Inl e) \<Rightarrow> Inl e
      | Some (Inr config_json) \<Rightarrow>
     (case override_config argv config_json of Inl e \<Rightarrow> Inl e
      | Inr (config, no_of_comps) \<Rightarrow>
     (case generate_computations lib cl uids rnds no_of_comps of Inl e \<Rightarrow> Inl e
      | Inr comps \<Rightarrow>
          map_sum id (Pair (map (\<lambda>(k, r, _). (k, r)) comps)) (make_node ctx config secrets keypair))))"

subsection \<open>Decryption\<close>

text \<open>\<open>decryptor\<close>: the exit code and the plaintext that is printed; the input ends at the first zero byte.\<close>

definition decryptor_main ::
  "('cc, 'ct, 'pk, 'ps, 'vars, 'f, 'arg) fhe_lib \<Rightarrow> ('cc, 'ct, 'pk, 'sk, 'v, 'r) client_lib \<Rightarrow> (string \<Rightarrow> bytes option) \<Rightarrow>
     string list \<Rightarrow> bytes \<Rightarrow> (nat \<times> 'v option) result" where
  "decryptor_main lib cl files argv input =
     (if length argv \<noteq> 2 then Inr (1, None)
      else case files (argv ! 1) of None \<Rightarrow> Inr (1, None)
      | Some key \<Rightarrow>
     (case de_sk cl key of Inl e \<Rightarrow> Inl e
      | Inr sk \<Rightarrow>
          map_sum id (\<lambda>ct. (0, Some (Decrypt cl sk ct))) (de_ct lib (decode (takeWhile (\<lambda>c. c \<noteq> 0) input)))))"

subsection \<open>From the client to the miner and back\<close>

text \<open>Asked of a key pair: decryption undoes encryption and respects the operations, an encryption of zero is one.\<close>

definition encryption_ok ::
  "('cc, 'ct, 'pk, 'ps, 'vars, 'f, 'arg) fhe_lib \<Rightarrow> ('cc, 'ct, 'pk, 'sk, 'v :: comm_ring_1, 'r) client_lib \<Rightarrow> bool" where
  "encryption_ok lib cl \<longleftrightarrow> (\<forall>r cc0 pk sk cc. KeyGen cl r cc0 = (pk, sk) \<longrightarrow> cc = EvalMultKeyGen cl sk cc0 \<longrightarrow>
     de_sk cl (ser_sk cl sk) = Inr sk \<and> homomorphic (context_ops lib cc) (Decrypt cl sk)
     \<and> (\<forall>r v. context_of lib (Encrypt cl r cc pk v) = cc \<and> Decrypt cl sk (Encrypt cl r cc pk v) = v)
     \<and> (\<forall>d z. EncryptZeroDeterministic lib cc pk d = Inr z \<longrightarrow> Decrypt cl sk z = 0))"

lemma encoded_no_zero: "c \<in> set (encode bs) \<Longrightarrow> c \<noteq> 0"
proof -
  assume c: "c \<in> set (encode bs)"
  obtain n where "encode bs = symbols_of bs @ replicate n pad_char" using encode_symbols by blast
  with c symbols_valid [of bs] have "c = pad_char \<or> is_base64 c" by (auto simp: list_all_iff)
  then show "c \<noteq> 0" by (auto simp: pad_char_def is_base64_def word_le_nat_alt)
qed

lemma decryptor_reads:
  assumes "codecs_ok lib" and "de_sk cl (ser_sk cl sk) = Inr sk" and "files f = Some (ser_sk cl sk)"
  shows "decryptor_main lib cl files [prog, f] (encode (ser_ct lib ct)) = Inr (0, Some (Decrypt cl sk ct))"
proof -
  have no_zero: "takeWhile (\<lambda>c. c \<noteq> 0) (encode (ser_ct lib ct)) = encode (ser_ct lib ct)"
    by (simp add: takeWhile_eq_all_conv encoded_no_zero)
  from assms show ?thesis by (simp add: decryptor_main_def no_zero decode_encode codecs_ok_def)
qed


text \<open>The computation that the node reads from the request.\<close>

lemma request_read:
  assumes "codecs_ok lib" and "cts \<noteq> []" and "\<forall>c \<in> set cts. context_of lib c = cc"
    and "j = request_json lib cc pk cts ts \<or> j = json_set k v (request_json lib cc pk cts ts) \<and> k = ''type''"
  shows "FHEComputation lib j = Inr \<lparr>expression = ''(0+1)*(0-1)'', publicKey = pk, ciphertexts = cts, fc_timestamp = word_of_int ts,
      unbound_ciphertexts_archive = [], is_bound = False\<rparr>"
proof -
  have de: "de_ct lib (ser_ct lib c) = Inr c" "de_pk lib (ser_pk lib k) = Inr k"
      "DeserializeEvalMultKey lib cc (SerializeEvalMultKey lib cc) = Inr ()" for c k cc
    using assms(1) by (simp_all add: codecs_ok_def)
  have "map_res (ciphertext_from_json lib) (map (\<lambda>c. base64_json (ser_ct lib c)) xs) = Inr xs" for xs
    by (induction xs) (simp_all add: ciphertext_from_json_def base64_json_def decoded_base64 de)
  moreover have "context_of lib (cts ! 0) = cc" using assms(2,3) by (cases cts) simp_all
  moreover have "length cts \<noteq> 0" using assms(2) by simp
  ultimately show ?thesis
    using assms(4)
    by (auto simp: FHEComputation_def request_json_def json_set_def json_string_at_def json_number_at_def json_index_def json_at_def
        get_string_def get_number_def json_size_def json_elements_def decoded_at_def base64_json_def decoded_base64 de)
qed

text \<open>Binding to a block does not change what the inputs decrypt to.\<close>

lemma bind_from_value:
  assumes "homomorphic (context_ops lib cc) dec" and "\<And>d z. EncryptZeroDeterministic lib cc pk d = Inr z \<Longrightarrow> dec z = 0"
  shows "bind_from lib cc pk d i cts = Inr cts' \<Longrightarrow> map dec cts' = map dec cts"
proof (induction cts arbitrary: i cts')
  case (Cons c cts)
  from Cons.prems obtain z c' s cts1 where b: "EncryptZeroDeterministic lib cc pk (counter_and_data i d) = Inr z"
      "EvalAdd (context_ops lib cc) z c () = Inr (c', s)" "bind_from lib cc pk d (i + 1) cts = Inr cts1" "cts' = c' # cts1"
    by (auto simp: map_sum_Inr_iff split: sum.splits)
  have "computes (EvalAdd (context_ops lib cc) z c) dec (dec z + dec c)" using assms(1) by (simp add: homomorphic_def)
  with b(2) have "dec c' = dec z + dec c" unfolding computes_def by fastforce
  with assms(2) [OF b(1)] Cons.IH [OF b(3)] b(4) show ?case by simp
qed simp

text \<open>So a miner's result, over bound inputs, is the value of the expression on the inputs as they came.\<close>

lemma mined_value:
  assumes hom: "homomorphic (context_ops lib cc) dec"
    and zero: "\<And>d z. EncryptZeroDeterministic lib cc (publicKey (computation c)) d = Inr z \<Longrightarrow> dec z = 0"
    and c: "GetCryptoContext lib (computation c) = Inr cc" "\<not> is_bound (computation c)" "\<not> stop_flag c"
      "ASTree (written 0 e) = Some (Inr (c_ast c))"
    and e: "e = Bin op l r" "wf_expr e" "expr_depth e \<le> 2" "indices_below (length (ciphertexts (computation c))) e"
    and ctx: "contexts_ok lib" and b: "bind_to_data lib d c = Inr c1" and p: "generate_proof lib c1 = Inr c2"
  shows "\<exists>ct. last_res c2 = Some ct \<and> dec ct = expr_value (\<lambda>v. map dec (ciphertexts (computation c)) ! nat v) e"
proof -
  let ?cts = "ciphertexts (computation c)"
  from b obtain fc1 where fc1: "bind_inputs_to_data lib d (computation c) = Inr fc1" "c1 = c\<lparr>computation := fc1\<rparr>"
    by (auto simp: bind_to_data_def map_sum_Inr_iff)
  from bind_inputsE [OF fc1(1)] c(1) have "bind_from lib cc (publicKey (computation c)) d 0 ?cts = Inr (ciphertexts fc1)"
    by fastforce
  from bind_from_value [OF hom zero this] have vals: "map dec (ciphertexts fc1) = map dec ?cts" .
  then have len: "length (ciphertexts fc1) = length ?cts" by (metis length_map)
  have "GetCryptoContext lib fc1 = Inr cc" using binding_keeps_context [OF ctx fc1(1)] c(1) by simp
  with computer_value [of lib cc dec c1 e op l r] hom c(3,4) e fc1(2) len obtain ct where
    ct: "evaluate lib c1 = Inr (ct, c1\<lparr>last_res := Some ct\<rparr>)" "dec ct = expr_value (\<lambda>v. dec (ciphertexts fc1 ! nat v)) e"
    by auto
  from p obtain c3 where "generate_constraints lib True c1 = Inr c3" "last_res c2 = last_res c3"
    by (auto simp: generate_proof_def map_sum_Inr_iff split: sum.splits)
  with ct(1) have "last_res c2 = Some ct"
    by (auto simp: generate_constraints_def map_sum_Inr_iff split: sum.splits)
  moreover have "expr_value (\<lambda>v. dec (ciphertexts fc1 ! nat v)) e = expr_value (\<lambda>v. map dec ?cts ! nat v) e"
    using e(4) by (induction e) (auto simp: len vals [symmetric] split: sum.splits)
  ultimately show ?thesis using ct(2) by auto
qed

definition client_expr :: expr where
  "client_expr = Bin (CHR ''*'') (Bin (CHR ''+'') (Num ''0'') (Num ''1'')) (Bin (CHR ''-'') (Num ''0'') (Num ''1''))"

lemma client_expr:
  "written 0 client_expr = ''(0+1)*(0-1)''" "wf_expr client_expr" "expr_depth client_expr \<le> 2"
  "2 \<le> k \<Longrightarrow> indices_below k client_expr" "expr_value f client_expr = (f 0 + f 1) * (f 0 - f 1)"
proof -
  have n: "stoi ''0'' = Inr 0" "stoi ''1'' = Inr 1" by code_simp+
  show "written 0 client_expr = ''(0+1)*(0-1)''" by (simp add: client_expr_def precedence_def)
  show "wf_expr client_expr" by (simp add: client_expr_def is_operator_def is_digit_def)
  show "expr_depth client_expr \<le> 2" by (simp add: client_expr_def)
  show "2 \<le> k \<Longrightarrow> indices_below k client_expr" by (simp add: client_expr_def n)
  show "expr_value f client_expr = (f 0 + f 1) * (f 0 - f 1)" by (simp add: client_expr_def n arith_def)
qed

lemma encrypted_values:
  assumes "encrypted_inputs cl rnd cc pk vec = Inr cts" and "\<And>r v. dec (Encrypt cl r cc pk v) = v"
  shows "length cts = 5 \<and> (\<forall>i < 5. plaintext_of cl cc vec i = Inr (dec (cts ! i)) \<and> (\<exists>r v. cts ! i = Encrypt cl r cc pk v))"
proof (intro conjI allI impI)
  from assms(1) have all: "list_all2 (\<lambda>i c. map_sum id (Encrypt cl (rnd i) cc pk) (plaintext_of cl cc vec i) = Inr c) [0..<5] cts"
    by (simp add: encrypted_inputs_def map_res_Inr_iff)
  from list_all2_lengthD [OF this] show len: "length cts = 5" by simp
  fix i :: nat
  assume "i < 5"
  with list_all2_nthD [OF all, of i] have "map_sum id (Encrypt cl (rnd i) cc pk) (plaintext_of cl cc vec i) = Inr (cts ! i)"
    by simp
  then obtain v where "plaintext_of cl cc vec i = Inr v" "cts ! i = Encrypt cl (rnd i) cc pk v"
    by (auto simp: map_sum_Inr_iff)
  with assms(2) show "plaintext_of cl cc vec i = Inr (dec (cts ! i))" "\<exists>r v. cts ! i = Encrypt cl r cc pk v" by auto
qed


text \<open>
  What \<open>gen\<close> writes has no type, so a node drops it: the exception of the router ends the connection
  without an answer.  What \<open>conn\<close> writes goes to the handler of computations.
\<close>

theorem gen_request_dropped:
  assumes "gen_main lib cl now rnd = Inr (kf, jf, request)"
  shows "rpc_route lib ctx request nd = Inl Json_out_of_range"
  using assms
  by (auto simp: gen_main_def Let_def map_sum_Inr_iff request_json_def json_set_def rpc_route_def json_at_def split: prod.splits)

theorem conn_request_routed:
  assumes "generate_computation lib cl uid rnd num = Inr (kf, (jf, request), c)"
  shows "rpc_route lib ctx request nd = rpc_handle_computation lib ctx request Null nd"
  using assms
  by (auto simp: generate_computation_def Let_def map_sum_Inr_iff request_json_def json_set_def rpc_route_def json_at_def
      get_number_def rpc_type_of_int_def split: prod.splits sum.splits)

subsection \<open>An instance\<close>

text \<open>Plaintexts are the first entry of their vector, modulo 256; an encryption of zero is zero.\<close>

definition quiet_lib :: "(unit, byte, byte, bytes, unit, int, bytes) fhe_lib" where
  "quiet_lib = demo_lib\<lparr>EncryptZeroDeterministic := (\<lambda>_ _ _. Inr 0)\<rparr>"

definition demo_client :: "(unit, byte, byte, byte, byte, nat) client_lib" where
  "demo_client = \<lparr>GenCryptoContext = (\<lambda>_. ()), KeyGen = (\<lambda>_ _. (9, 4)), EvalMultKeyGen = (\<lambda>_ _. ()),
     MakePackedPlaintext = (\<lambda>_ v. Inr (word_of_int (v ! 0))), Encrypt = (\<lambda>_ _ _ v. v), Decrypt = (\<lambda>_ c. c),
     ser_sk = (\<lambda>k. [k]), de_sk = read_byte\<rparr>"

definition demo_run :: "((string \<times> bytes) \<times> (string \<times> json) \<times> (byte, byte, bytes) fhe_computer) result" where
  "demo_run = generate_computation quiet_lib demo_client [] id 0"

definition demo_inputs :: "(byte, byte) fhe_computation" where
  "demo_inputs = \<lparr>expression = ''(0+1)*(0-1)'', publicKey = 9, ciphertexts = [1, 2, 3, 4, 5], fc_timestamp = 0,
     unbound_ciphertexts_archive = [], is_bound = False\<rparr>"

lemma quiet_laws: "codecs_ok quiet_lib" "contexts_ok quiet_lib" "encryption_ok quiet_lib demo_client"
  using demo_homomorphic
  by (simp_all add: quiet_lib_def demo_lib_def codecs_ok_def contexts_ok_def read_byte_def encryption_ok_def demo_client_def id_def)

lemma demo_run: "\<exists>kf key jf request c c1 c2. demo_run = Inr ((kf, key), (jf, request), c)
  \<and> bind_to_data quiet_lib [1] c = Inr c1 \<and> generate_proof quiet_lib c1 = Inr c2"
proof -
  have "case FHEComputer_of demo_inputs of Inl _ \<Rightarrow> False | Inr (c :: (byte, byte, bytes) fhe_computer) \<Rightarrow>
      (case bind_to_data quiet_lib [1] c of Inl _ \<Rightarrow> False
       | Inr c1 \<Rightarrow> (case generate_proof quiet_lib c1 of Inl _ \<Rightarrow> False | Inr _ \<Rightarrow> True))"
    by code_simp
  then obtain c :: "(byte, byte, bytes) fhe_computer" and c1 c2 where c: "FHEComputer_of demo_inputs = Inr c"
      "bind_to_data quiet_lib [1] c = Inr c1" "generate_proof quiet_lib c1 = Inr c2"
    by (auto split: sum.splits)
  let ?j = "json_set ''type'' (Number 2) (request_json quiet_lib () 9 [1, 2, 3, 4, 5] 0)"
  have "encrypted_inputs demo_client id () 9 (conn_vector 0) = Inr [1, 2, 3, 4, 5]" by code_simp
  moreover have "FHEComputation quiet_lib ?j = Inr demo_inputs"
    using request_read [OF quiet_laws(1), of "[1, 2, 3, 4, 5]" "()" ?j 9 0 "''type''" "Number 2"] by (simp add: demo_inputs_def)
  then have "FHEComputer quiet_lib ?j = Inr c" using c(1) by (simp add: FHEComputer_def)
  moreover have "KeyGen demo_client r cc = (9, 4)" for r cc by (simp add: demo_client_def)
  ultimately have "demo_run = Inr ((''privateKey_'' @ digits_of 0 @ ''.dat'', ser_sk demo_client 4),
      (''computation_'' @ digits_of 0 @ ''.json'', ?j), c)"
    by (simp add: demo_run_def generate_computation_def Let_def)
  with c(2,3) show ?thesis by blast
qed


end
