(* ===== verification/Spec2Isabelle.thy ===== *)
theory Spec2Isabelle
  imports Prelude Util Msg Merkle TxInput Transaction TxCorrect Stores Chainstate UtxoCorrect Mempool MempoolCorrect Block BlockCorrect Chain ChainCorrect Wallet WalletCorrect Manager ManagerCorrect
    R1cs Shunt Ast AstCorrect AstBuild Fhe FheCorrect FheMining Json Base64 Net NetCorrect Node NodeRun NodeCorrect NodeProtocol NodeInvariant NodeConn Client
begin

text \<open>
  \<^bold>\<open>A model of fhe-blockchain\<close>, a proof-of-useful-work block chain in C++: instead of finding a nonce, a
  miner evaluates arithmetic expressions on homomorphically encrypted inputs, bound to the block, and
  proves the evaluation with a zero-knowledge argument.

  \<^bold>\<open>Parts of the program and where they are modelled\<close> (paths relative to the \<^verbatim>\<open>src\<close> directory of the
  repository; a theory with \<open>Correct\<close> in its name holds the lemmas of the one before it)

  \<^item> \<open>Prelude\<close>: machine types, exceptions as values (\<open>cxx_error\<close>, \<open>'a result\<close>), loops that stop at the
    first failure, and the contract of a fixed-width codec.
  \<^item> \<open>Util\<close>, \<open>Msg\<close>, \<open>Base64\<close>, \<open>Json\<close>: \<^verbatim>\<open>src/util/util.cpp\<close>, \<^verbatim>\<open>src/msg/message.cpp\<close>,
    \<^verbatim>\<open>incl/base64.hpp\<close>, and the access functions of \<^verbatim>\<open>incl/nlohmann/json.hpp\<close> that the node calls.
  \<^item> \<open>Merkle\<close>, \<open>TxInput\<close>, \<open>Transaction\<close>, \<open>TxCorrect\<close>, \<open>Block\<close>, \<open>BlockCorrect\<close>: \<^verbatim>\<open>src/core/*.cpp\<close>.
    A shared object is a value; a method that memoises (\<open>hash\<close>, \<open>TXID\<close>) returns the new value.
  \<^item> \<open>Stores\<close>, \<open>Chainstate\<close>, \<open>UtxoCorrect\<close>, \<open>Mempool\<close>, \<open>MempoolCorrect\<close>: \<^verbatim>\<open>src/store/*.cpp\<close>, as
    association lists with one entry per key; the four stores are the record \<open>stores\<close>.
  \<^item> \<open>Chain\<close>, \<open>ChainCorrect\<close>: \<^verbatim>\<open>src/chain/chain.cpp\<close>, rewards, difficulty, validation, appending.
  \<^item> \<open>Wallet\<close>, \<open>WalletCorrect\<close>: \<^verbatim>\<open>src/wallet/wallet.cpp\<close>.
  \<^item> \<open>Manager\<close>, \<open>ManagerCorrect\<close>: \<^verbatim>\<open>fork.cpp\<close>, \<^verbatim>\<open>miner.cpp\<close>, \<^verbatim>\<open>chain_manager.cpp\<close> of \<^verbatim>\<open>src/chain\<close>.
  \<^item> \<open>Shunt\<close>, \<open>Ast\<close>, \<open>AstCorrect\<close>, \<open>AstBuild\<close>: \<^verbatim>\<open>src/computer/ast.cpp\<close>; the tree is a heap of nodes
    with parent pointers, since the rotations depend on them.
  \<^item> \<open>R1cs\<close>: \<^verbatim>\<open>incl/conv/conv.tcc\<close>, conversion and padding of constraint systems.
  \<^item> \<open>Fhe\<close>, \<open>FheCorrect\<close>, \<open>FheMining\<close>: \<^verbatim>\<open>fhe_computation.cpp\<close>, \<^verbatim>\<open>fhe_computer.cpp\<close> and
    \<^verbatim>\<open>concrete_computation_factory.cpp\<close> of \<^verbatim>\<open>src/computer\<close>; \<open>fhe_ops\<close> is the class as an instance
    of the interface \<open>computation_ops\<close> (\<^verbatim>\<open>incl/core/interface/computation.hpp\<close>) that the chain uses.
  \<^item> \<open>Net\<close>, \<open>NetCorrect\<close>: \<^verbatim>\<open>src/net/peer.cpp\<close>, \<^verbatim>\<open>src/net/conn_mngr.cpp\<close>; peers in a heap, maps of
    pointers, incoming bytes in chunks, outgoing bytes in a log.
  \<^item> \<open>Node\<close>, \<open>NodeRun\<close>, \<open>NodeCorrect\<close>, \<open>NodeProtocol\<close>, \<open>NodeInvariant\<close>, \<open>NodeConn\<close>:
    \<^verbatim>\<open>src/node/node.cpp\<close>, \<^verbatim>\<open>src/net/router.cpp\<close>, \<^verbatim>\<open>src/net/rpc_router.cpp\<close>, \<^verbatim>\<open>src/net/rpc_server.cpp\<close>:
    all builders and handlers, routing, synchronisation, requests, construction, one round of the
    mining loop.
  \<^item> \<open>Client\<close>: \<^verbatim>\<open>src/conn.cpp\<close>, \<^verbatim>\<open>src/gen.cpp\<close>, \<^verbatim>\<open>src/gen_keys.cpp\<close> and \<^verbatim>\<open>src/decryptor.cpp\<close>, the
    programs that start a node, make keys and requests, and decrypt outputs.

  \<^bold>\<open>How the parts interact.\<close>  Bytes of a peer become frames (\<open>listen_loop\<close>), which \<open>route\<close> gives to the handler
  of their type; a handler reads and changes the chain manager (\<open>manager_add_block\<close>, \<open>add_tx\<close>,
  \<open>add_computation\<close>) and the connections (\<open>async_broadcast\<close>), and returns the bytes of its answer.  The
  manager appends to the main chain or a fork, which validate the block against the chain state and
  the proofs of its computations, and tell the stores and the wallet.  \<open>mining_round\<close> takes
  transactions from the pool and computations from their store, mines, appends and announces.

  \<^bold>\<open>What the lemmas show\<close>

  \<^item> Encodings: what is serialised can be read back, and hashes, ids and Merkle roots commit to what was
    hashed unless the hash function has a collision; frames arrive as they were sent.
  \<^item> Ledger: what an accepted block satisfies; adding and rewinding blocks are inverse; the wallet is
    exactly the chain state restricted to its key; the pool stays consistent and yields the highest
    fees; the main chain never gets lighter, neither by a block nor by any message of the network.
  \<^item> Computations: expressions are translated and built as written (up to multiplicative depth two,
    where no rotation fires), evaluated to their value, and what a miner proves a peer accepts, by the
    refinement of the contract \<open>lawful\<close> by \<open>fhe_ops\<close>; padding keeps the solutions of a constraint system.
  \<^item> Network: the invariant of the peer maps over all reachable states, what each message may change,
    that no bytes from a peer make a node lose a block, that a message is relayed once, that an
    announced block reaches the node that lacks it.
  \<^item> Nodes: in every state that a node reaches by connections, messages, requests and mining
    (\<open>reachable_node\<close>) its chains are linked and their blocks stored, and its peer maps
    are free of null pointers, so that a broadcast reaches every peer once.
  \<^item> The whole system: a generated request is accepted, and the result, mined over inputs bound to
    any block, decrypts to the value of the expression on the plaintexts of the client; the command
    line and the key file reach the node.
  \<^item> Failures, proved of the code as it is: unbounded coinbase, out-of-bounds difficulty from the second
    epoch on, rotations that lose operands, a switch that does not end, forks that a switch strands, payments
    and computations that block the miner, messages that end a node, one of them before it has
    chosen the peer that it asks for blocks.

  Contracts between parts are locales interpreted on the model: \<open>fixed_codec\<close> (the integer codecs of
  \<open>Util\<close>, used by every serialiser), \<open>keyed_store\<close> (block, computation and output stores, used by the
  chain), and \<open>message_handler\<close> (the router, used by the reading loop of a peer).

  \<^bold>\<open>Bounds and termination.\<close>  No fuel is used.  Recursions that the code does not bound (the Merkle
  loop, walks over the tree, the two loops of the parser) are partial functions with values in
  \<open>option\<close>, and it is proved where they return; the others are structural or have a measure.  Integers
  have the width of the code and wrap; a precondition such as \<open>unat t + 2 ^ 32 \<le> 2 ^ 64\<close> says that the 64-bit total
  difficulty has room for one more block, and \<open>2 ^ 31\<close> bounds the length of a message, an \<open>int\<close> in the code.

  \<^bold>\<open>Parameters.\<close>  The hash and signature functions of libsodium, OpenFHE, zkOpenFHE, libsnark, libff and
  libiop (\<open>fhe_lib\<close>), protobuf (\<open>protobuf\<close>), key generation, encryption and
  decryption (\<open>client_lib\<close>), connecting (\<open>dialler\<close>), the JSON parser and printer, the clock
  and floating-point rounding.  What is asked of them is stated in the theorems that need it, and
  holds of the instances in their witnesses.

  \<^bold>\<open>Not modelled.\<close>  Threads, locks and coroutines: operations run one after the other.  The state after an
  exception that nobody catches inside a handler.  How files are opened and what is printed.  The
  vendored \<^verbatim>\<open>asio\<close> and the rest of \<^verbatim>\<open>nlohmann::json\<close>, which are libraries.  \<^verbatim>\<open>src/main.cpp\<close>, a stand-alone
  evaluation that calls \<^verbatim>\<open>generate_constraints\<close> without the argument it requires, and \<^verbatim>\<open>src/oldmain.cpp\<close>, an
  example of the libraries alone.  The build and the Python client.
\<close>

end
